(* ===== verification/JsText.thy ===== *)
theory JsText
  imports Main "HOL-Library.Word" "HOL-Library.Sublist"
begin

text \<open>
  The prelude of the development: JavaScript strings and the string operations the
  scripts use.  A JavaScript string is a sequence of 16-bit code units, so it is a list
  of \<open>16 word\<close>; a literal of the source is written \<open>js ''literal''\<close>, with the code
  units of its non-ASCII characters given as numerals.  The collection \<open>js_defs\<close> holds
  the defining equations of the string operations, for evaluation on concrete texts.
\<close>

named_theorems js_defs "defining equations of the string and number operations"

section \<open>Strings\<close>

type_synonym code_unit = "16 word"
type_synonym jsstring = "code_unit list"

definition js :: "string \<Rightarrow> jsstring" where
  [js_defs]: "js s = map of_char s"

lemma of_char_nat_less: "(of_char c :: nat) < 2 ^ 16"
proof -
  have "(of_char c :: nat) mod 256 = of_char c" by (simp add: of_char_mod_256)
  then have "(of_char c :: nat) < 256" by (metis mod_less_divisor zero_less_numeral)
  then show ?thesis by (rule less_le_trans) simp
qed

lemma of_char_16_eq_iff: "(of_char c :: 16 word) = of_char d \<longleftrightarrow> c = d"
proof
  assume "(of_char c :: 16 word) = of_char d"
  then have "(of_nat (of_char c) :: 16 word) = of_nat (of_char d)"
    by (simp only: of_nat_of_char)
  then have "take_bit 16 (of_char c :: nat) = take_bit 16 (of_char d)"
    by (simp add: word_of_nat_eq_iff)
  moreover have "(of_char c :: nat) < 2 ^ 16" "(of_char d :: nat) < 2 ^ 16"
    by (simp_all only: of_char_nat_less)
  ultimately show "c = d" by (simp only: take_bit_nat_eq_self) simp
qed simp

lemma js_eq_iff [simp]: "js a = js b \<longleftrightarrow> a = b"
  unfolding js_def using inj_map_eq_map [of "of_char :: char \<Rightarrow> 16 word"] of_char_16_eq_iff
  by (auto simp: inj_def)

lemma js_Nil [simp]: "js [] = []"
  by (simp add: js_def)

lemma js_eq_Nil_iff [simp]: "js s = [] \<longleftrightarrow> s = []"
  by (simp add: js_def)

lemma Nil_eq_js_iff [simp]: "[] = js s \<longleftrightarrow> s = []"
  by (auto simp: js_def)

lemma length_js [simp]: "length (js s) = length s"
  by (simp add: js_def)

text \<open>The falsy string is the empty one: \<open>a || b\<close> on strings, and on a value that may be
  absent (\<open>null\<close> or \<open>undefined\<close>).\<close>

definition str_or :: "jsstring \<Rightarrow> jsstring \<Rightarrow> jsstring" where
  [js_defs]: "str_or a b = (if a = [] then b else a)"

definition opt_or :: "jsstring option \<Rightarrow> jsstring \<Rightarrow> jsstring" where
  [js_defs]: "opt_or a b = (case a of None \<Rightarrow> b | Some s \<Rightarrow> str_or s b)"

lemma str_or_simps [simp]:
  "str_or [] b = b" "a \<noteq> [] \<Longrightarrow> str_or a b = a" "str_or a [] = a"
  by (simp_all add: str_or_def)

lemma opt_or_simps [simp]:
  "opt_or None b = b" "opt_or (Some a) b = str_or a b"
  by (simp_all add: opt_or_def)

text \<open>White space: the code units matched by \<open>\s\<close>, which are also those \<open>trim\<close> removes
  (WhiteSpace and LineTerminator of the language standard).\<close>

definition is_space :: "code_unit \<Rightarrow> bool" where
  [js_defs]: "is_space c \<longleftrightarrow>
     c \<in> {9, 10, 11, 12, 13, 32, 0xA0, 0x1680, 0x2028, 0x2029, 0x202F, 0x205F, 0x3000, 0xFEFF}
     \<or> (0x2000 \<le> c \<and> c \<le> 0x200A)"

definition trim_start :: "jsstring \<Rightarrow> jsstring" where
  [js_defs]: "trim_start s = dropWhile is_space s"

definition trim_end :: "jsstring \<Rightarrow> jsstring" where
  [js_defs]: "trim_end s = rev (dropWhile is_space (rev s))"

definition trim :: "jsstring \<Rightarrow> jsstring" where
  [js_defs]: "trim s = trim_end (trim_start s)"

lemma trim_start_id: "s = [] \<or> \<not> is_space (hd s) \<Longrightarrow> trim_start s = s"
  by (cases s) (auto simp: trim_start_def)

lemma trim_end_id: "s = [] \<or> \<not> is_space (last s) \<Longrightarrow> trim_end s = s"
  by (cases s rule: rev_cases) (auto simp: trim_end_def)

lemma trim_end_Nil [simp]: "trim_end [] = []"
  by (simp add: trim_end_def)

lemma hd_trim_end: "trim_end s \<noteq> [] \<Longrightarrow> hd (trim_end s) = hd s"
proof (induction s rule: rev_induct)
  case (snoc x xs)
  show ?case
  proof (cases "is_space x")
    case True
    then have eq: "trim_end (xs @ [x]) = trim_end xs" by (simp add: trim_end_def)
    with snoc have "hd (trim_end xs) = hd xs" by simp
    moreover have "xs \<noteq> []" using snoc.prems eq by auto
    ultimately show ?thesis using eq by simp
  qed (simp add: trim_end_def)
qed simp

lemma last_trim_end: "trim_end s \<noteq> [] \<Longrightarrow> \<not> is_space (last (trim_end s))"
  by (simp add: trim_end_def last_rev hd_dropWhile)

lemma trim_idem [simp]: "trim (trim s) = trim s"
proof (cases "trim s = []")
  case False
  then have ne: "trim_end (trim_start s) \<noteq> []" by (simp add: trim_def)
  then have "trim_start s \<noteq> []" by auto
  then have "\<not> is_space (hd (trim_start s))" by (simp add: trim_start_def hd_dropWhile)
  with ne have "\<not> is_space (hd (trim s))" by (simp add: trim_def hd_trim_end)
  moreover have "\<not> is_space (last (trim s))" using ne by (simp add: trim_def last_trim_end)
  ultimately show ?thesis unfolding trim_def [of "trim s"]
    by (simp add: trim_start_id trim_end_id)
qed (simp add: trim_def trim_start_def)

text \<open>\<open>text.includes(q)\<close>: some suffix of the text starts with \<open>q\<close>.\<close>

fun js_includes :: "jsstring \<Rightarrow> jsstring \<Rightarrow> bool" where
  "js_includes [] q \<longleftrightarrow> q = []"
| "js_includes (c # cs) q \<longleftrightarrow> prefix q (c # cs) \<or> js_includes cs q"

lemma js_includes_iff_sublist: "js_includes s q \<longleftrightarrow> sublist q s"
  by (induction s) (auto simp: sublist_Cons_right)

text \<open>\<open>s.replace(/[cs]/g, r)\<close> for a class of single code units.\<close>

definition replace_all :: "code_unit set \<Rightarrow> jsstring \<Rightarrow> jsstring \<Rightarrow> jsstring" where
  [js_defs]: "replace_all cs r s = concat (map (\<lambda>c. if c \<in> cs then r else [c]) s)"

lemma replace_all_removes:
  "set r \<inter> cs = {} \<Longrightarrow> set (replace_all cs r s) \<inter> cs = {}"
  by (auto simp: replace_all_def split: if_splits)

lemma length_replace_all_single: "length (replace_all cs [d] s) = length s"
  by (induction s) (auto simp: replace_all_def)

section \<open>Decimal numerals\<close>

text \<open>\<open>String(n)\<close> and \<open>`${n}`\<close> for a non-negative integer below the exponent range.\<close>

fun js_nat :: "nat \<Rightarrow> jsstring" where
  "js_nat n = (if n < 10 then [of_nat (48 + n)] else js_nat (n div 10) @ [of_nat (48 + n mod 10)])"

declare js_nat.simps [simp del, js_defs]

definition is_digit :: "code_unit \<Rightarrow> bool" where
  [js_defs]: "is_digit c \<longleftrightarrow> 48 \<le> c \<and> c \<le> 57"

definition digit_val :: "code_unit \<Rightarrow> nat" where
  [js_defs]: "digit_val c = unat c - 48"

definition digits_val :: "jsstring \<Rightarrow> nat" where
  [js_defs]: "digits_val ds = foldl (\<lambda>a d. 10 * a + digit_val d) 0 ds"

lemma unat_digit: "n < 10 \<Longrightarrow> unat (of_nat (48 + n) :: 16 word) = 48 + n"
  by (simp add: unat_of_nat del: of_nat_add)

lemma digit_code:
  assumes "n < 10"
  shows "is_digit (of_nat (48 + n))" "digit_val (of_nat (48 + n)) = n"
  using unat_digit [OF assms] assms
  by (simp_all add: is_digit_def digit_val_def word_le_nat_alt del: of_nat_add)

lemma js_nat_nonempty [simp]: "js_nat n \<noteq> []"
  by (subst js_nat.simps) simp

lemma js_nat_digits: "\<forall>c \<in> set (js_nat n). is_digit c"
proof (induction n rule: js_nat.induct)
  case (1 n)
  show ?case
  proof (cases "n < 10")
    case True
    then show ?thesis by (subst js_nat.simps) (simp add: digit_code del: of_nat_add)
  next
    case False
    with 1 show ?thesis
      by (subst js_nat.simps) (auto simp: digit_code simp del: of_nat_add)
  qed
qed

lemma digits_val_snoc: "digits_val (ds @ [d]) = 10 * digits_val ds + digit_val d"
  by (simp add: digits_val_def)

lemma digits_val_js_nat [simp]: "digits_val (js_nat n) = n"
proof (induction n rule: js_nat.induct)
  case (1 n)
  show ?case
  proof (cases "n < 10")
    case True
    then show ?thesis
      by (subst js_nat.simps) (simp add: digits_val_def digit_code del: of_nat_add)
  next
    case False
    with 1 show ?thesis
      by (subst js_nat.simps) (simp add: digits_val_snoc digit_code del: of_nat_add)
  qed
qed

lemma js_nat_eq_iff [simp]: "js_nat m = js_nat n \<longleftrightarrow> m = n"
  by (metis digits_val_js_nat)

lemma digit_not_space: "is_digit c \<Longrightarrow> \<not> is_space c"
proof -
  assume d: "is_digit c"
  have "\<not> 0x2000 \<le> c"
  proof
    assume "0x2000 \<le> c"
    also have "c \<le> 57" using d by (simp add: is_digit_def)
    finally show False by simp
  qed
  with d show ?thesis by (auto simp: is_digit_def is_space_def)
qed

text \<open>\<open>s.padStart(n, c)\<close>.\<close>

definition pad_start :: "nat \<Rightarrow> code_unit \<Rightarrow> jsstring \<Rightarrow> jsstring" where
  [js_defs]: "pad_start n c s = replicate (n - length s) c @ s"

lemma length_pad_start: "length (pad_start n c s) = max n (length s)"
  by (simp add: pad_start_def)

end
