(* ===== verification/JsNumber.thy ===== *)
theory JsNumber
  imports Complex_Main JsText
begin

text \<open>
  JavaScript numbers: IEEE 754 double precision values.  A finite number is the rational
  it denotes (the two zeros are one value: nothing in the scripts tells them apart), and
  the results of \<open>+\<close>, \<open>*\<close> and \<open>/\<close> are rounded to the nearest double, ties to even.
  \<open>rnd\<close> is that rounding, \<open>to_num\<close> adds the overflow to an infinity.  The theory ends
  with the conversions the scripts use: \<open>Math.round\<close>, \<open>toFixed\<close>, \<open>Number(text)\<close>.
\<close>

section \<open>Rounding to double precision\<close>

definition pow2 :: "int \<Rightarrow> rat" where
  [js_defs]: "pow2 e = (if 0 \<le> e then 2 ^ nat e else 1 / 2 ^ nat (- e))"

fun nbits :: "nat \<Rightarrow> nat" where
  "nbits n = (if n = 0 then 0 else Suc (nbits (n div 2)))"

declare nbits.simps [simp del, js_defs]

text \<open>The exponent of a positive rational: \<open>pow2 e \<le> q < pow2 (e + 1)\<close>.\<close>

definition expo :: "rat \<Rightarrow> int" where
  [js_defs]: "expo q =
     (case quotient_of q of (n, d) \<Rightarrow>
        let e = int (nbits (nat n)) - int (nbits (nat d)) in if pow2 e \<le> q then e else e - 1)"

definition round_even :: "rat \<Rightarrow> int" where
  [js_defs]: "round_even x =
     (let f = \<lfloor>x\<rfloor>; r = x - of_int f in
      if r < 1 / 2 then f else if 1 / 2 < r then f + 1 else if even f then f else f + 1)"

text \<open>The exponent of the last place: 53 bits of significand, and never below that of the
  subnormal numbers.\<close>

definition ulp_exp :: "rat \<Rightarrow> int" where
  [js_defs]: "ulp_exp q = max (expo q - 52) (- 1074)"

definition rnd_pos :: "rat \<Rightarrow> rat" where
  [js_defs]: "rnd_pos q = of_int (round_even (q / pow2 (ulp_exp q))) * pow2 (ulp_exp q)"

definition rnd :: "rat \<Rightarrow> rat" where
  [js_defs]: "rnd q = (if q = 0 then 0 else if 0 < q then rnd_pos q else - rnd_pos (- q))"

datatype jsnum = NaN | Infinity | NegInfinity | Fin rat

definition to_num :: "rat \<Rightarrow> jsnum" where
  [js_defs]: "to_num q =
     (let r = rnd q in
      if r \<ge> pow2 1024 then Infinity else if r \<le> - pow2 1024 then NegInfinity else Fin r)"

lemma pow2_pos [simp]: "0 < pow2 e"
  by (simp add: pow2_def)

lemma pow2_nonzero [simp]: "pow2 e \<noteq> 0"
  using pow2_pos [of e] by (metis less_irrefl)

lemma pow2_add: "pow2 (a + b) = pow2 a * pow2 b"
proof -
  have "pow2 e = 2 powi e" for e
    by (simp add: pow2_def power_int_def field_simps)
  then show ?thesis by (simp add: power_int_add)
qed

lemma pow2_mono: "a \<le> b \<Longrightarrow> pow2 a \<le> pow2 b"
proof -
  assume "a \<le> b"
  then have "pow2 b = pow2 a * pow2 (b - a)" by (simp flip: pow2_add)
  moreover have "1 \<le> pow2 (b - a)" using \<open>a \<le> b\<close> by (simp add: pow2_def)
  ultimately show ?thesis by simp
qed

lemma pow2_less_iff: "pow2 a < pow2 b \<longleftrightarrow> a < b"
proof -
  have "a < b \<Longrightarrow> pow2 a < pow2 b"
  proof -
    assume "a < b"
    then have "pow2 (a + 1) \<le> pow2 b" by (intro pow2_mono) simp
    moreover have "pow2 (a + 1) = pow2 a * 2" by (subst pow2_add) (simp add: pow2_def [of 1])
    ultimately show ?thesis using pow2_pos [of a] by linarith
  qed
  then show ?thesis using pow2_mono [of b a] by (meson not_less)
qed

lemma nbits_bounds: "0 < n \<Longrightarrow> 2 ^ (nbits n - 1) \<le> n \<and> n < 2 ^ nbits n \<and> 0 < nbits n"
proof (induction n rule: nbits.induct)
  case (1 n)
  show ?case
  proof (cases "n div 2 = 0")
    case True
    with 1 have "n = 1" by simp
    then show ?thesis by (simp add: nbits.simps)
  next
    case False
    with 1 have ih: "2 ^ (nbits (n div 2) - 1) \<le> n div 2" "n div 2 < 2 ^ nbits (n div 2)"
      "0 < nbits (n div 2)" by auto
    have eq: "nbits n = Suc (nbits (n div 2))" using 1 by (subst nbits.simps) simp
    obtain k where k: "nbits (n div 2) = Suc k" using ih(3) by (cases "nbits (n div 2)") auto
    show ?thesis using ih eq k by auto
  qed
qed

lemma expo_bounds:
  assumes "0 < q"
  shows "pow2 (expo q) \<le> q" "q < pow2 (expo q + 1)"
proof -
  obtain n d where nd: "quotient_of q = (n, d)" by (cases "quotient_of q")
  have d: "0 < d" using quotient_of_denom_pos nd by blast
  have q: "q = of_int n / of_int d" using quotient_of_div nd by blast
  with assms d have n: "0 < n" by (simp add: zero_less_divide_iff)
  define a b where "a = nbits (nat n)" and "b = nbits (nat d)"
  have bn: "2 ^ (a - 1) \<le> nat n" "nat n < 2 ^ a" "0 < a"
    using nbits_bounds [of "nat n"] n by (auto simp: a_def)
  have bd: "2 ^ (b - 1) \<le> nat d" "nat d < 2 ^ b" "0 < b"
    using nbits_bounds [of "nat d"] d by (auto simp: b_def)
  have rn: "pow2 (int a - 1) \<le> of_int n" "of_int n < pow2 (int a)"
  proof -
    have "(of_nat (2 ^ (a - 1)) :: rat) \<le> of_nat (nat n)" using bn(1) by (rule of_nat_mono)
    then show "pow2 (int a - 1) \<le> of_int n" using bn(3) n by (simp add: pow2_def nat_diff_distrib')
    have "(of_nat (nat n) :: rat) < of_nat (2 ^ a)" using bn(2) by (simp only: of_nat_less_iff)
    then show "of_int n < pow2 (int a)" using n by (simp add: pow2_def)
  qed
  have rd: "pow2 (int b - 1) \<le> of_int d" "of_int d < pow2 (int b)"
  proof -
    have "(of_nat (2 ^ (b - 1)) :: rat) \<le> of_nat (nat d)" using bd(1) by (rule of_nat_mono)
    then show "pow2 (int b - 1) \<le> of_int d" using bd(3) d by (simp add: pow2_def nat_diff_distrib')
    have "(of_nat (nat d) :: rat) < of_nat (2 ^ b)" using bd(2) by (simp only: of_nat_less_iff)
    then show "of_int d < pow2 (int b)" using d by (simp add: pow2_def)
  qed
  let ?e = "int a - int b"
  have lo: "pow2 (?e - 1) \<le> q"
  proof -
    have "pow2 (?e - 1) * of_int d \<le> pow2 (?e - 1) * pow2 (int b)"
      using rd(2) by (intro mult_left_mono) (auto simp: less_imp_le)
    also have "\<dots> = pow2 (int a - 1)" by (simp flip: pow2_add)
    also have "\<dots> \<le> of_int n" by (rule rn(1))
    finally show ?thesis using d by (simp add: q pos_le_divide_eq)
  qed
  have hi: "q < pow2 (?e + 1)"
  proof -
    have "(of_int n :: rat) < pow2 (int a)" by (rule rn(2))
    also have "\<dots> = pow2 (?e + 1) * pow2 (int b - 1)" by (simp flip: pow2_add)
    also have "\<dots> \<le> pow2 (?e + 1) * of_int d"
      using rd(1) by (intro mult_left_mono) (auto simp: less_imp_le)
    finally show ?thesis using d by (simp add: q pos_divide_less_eq)
  qed
  have e: "expo q = (if pow2 ?e \<le> q then ?e else ?e - 1)"
    by (simp add: expo_def nd a_def b_def)
  show "pow2 (expo q) \<le> q" "q < pow2 (expo q + 1)" using lo hi by (auto simp: e)
qed

lemma expo_unique:
  assumes "0 < q" "pow2 e \<le> q" "q < pow2 (e + 1)"
  shows "expo q = e"
proof -
  have "pow2 (expo q) < pow2 (e + 1)" "pow2 e < pow2 (expo q + 1)"
    using expo_bounds [OF assms(1)] assms(2,3) by auto
  then show ?thesis by (simp add: pow2_less_iff)
qed

lemma expo_mono: "0 < q \<Longrightarrow> q \<le> r \<Longrightarrow> expo q \<le> expo r"
proof -
  assume a: "0 < q" "q \<le> r"
  then have "pow2 (expo q) < pow2 (expo r + 1)"
    using expo_bounds(1) [of q] expo_bounds(2) [of r] by linarith
  then show ?thesis by (simp add: pow2_less_iff)
qed

lemma round_even_of_int [simp]: "round_even (of_int k) = k"
  by (simp add: round_even_def)

lemma round_even_bounds: "\<lfloor>x\<rfloor> \<le> round_even x" "round_even x \<le> \<lfloor>x\<rfloor> + 1"
  by (auto simp: round_even_def Let_def)

lemma round_even_mono: "x \<le> y \<Longrightarrow> round_even x \<le> round_even y"
proof -
  assume le: "x \<le> y"
  show ?thesis
  proof (cases "\<lfloor>x\<rfloor> = \<lfloor>y\<rfloor>")
    case True
    with le show ?thesis by (auto simp: round_even_def Let_def)
  next
    case False
    with le have "\<lfloor>x\<rfloor> + 1 \<le> \<lfloor>y\<rfloor>" using floor_mono [OF le] by linarith
    then show ?thesis using round_even_bounds [of x] round_even_bounds [of y] by linarith
  qed
qed

text \<open>A value on the grid of its own last place is left as it is.\<close>

lemma rnd_pos_grid: "q = of_int k * pow2 (ulp_exp q) \<Longrightarrow> rnd_pos q = q"
proof -
  assume "q = of_int k * pow2 (ulp_exp q)"
  then have "q / pow2 (ulp_exp q) = of_int k" by (metis nonzero_mult_div_cancel_right pow2_nonzero)
  then show ?thesis by (simp add: rnd_pos_def) (metis \<open>q = of_int k * pow2 (ulp_exp q)\<close>)
qed

lemma rnd_pos_mono:
  assumes "0 < q" "q \<le> r"
  shows "rnd_pos q \<le> rnd_pos r"
proof (cases "ulp_exp q = ulp_exp r")
  case True
  have "round_even (q / pow2 (ulp_exp q)) \<le> round_even (r / pow2 (ulp_exp r))"
    using assms True by (intro round_even_mono) (simp add: divide_right_mono less_imp_le)
  then show ?thesis using True
    by (simp add: rnd_pos_def mult_right_mono less_imp_le)
next
  case False
  have le: "expo q \<le> expo r" using assms by (rule expo_mono)
  with False have v: "ulp_exp r = expo r - 52" and lt: "expo q + 1 \<le> expo r"
    and u: "ulp_exp q < ulp_exp r"
    by (auto simp: ulp_exp_def max_def split: if_splits)
  have qr: "q \<le> pow2 (expo r)"
    using expo_bounds(2) [OF assms(1)] pow2_mono [OF lt] by linarith
  have "rnd_pos q \<le> pow2 (expo r)"
  proof -
    let ?k = "2 ^ nat (expo r - ulp_exp q) :: int"
    have e: "(of_int ?k :: rat) = pow2 (expo r - ulp_exp q)" using u v by (simp add: pow2_def)
    have "q / pow2 (ulp_exp q) \<le> pow2 (expo r) / pow2 (ulp_exp q)"
      using qr by (simp add: divide_right_mono less_imp_le)
    also have "\<dots> = of_int ?k"
      by (subst e) (simp add: field_simps flip: pow2_add)
    finally have "round_even (q / pow2 (ulp_exp q)) \<le> ?k"
      by (metis round_even_mono round_even_of_int)
    then have "(of_int (round_even (q / pow2 (ulp_exp q))) :: rat) \<le> of_int ?k"
      by (simp only: of_int_le_iff)
    then have "rnd_pos q \<le> of_int ?k * pow2 (ulp_exp q)"
      unfolding rnd_pos_def by (intro mult_right_mono) (auto simp: less_imp_le)
    then show ?thesis by (subst (asm) e) (simp flip: pow2_add)
  qed
  moreover have "pow2 (expo r) \<le> rnd_pos r"
  proof -
    have e: "(of_int (2 ^ 52) :: rat) = pow2 52" by (simp add: pow2_def)
    have "pow2 (expo r) / pow2 (ulp_exp r) \<le> r / pow2 (ulp_exp r)"
      using expo_bounds(1) [of r] assms by (simp add: divide_right_mono less_imp_le)
    moreover have "pow2 (expo r) / pow2 (ulp_exp r) = of_int (2 ^ 52)"
      by (subst e) (simp add: v field_simps flip: pow2_add)
    ultimately have "2 ^ 52 \<le> round_even (r / pow2 (ulp_exp r))"
      by (metis round_even_mono round_even_of_int)
    then have "(of_int (2 ^ 52) :: rat) \<le> of_int (round_even (r / pow2 (ulp_exp r)))"
      by (simp only: of_int_le_iff)
    then have "of_int (2 ^ 52) * pow2 (ulp_exp r) \<le> rnd_pos r"
      unfolding rnd_pos_def by (intro mult_right_mono) (auto simp: less_imp_le)
    then show ?thesis by (subst (asm) e) (simp add: v flip: pow2_add)
  qed
  ultimately show ?thesis by linarith
qed

lemma rnd_0 [simp]: "rnd 0 = 0"
  by (simp add: rnd_def)

lemma rnd_pos_of_int:
  assumes "0 < k" "k \<le> 2 ^ 53"
  shows "rnd_pos (of_int k) = of_int k"
proof -
  let ?u = "ulp_exp (of_int k)"
  have lt: "pow2 (expo (of_int k)) \<le> of_int k" using assms by (intro expo_bounds) simp
  also have "(of_int k :: rat) \<le> of_int (2 ^ 53)" using assms(2) by (simp only: of_int_le_iff)
  also have "\<dots> = pow2 53" by (simp add: pow2_def)
  finally have e: "expo (of_int k) \<le> 53" using pow2_less_iff by (meson not_less)
  show ?thesis
  proof (cases "expo (of_int k) = 53")
    case True
    then have "pow2 53 \<le> (of_int k :: rat)" using lt by simp
    then have "(of_int (2 ^ 53) :: rat) \<le> of_int k" by (simp add: pow2_def)
    then have "k = 2 ^ 53" using assms(2) by (simp only: of_int_le_iff)
    moreover have "?u = 1" using True by (simp add: ulp_exp_def)
    ultimately have "of_int k = of_int (2 ^ 52) * pow2 ?u" by (simp add: pow2_def)
    then show ?thesis by (rule rnd_pos_grid)
  next
    case False
    with e have u: "?u \<le> 0" by (simp add: ulp_exp_def)
    have "of_int (k * 2 ^ nat (- ?u)) * pow2 ?u = (of_int k :: rat) * (pow2 (- ?u) * pow2 ?u)"
      using u by (simp add: pow2_def)
    also have "\<dots> = of_int k * pow2 0" by (simp flip: pow2_add)
    also have "\<dots> = of_int k" by (simp add: pow2_def)
    finally show ?thesis by (rule rnd_pos_grid [OF sym])
  qed
qed

lemma rnd_of_nat: "n \<le> 2 ^ 53 \<Longrightarrow> rnd (of_nat n) = of_nat n"
proof (cases "n = 0")
  case False
  assume "n \<le> 2 ^ 53"
  then have "int n \<le> 2 ^ 53" by (metis of_nat_le_iff of_nat_numeral of_nat_power)
  with False have "rnd_pos (of_int (int n)) = of_int (int n)" by (intro rnd_pos_of_int) simp_all
  with False show ?thesis by (simp add: rnd_def)
qed simp

lemma rnd_pos_nonneg: "0 < q \<Longrightarrow> 0 \<le> rnd_pos q"
proof -
  assume "0 < q"
  then have "0 \<le> q / pow2 (ulp_exp q)" by (simp add: less_imp_le)
  then have "0 \<le> round_even (q / pow2 (ulp_exp q))"
    by (metis of_int_0 round_even_mono round_even_of_int)
  then show ?thesis by (simp add: rnd_pos_def less_imp_le)
qed

lemma rnd_nonneg [simp]: "0 \<le> q \<Longrightarrow> 0 \<le> rnd q"
  using rnd_pos_nonneg [of q] by (simp add: rnd_def)

lemma rnd_mono: "q \<le> r \<Longrightarrow> rnd q \<le> rnd r"
proof -
  assume le: "q \<le> r"
  consider "0 < q" | "q \<le> 0" "0 \<le> r" | "r < 0" by linarith
  then show ?thesis
  proof cases
    case 1
    with le show ?thesis using rnd_pos_mono [of q r] by (simp add: rnd_def)
  next
    case 2
    then have "rnd q \<le> 0" using rnd_pos_nonneg [of "- q"] by (auto simp: rnd_def)
    moreover have "0 \<le> rnd r" using 2 by simp
    ultimately show ?thesis by linarith
  next
    case 3
    with le show ?thesis using rnd_pos_mono [of "- r" "- q"] by (simp add: rnd_def)
  qed
qed

lemma rnd_le_of_nat: "q \<le> of_nat n \<Longrightarrow> n \<le> 2 ^ 53 \<Longrightarrow> rnd q \<le> of_nat n"
  using rnd_mono [of q "of_nat n"] by (simp add: rnd_of_nat)

lemma rnd_ge_of_nat: "of_nat n \<le> q \<Longrightarrow> n \<le> 2 ^ 53 \<Longrightarrow> of_nat n \<le> rnd q"
  using rnd_mono [of "of_nat n" q] by (simp add: rnd_of_nat)

text \<open>Dividing a count by a small number and rounding the quotient to a double leaves its whole
  part unchanged.\<close>

lemma rnd_thousandths:
  assumes "m < 2 ^ 52"
  shows "rnd (of_nat m / 1024) = of_nat m / 1024"
proof (cases "m = 0")
  case False
  let ?q = "of_nat m / 1024 :: rat"
  have q: "0 < ?q" using False by simp
  have "(of_nat m :: rat) < 2 ^ 52" using assms by (metis of_nat_less_iff of_nat_numeral of_nat_power)
  then have "?q < pow2 42" by (simp add: pow2_def)
  with expo_bounds(1) [OF q] have "pow2 (expo ?q) < pow2 42" by simp
  then have "expo ?q < 42" by (simp add: pow2_less_iff)
  then have u: "ulp_exp ?q \<le> - 10" by (simp add: ulp_exp_def)
  let ?d = "nat (- 10 - ulp_exp ?q)"
  have "pow2 (- 10 - ulp_exp ?q) = of_int (2 ^ ?d)" using u by (simp add: pow2_def)
  then have "of_int (int m * 2 ^ ?d) * pow2 (ulp_exp ?q) = of_nat m * (pow2 (- 10 - ulp_exp ?q) * pow2 (ulp_exp ?q))"
    by simp
  also have "\<dots> = ?q" by (simp add: pow2_add [symmetric]) (simp add: pow2_def)
  finally have "rnd_pos ?q = ?q" by (intro rnd_pos_grid [of _ "int m * 2 ^ ?d"]) simp
  with q show ?thesis by (simp add: rnd_def)
qed simp

lemma floor_rnd_div:
  assumes "n < 2 ^ 42" "0 < c" "c \<le> 1024"
  shows "\<lfloor>rnd (of_nat n / of_nat c)\<rfloor> = int (n div c)"
proof -
  let ?k = "n div c" and ?q = "of_nat n / of_nat c :: rat"
  have k: "?k \<le> n" by simp
  have lo: "of_nat ?k \<le> rnd ?q"
  proof (rule rnd_ge_of_nat)
    have "?k * c \<le> n" by simp
    then have "(of_nat ?k :: rat) * of_nat c \<le> of_nat n" by (metis of_nat_le_iff of_nat_mult)
    then show "of_nat ?k \<le> ?q" using assms(2) by (simp add: pos_le_divide_eq)
    have "n \<le> 2 ^ 53" using assms(1) by simp
    with k show "?k \<le> 2 ^ 53" by (rule order_trans)
  qed
  have "n mod c * 1024 \<le> 1023 * c"
    using mod_less_divisor [OF assms(2), of n] assms(3) by linarith
  moreover have "n * 1024 = ?k * c * 1024 + n mod c * 1024"
    by (metis add_mult_distrib div_mult_mod_eq)
  ultimately have "n * 1024 \<le> (?k * 1024 + 1023) * c" by (simp add: algebra_simps)
  then have "(of_nat n :: rat) * 1024 \<le> of_nat (?k * 1024 + 1023) * of_nat c"
    by (metis of_nat_le_iff of_nat_mult of_nat_numeral)
  then have "?q \<le> of_nat (?k * 1024 + 1023) / 1024"
    using assms(2) by (simp add: divide_le_eq pos_le_divide_eq)
  then have "rnd ?q \<le> rnd (of_nat (?k * 1024 + 1023) / 1024)" by (rule rnd_mono)
  also have "\<dots> = of_nat (?k * 1024 + 1023) / 1024"
  proof (rule rnd_thousandths)
    have "?k < 2 ^ 42" using k assms(1) by (rule le_less_trans)
    then show "?k * 1024 + 1023 < 2 ^ 52" by simp
  qed
  finally have "rnd ?q \<le> of_nat (?k * 1024 + 1023) / 1024" .
  then have "rnd ?q < of_nat ?k + 1" by simp
  with lo show ?thesis by (simp add: floor_eq_iff)
qed

section \<open>Conversions of the standard library\<close>

text \<open>\<open>Math.round\<close>: the nearest integer, ties towards positive infinity.\<close>

definition math_round :: "rat \<Rightarrow> int" where
  [js_defs]: "math_round x = \<lfloor>x + 1 / 2\<rfloor>"

lemma math_round_of_int [simp]: "math_round (of_int k) = k"
  by (simp add: math_round_def floor_eq_iff)

lemma math_round_mono: "x \<le> y \<Longrightarrow> math_round x \<le> math_round y"
  by (simp add: math_round_def floor_mono)

text \<open>\<open>x.toFixed(f)\<close> for \<open>0 \<le> x < 10 ^ 21\<close> with a positive number of digits, and its sign rule
  for a negative value.  The integer \<open>n\<close> is the one that makes \<open>n / 10 ^ f\<close> closest to the
  exact value, the larger one on a tie.\<close>

definition fixed_digits :: "nat \<Rightarrow> rat \<Rightarrow> nat" where
  [js_defs]: "fixed_digits f x = nat \<lfloor>x * 10 ^ f + 1 / 2\<rfloor>"

definition to_fixed_pos :: "nat \<Rightarrow> rat \<Rightarrow> jsstring" where
  [js_defs]: "to_fixed_pos f x =
     (let n = fixed_digits f x in
      if f = 0 then js_nat n
      else js_nat (n div 10 ^ f) @ js ''.'' @ pad_start f 48 (js_nat (n mod 10 ^ f)))"

definition to_fixed :: "nat \<Rightarrow> rat \<Rightarrow> jsstring" where
  [js_defs]: "to_fixed f x = (if x < 0 then js ''-'' @ to_fixed_pos f (- x) else to_fixed_pos f x)"

text \<open>\<open>String(k)\<close> for an integer below the exponent range.\<close>

definition js_int :: "int \<Rightarrow> jsstring" where
  [js_defs]: "js_int k = (if k < 0 then js ''-'' @ js_nat (nat (- k)) else js_nat (nat k))"

text \<open>\<open>Number(text)\<close>: white space is trimmed, the empty text is 0, a decimal literal may have
  a sign, a fraction and an exponent, and the prefixes of the other bases take no sign.\<close>

definition digit_of :: "code_unit \<Rightarrow> nat" where
  [js_defs]: "digit_of c =
     (let u = unat c in
      if 48 \<le> u \<and> u \<le> 57 then u - 48
      else if 97 \<le> u \<and> u \<le> 102 then u - 87
      else if 65 \<le> u \<and> u \<le> 70 then u - 55 else 99)"

definition radix_val :: "nat \<Rightarrow> jsstring \<Rightarrow> jsnum" where
  [js_defs]: "radix_val b ds =
     (if ds \<noteq> [] \<and> list_all (\<lambda>c. digit_of c < b) ds
      then to_num (of_nat (foldl (\<lambda>a c. b * a + digit_of c) 0 ds)) else NaN)"

definition parse_exponent :: "jsstring \<Rightarrow> int option" where
  [js_defs]: "parse_exponent s =
     (case s of [] \<Rightarrow> Some 0
      | c # r \<Rightarrow>
          if c = 101 \<or> c = 69 then
            (let (sg, ds) = (case r of
                 [] \<Rightarrow> (1, [])
               | d # ds' \<Rightarrow> if d = 45 then (- 1, ds') else if d = 43 then (1, ds') else (1, r))
             in if ds \<noteq> [] \<and> list_all is_digit ds then Some (sg * int (digits_val ds)) else None)
          else None)"

definition ten_pow :: "int \<Rightarrow> rat" where
  [js_defs]: "ten_pow e = (if 0 \<le> e then 10 ^ nat e else 1 / 10 ^ nat (- e))"

definition parse_decimal :: "jsstring \<Rightarrow> rat option" where
  [js_defs]: "parse_decimal s =
     (let i = takeWhile is_digit s; r = dropWhile is_digit s;
          (f, r') = (case r of
              [] \<Rightarrow> ([], [])
            | c # t \<Rightarrow> if c = 46 then (takeWhile is_digit t, dropWhile is_digit t) else ([], r))
      in if i = [] \<and> f = [] then None
         else map_option
           (\<lambda>e. of_nat (digits_val (i @ f)) * ten_pow (e - int (length f)))
           (parse_exponent r'))"

definition signed_num :: "bool \<Rightarrow> jsstring \<Rightarrow> jsnum" where
  [js_defs]: "signed_num neg s =
     (if s = js ''Infinity'' then (if neg then NegInfinity else Infinity)
      else case parse_decimal s of None \<Rightarrow> NaN | Some q \<Rightarrow> to_num (if neg then - q else q))"

definition to_number :: "jsstring \<Rightarrow> jsnum" where
  [js_defs]: "to_number text =
     (let s = trim text in
      case s of [] \<Rightarrow> Fin 0
      | c # r \<Rightarrow>
          if c = 45 then signed_num True r
          else if c = 43 then signed_num False r
          else if c = 48 \<and> r \<noteq> [] \<and> hd r \<in> {120, 88} then radix_val 16 (tl r)
          else if c = 48 \<and> r \<noteq> [] \<and> hd r \<in> {111, 79} then radix_val 8 (tl r)
          else if c = 48 \<and> r \<noteq> [] \<and> hd r \<in> {98, 66} then radix_val 2 (tl r)
          else signed_num False s)"

text \<open>\<open>x || d\<close> on numbers: 0 and NaN are falsy.\<close>

definition num_or :: "jsnum \<Rightarrow> jsnum \<Rightarrow> jsnum" where
  [js_defs]: "num_or x d = (if x = NaN \<or> x = Fin 0 then d else x)"

lemma to_num_of_nat: "n \<le> 2 ^ 53 \<Longrightarrow> to_num (of_nat n) = Fin (of_nat n)"
proof -
  assume n: "n \<le> 2 ^ 53"
  then have "(of_nat n :: rat) \<le> of_nat (2 ^ 53)" by (simp only: of_nat_le_iff)
  also have "\<dots> = pow2 53" by (simp add: pow2_def)
  also have "\<dots> < pow2 1024" by (simp add: pow2_less_iff)
  finally have "of_nat n < pow2 1024" .
  moreover have "- pow2 1024 < of_nat n" by (rule less_le_trans [of _ 0]) simp_all
  ultimately show ?thesis using rnd_of_nat [OF n] by (simp add: to_num_def)
qed

lemma trim_js_nat [simp]: "trim (js_nat n) = js_nat n"
proof -
  have ws: "\<forall>c \<in> set (js_nat n). \<not> is_space c" using js_nat_digits digit_not_space by blast
  have "\<not> is_space (hd (js_nat n))" "\<not> is_space (last (js_nat n))"
    using ws js_nat_nonempty [of n] hd_in_set last_in_set by blast+
  then show ?thesis by (simp add: trim_def trim_start_id trim_end_id)
qed

lemma parse_decimal_js_nat: "parse_decimal (js_nat n) = Some (of_nat n)"
proof -
  have t: "takeWhile is_digit (js_nat n) = js_nat n"
    using js_nat_digits [of n] by (simp only: takeWhile_eq_all_conv)
  have d: "dropWhile is_digit (js_nat n) = []"
    using js_nat_digits [of n] by (simp only: dropWhile_eq_Nil_conv)
  show ?thesis unfolding parse_decimal_def t d
    by (simp add: parse_exponent_def ten_pow_def)
qed

text \<open>Reading back a printed integer gives the integer: \<open>Number(String(n)) === n\<close>.\<close>

lemma to_number_js_nat: "n \<le> 2 ^ 53 \<Longrightarrow> to_number (js_nat n) = Fin (of_nat n)"
proof -
  assume n: "n \<le> 2 ^ 53"
  obtain c r where cr: "js_nat n = c # r" by (cases "js_nat n") auto
  have dig: "is_digit c" "\<forall>d \<in> set r. is_digit d" using js_nat_digits [of n] cr by auto
  have "c \<noteq> 45" "c \<noteq> 43" using dig(1) by (auto simp: is_digit_def)
  moreover have "r \<noteq> [] \<Longrightarrow> is_digit (hd r)" using dig(2) by simp
  then have "r \<noteq> [] \<Longrightarrow> hd r \<notin> {120, 88} \<and> hd r \<notin> {111, 79} \<and> hd r \<notin> {98, 66}"
    by (auto simp: is_digit_def)
  moreover have "signed_num False (js_nat n) = Fin (of_nat n)"
  proof -
    have "\<not> is_digit (hd (js ''Infinity''))" by (simp add: js_def is_digit_def)
    then have "js_nat n \<noteq> js ''Infinity''" using cr dig(1) by (metis list.sel(1))
    then show ?thesis by (simp add: signed_num_def parse_decimal_js_nat to_num_of_nat [OF n])
  qed
  ultimately show ?thesis
    unfolding to_number_def Let_def trim_js_nat using cr by (simp split: list.splits) blast
qed

end
