(* ===== verification/JsValue.thy ===== *)
theory JsValue
  imports JsNumber
begin

text \<open>
  JavaScript values as the scripts meet them in JSON replies: the value type, truthiness,
  property access (which throws on \<open>null\<close> and \<open>undefined\<close>), conversion to text and to
  numbers, the arithmetic and comparisons the scripts do on such values, and \<open>JSON.stringify\<close> on
  the flat objects they build, with a reader for the strings it writes.  A computation that may throw is of type \<open>exn + 'a\<close>.
\<close>

section \<open>Values and exceptions\<close>

datatype jsval =
    Undefined
  | Null
  | JBool bool
  | Num jsnum
  | Str jsstring
  | Arr "jsval list"
  | Obj "(jsstring \<times> jsval) list"

text \<open>A \<open>TypeError\<close> raised by the engine carries a message of the engine's choice; an error
  the script throws carries the script's message.\<close>

datatype exn = TypeError | SyntaxError | NetworkError | Thrown jsstring

type_synonym 'a result = "exn + 'a"

definition bind_result :: "'a result \<Rightarrow> ('a \<Rightarrow> 'b result) \<Rightarrow> 'b result" where
  [simp]: "bind_result r f = (case r of Inl e \<Rightarrow> Inl e | Inr x \<Rightarrow> f x)"

fun truthy :: "jsval \<Rightarrow> bool" where
  "truthy Undefined = False"
| "truthy Null = False"
| "truthy (JBool b) = b"
| "truthy (Num n) = (n \<noteq> NaN \<and> n \<noteq> Fin 0)"
| "truthy (Str s) = (s \<noteq> [])"
| "truthy (Arr _) = True"
| "truthy (Obj _) = True"

definition js_or :: "jsval \<Rightarrow> jsval \<Rightarrow> jsval" where
  "js_or a b = (if truthy a then a else b)"

definition nullish :: "jsval \<Rightarrow> bool" where
  "nullish v \<longleftrightarrow> v = Undefined \<or> v = Null"

text \<open>The own property \<open>k\<close> of a value that is not nullish (an absent one is \<open>undefined\<close>, and
  the values of the replies carry no properties of their own unless they are objects), the
  access \<open>v.k\<close> that throws on a nullish value, and the optional chain \<open>v?.k\<close>.\<close>

definition own :: "jsval \<Rightarrow> jsstring \<Rightarrow> jsval" where
  "own v k = (case v of Obj fs \<Rightarrow> (case map_of fs k of None \<Rightarrow> Undefined | Some x \<Rightarrow> x)
                      | _ \<Rightarrow> Undefined)"

definition get_prop :: "jsval \<Rightarrow> jsstring \<Rightarrow> jsval result" where
  "get_prop v k = (if nullish v then Inl TypeError else Inr (own v k))"

definition opt_prop :: "jsval \<Rightarrow> jsstring \<Rightarrow> jsval" where
  "opt_prop v k = (if nullish v then Undefined else own v k)"

lemma own_Obj [simp]:
  "own (Obj fs) k = (case map_of fs k of None \<Rightarrow> Undefined | Some x \<Rightarrow> x)"
  by (simp add: own_def)

lemma own_not_Obj [simp]:
  "own (Str s) k = Undefined" "own (Num n) k = Undefined" "own (JBool b) k = Undefined"
  "own (Arr vs) k = Undefined" "own Undefined k = Undefined" "own Null k = Undefined"
  by (simp_all add: own_def)

section \<open>Conversion to text\<close>

text \<open>\<open>String(x)\<close> for a finite number: the shortest decimal that rounds to \<open>x\<close>, and of those
  the closest.  \<open>dec_expo x\<close> is the \<open>n\<close> with \<open>10 ^ (n - 1) \<le> x < 10 ^ n\<close>, found by counting up
  from the lowest exponent a double can have.\<close>

fun dec_expo_up :: "nat \<Rightarrow> rat \<Rightarrow> int \<Rightarrow> int" where
  "dec_expo_up 0 x n = n"
| "dec_expo_up (Suc k) x n = (if x < ten_pow n then n else dec_expo_up k x (n + 1))"

fun dec_expo_down :: "nat \<Rightarrow> rat \<Rightarrow> int \<Rightarrow> int" where
  "dec_expo_down 0 x n = n"
| "dec_expo_down (Suc k) x n =
     (if ten_pow (n - 1) \<le> x then n else dec_expo_down k x (n - 1))"

definition dec_expo :: "rat \<Rightarrow> int" where
  "dec_expo x = (if 1 \<le> x then dec_expo_up 310 x 1 else dec_expo_down 330 x 0)"

fun shortest :: "nat \<Rightarrow> nat \<Rightarrow> rat \<Rightarrow> int \<Rightarrow> nat \<times> nat" where
  "shortest 0 k x n = (nat \<lfloor>x / ten_pow (n - int k) + 1 / 2\<rfloor>, k)"
| "shortest (Suc m) k x n =
     (let s = nat \<lfloor>x / ten_pow (n - int k) + 1 / 2\<rfloor>
      in if rnd (of_nat s * ten_pow (n - int k)) = x then (s, k) else shortest m (Suc k) x n)"

definition pos_text :: "rat \<Rightarrow> jsstring" where
  "pos_text x =
     (let n = dec_expo x; (s, k) = shortest 16 1 x n; ds = js_nat s in
      if int k \<le> n \<and> n \<le> 21 then ds @ replicate (nat (n - int k)) 48
      else if 0 < n \<and> n \<le> 21 then take (nat n) ds @ js ''.'' @ drop (nat n) ds
      else if -6 < n \<and> n \<le> 0 then js ''0.'' @ replicate (nat (- n)) 48 @ ds
      else take 1 ds @ (if k = 1 then [] else js ''.'' @ drop 1 ds) @ js ''e''
           @ (if 0 < n - 1 then js ''+'' else js ''-'') @ js_nat (nat \<bar>n - 1\<bar>))"

definition num_text :: "rat \<Rightarrow> jsstring" where
  "num_text x =
     (if x = 0 then js ''0'' else if x < 0 then js ''-'' @ pos_text (- x) else pos_text x)"

fun jsnum_text :: "jsnum \<Rightarrow> jsstring" where
  "jsnum_text NaN = js ''NaN''"
| "jsnum_text Infinity = js ''Infinity''"
| "jsnum_text NegInfinity = js ''-Infinity''"
| "jsnum_text (Fin x) = num_text x"

fun join_comma :: "jsstring list \<Rightarrow> jsstring" where
  "join_comma [] = []"
| "join_comma [s] = s"
| "join_comma (s # ss) = s @ js '','' @ join_comma ss"

text \<open>\<open>String(v)\<close>; inside an array the nullish elements print as the empty text.\<close>

fun to_text :: "jsval \<Rightarrow> jsstring" where
  "to_text Undefined = js ''undefined''"
| "to_text Null = js ''null''"
| "to_text (JBool b) = (if b then js ''true'' else js ''false'')"
| "to_text (Num n) = jsnum_text n"
| "to_text (Str s) = s"
| "to_text (Arr vs) = join_comma (map (\<lambda>v. if nullish v then [] else to_text v) vs)"
| "to_text (Obj _) = js ''[object Object]''"

section \<open>Arithmetic on values\<close>

text \<open>Conversion to a number, as arithmetic, the comparisons and \<open>Math\<close> apply it: objects and arrays
  go through their text.\<close>

fun to_numeric :: "jsval \<Rightarrow> jsnum" where
  "to_numeric Undefined = NaN"
| "to_numeric Null = Fin 0"
| "to_numeric (JBool b) = Fin (if b then 1 else 0)"
| "to_numeric (Num x) = x"
| "to_numeric (Str s) = to_number s"
| "to_numeric (Arr vs) = to_number (to_text (Arr vs))"
| "to_numeric (Obj fs) = to_number (to_text (Obj fs))"

text \<open>\<open>a <= b\<close>, \<open>Math.min(a, b)\<close>, \<open>Math.max(a, b)\<close>, \<open>a + b\<close>, and the product and the quotient with a
  positive constant.\<close>

fun num_le :: "jsnum \<Rightarrow> jsnum \<Rightarrow> bool" where
  "num_le NaN b = False"
| "num_le a NaN = False"
| "num_le NegInfinity b = True"
| "num_le a Infinity = True"
| "num_le (Fin x) (Fin y) = (x \<le> y)"
| "num_le a b = False"

definition js_min :: "jsnum \<Rightarrow> jsnum \<Rightarrow> jsnum" where
  "js_min a b = (if a = NaN \<or> b = NaN then NaN else if num_le a b then a else b)"

definition js_max :: "jsnum \<Rightarrow> jsnum \<Rightarrow> jsnum" where
  "js_max a b = (if a = NaN \<or> b = NaN then NaN else if num_le a b then b else a)"

fun num_add :: "jsnum \<Rightarrow> jsnum \<Rightarrow> jsnum" where
  "num_add (Fin x) (Fin y) = to_num (x + y)"
| "num_add NaN b = NaN"
| "num_add a NaN = NaN"
| "num_add Infinity NegInfinity = NaN"
| "num_add NegInfinity Infinity = NaN"
| "num_add Infinity b = Infinity"
| "num_add a Infinity = Infinity"
| "num_add NegInfinity b = NegInfinity"
| "num_add a NegInfinity = NegInfinity"

fun num_times :: "jsnum \<Rightarrow> rat \<Rightarrow> jsnum" where
  "num_times (Fin x) c = to_num (x * c)"
| "num_times x c = x"

fun num_over :: "jsnum \<Rightarrow> rat \<Rightarrow> jsnum" where
  "num_over (Fin x) c = to_num (x / c)"
| "num_over x c = x"

text \<open>\<open>a + b\<close> on values: it joins texts when one of them is a text, an array or an object.\<close>

fun joins :: "jsval \<Rightarrow> bool" where
  "joins (Str _) = True"
| "joins (Arr _) = True"
| "joins (Obj _) = True"
| "joins _ = False"

definition js_add :: "jsval \<Rightarrow> jsval \<Rightarrow> jsval" where
  "js_add a b =
     (if joins a \<or> joins b then Str (to_text a @ to_text b) else Num (num_add (to_numeric a) (to_numeric b)))"

text \<open>\<open>a === b\<close> for two values out of one JSON reply: objects and arrays are equal only to themselves,
  and no two fields of a reply hold the same one.\<close>

fun strictly_equal :: "jsval \<Rightarrow> jsval \<Rightarrow> bool" where
  "strictly_equal Undefined Undefined = True"
| "strictly_equal Null Null = True"
| "strictly_equal (JBool a) (JBool b) = (a = b)"
| "strictly_equal (Num x) (Num y) = (x = y \<and> x \<noteq> NaN)"
| "strictly_equal (Str s) (Str t) = (s = t)"
| "strictly_equal _ _ = False"

text \<open>\<open>Math.round(x)\<close> and \<open>x.toFixed(f)\<close>, which prints large numbers as \<open>String(x)\<close> does.\<close>

fun num_round :: "jsnum \<Rightarrow> jsnum" where
  "num_round (Fin x) = Fin (of_int (math_round x))"
| "num_round x = x"

definition num_fixed :: "nat \<Rightarrow> jsnum \<Rightarrow> jsstring" where
  "num_fixed f x =
     (case x of
        Fin r \<Rightarrow> if 10 ^ 21 \<le> \<bar>r\<bar> then num_text r else to_fixed f r
      | _ \<Rightarrow> jsnum_text x)"

text \<open>\<open>v.k || 0\<close> for a value that is not nullish.\<close>

definition or_zero :: "jsval \<Rightarrow> string \<Rightarrow> jsval" where
  "or_zero v k = js_or (own v (js k)) (Num (Fin 0))"

lemma num_le_refl [simp]: "num_le x x \<longleftrightarrow> x \<noteq> NaN"
  by (cases x) simp_all

lemma num_le_trans: "num_le a b \<Longrightarrow> num_le b c \<Longrightarrow> num_le a c"
  by (cases a; cases b; cases c) auto

lemma js_min_mono: "num_le a b \<Longrightarrow> c \<noteq> NaN \<Longrightarrow> num_le (js_min c a) (js_min c b)"
  by (cases a; cases b; cases c) (auto simp: js_min_def)

lemma js_max_mono: "num_le a b \<Longrightarrow> c \<noteq> NaN \<Longrightarrow> num_le (js_max c a) (js_max c b)"
  by (cases a; cases b; cases c) (auto simp: js_max_def)

lemma to_num_small:
  assumes "0 \<le> q" "q \<le> of_nat n" "n \<le> 2 ^ 53"
  shows "to_num q = Fin (rnd q)"
proof -
  have "rnd q \<le> of_nat n" by (rule rnd_le_of_nat [OF assms(2,3)])
  also have "(of_nat n :: rat) \<le> of_nat (2 ^ 53)" using assms(3) by (simp only: of_nat_le_iff)
  also have "\<dots> = pow2 53" by (simp add: pow2_def)
  also have "\<dots> < pow2 1024" by (simp add: pow2_less_iff)
  finally have "rnd q < pow2 1024" .
  moreover have "- pow2 1024 < rnd q" by (rule less_le_trans [of _ 0]) (use assms(1) in simp_all)
  ultimately show ?thesis by (simp add: to_num_def)
qed

section \<open>JSON strings\<close>

text \<open>\<open>JSON.stringify\<close> of a string: the short escapes, \<open>\uXXXX\<close> for the other control codes
  and for unpaired surrogates, every other code unit as it is.\<close>

definition hex_digit :: "nat \<Rightarrow> code_unit" where
  "hex_digit d = (if d < 10 then of_nat (48 + d) else of_nat (87 + d))"

definition u_escape :: "code_unit \<Rightarrow> jsstring" where
  "u_escape c =
     (let n = unat c in
      js [CHR 0x5C, CHR ''u''] @ map hex_digit [n div 4096, n div 256 mod 16, n div 16 mod 16, n mod 16])"

definition high_surrogate :: "code_unit \<Rightarrow> bool" where
  "high_surrogate c \<longleftrightarrow> 0xD800 \<le> c \<and> c \<le> 0xDBFF"

definition low_surrogate :: "code_unit \<Rightarrow> bool" where
  "low_surrogate c \<longleftrightarrow> 0xDC00 \<le> c \<and> c \<le> 0xDFFF"

definition esc_unit :: "code_unit \<Rightarrow> jsstring" where
  "esc_unit c =
     (if c = 8 then [0x5C, 98] else if c = 9 then [0x5C, 116] else if c = 10 then [0x5C, 110]
      else if c = 12 then [0x5C, 102] else if c = 13 then [0x5C, 114]
      else if c = 34 then [0x5C, 34] else if c = 0x5C then [0x5C, 0x5C]
      else if c < 32 \<or> high_surrogate c \<or> low_surrogate c then u_escape c else [c])"

fun quote_body :: "jsstring \<Rightarrow> jsstring" where
  "quote_body [] = []"
| "quote_body [c] = esc_unit c"
| "quote_body (c # d # s) =
     (if high_surrogate c \<and> low_surrogate d then c # d # quote_body s
      else esc_unit c @ quote_body (d # s))"

definition json_quote :: "jsstring \<Rightarrow> jsstring" where
  "json_quote s = [34] @ quote_body s @ [34]"

text \<open>The reader of a JSON string body: it stops after the closing quote and returns the rest;
  \<open>None\<close> is a syntax error.\<close>

definition unescape_short :: "code_unit \<Rightarrow> code_unit option" where
  "unescape_short c =
     (if c = 98 then Some 8 else if c = 116 then Some 9 else if c = 110 then Some 10
      else if c = 102 then Some 12 else if c = 114 then Some 13 else if c = 34 then Some 34
      else if c = 0x5C then Some 0x5C else if c = 47 then Some 47 else None)"

definition unhex4 :: "code_unit \<Rightarrow> code_unit \<Rightarrow> code_unit \<Rightarrow> code_unit \<Rightarrow> code_unit option" where
  "unhex4 a b c d =
     (if digit_of a < 16 \<and> digit_of b < 16 \<and> digit_of c < 16 \<and> digit_of d < 16
      then Some (of_nat (digit_of a * 4096 + digit_of b * 256 + digit_of c * 16 + digit_of d))
      else None)"

definition cons_read :: "code_unit \<Rightarrow> (jsstring \<times> jsstring) option \<Rightarrow> (jsstring \<times> jsstring) option" where
  "cons_read c r = map_option (\<lambda>(s, rest). (c # s, rest)) r"

fun unquote_body :: "jsstring \<Rightarrow> (jsstring \<times> jsstring) option" where
  "unquote_body [] = None"
| "unquote_body (c # s) =
     (if c = 34 then Some ([], s)
      else if c < 32 then None
      else if c = 0x5C then
        (case s of
           [] \<Rightarrow> None
         | e # t \<Rightarrow>
             if e = 117 then
               (case t of
                  h1 # h2 # h3 # h4 # t' \<Rightarrow>
                    (case unhex4 h1 h2 h3 h4 of
                       None \<Rightarrow> None | Some u \<Rightarrow> cons_read u (unquote_body t'))
                | _ \<Rightarrow> None)
             else (case unescape_short e of
                     None \<Rightarrow> None | Some u \<Rightarrow> cons_read u (unquote_body t)))
      else cons_read c (unquote_body s))"

definition json_unquote :: "jsstring \<Rightarrow> (jsstring \<times> jsstring) option" where
  "json_unquote s = (case s of c # t \<Rightarrow> if c = 34 then unquote_body t else None | [] \<Rightarrow> None)"

lemma hex_digit_of: "d < 16 \<Longrightarrow> digit_of (hex_digit d) = d"
proof -
  assume d: "d < 16"
  then have "unat (of_nat (48 + d) :: code_unit) = 48 + d" "unat (of_nat (87 + d) :: code_unit) = 87 + d"
    by (simp_all add: unat_of_nat del: of_nat_add)
  with d show ?thesis by (auto simp: hex_digit_def digit_of_def Let_def simp del: of_nat_add)
qed

lemma base16_sum:
  "q * 16 + a = n \<Longrightarrow> r * 16 + b = q \<Longrightarrow> t * 16 + c = r
     \<Longrightarrow> t * 4096 + c * 256 + b * 16 + a = (n :: nat)"
  by simp

lemma hex4_digits:
  "n div 4096 * 4096 + n div 256 mod 16 * 256 + n div 16 mod 16 * 16 + n mod 16 = (n :: nat)"
proof (rule base16_sum)
  have e: "n div 256 = n div 16 div 16" "n div 4096 = n div 16 div 16 div 16"
    by (simp_all flip: div_mult2_eq)
  show "n div 16 * 16 + n mod 16 = n" by (rule div_mult_mod_eq)
  show "n div 256 * 16 + n div 16 mod 16 = n div 16" unfolding e by (rule div_mult_mod_eq)
  show "n div 4096 * 16 + n div 256 mod 16 = n div 256" unfolding e by (rule div_mult_mod_eq)
qed

lemma unhex4_u_escape:
  "unhex4 (hex_digit (unat c div 4096)) (hex_digit (unat c div 256 mod 16))
     (hex_digit (unat c div 16 mod 16)) (hex_digit (unat c mod 16)) = Some c"
proof -
  have "unat c < 2 ^ 16" using unsigned_less [of c] by simp
  then have d: "unat c div 4096 < 16" by simp
  have "unat c div 4096 * 4096 + unat c div 256 mod 16 * 256 + unat c div 16 mod 16 * 16
      + unat c mod 16 = unat c"
    by (rule hex4_digits)
  moreover have "unat c div 256 mod 16 < 16" "unat c div 16 mod 16 < 16" "unat c mod 16 < 16"
    by simp_all
  ultimately show ?thesis
    unfolding unhex4_def by (simp only: hex_digit_of d simp_thms if_True) simp
qed

lemma unquote_short:
  "e \<noteq> 117 \<Longrightarrow> unescape_short e = Some u \<Longrightarrow>
     unquote_body (0x5C # e # s) = cons_read u (unquote_body s)"
  by simp

lemma unquote_esc_unit:
  "unquote_body (esc_unit c @ s) = cons_read c (unquote_body s)"
proof -
  consider "c \<in> {8, 9, 10, 12, 13, 34, 0x5C}"
    | "c \<notin> {8, 9, 10, 12, 13, 34, 0x5C}" "c < 32 \<or> high_surrogate c \<or> low_surrogate c"
    | "c \<notin> {8, 9, 10, 12, 13, 34, 0x5C}" "\<not> (c < 32 \<or> high_surrogate c \<or> low_surrogate c)"
    by blast
  then show ?thesis
  proof cases
    case 1
    then show ?thesis
      by (elim insertE emptyE)
        (simp_all add: esc_unit_def unescape_short_def unquote_short del: unquote_body.simps)
  next
    case 2
    then have "esc_unit c = u_escape c" by (simp add: esc_unit_def)
    then show ?thesis by (simp add: u_escape_def Let_def js_def unhex4_u_escape)
  next
    case 3
    then show ?thesis by (simp add: esc_unit_def)
  qed
qed

lemma surrogate_not_special:
  "high_surrogate c \<or> low_surrogate c \<Longrightarrow> c \<noteq> 34 \<and> c \<noteq> 0x5C \<and> \<not> c < 32"
proof -
  assume "high_surrogate c \<or> low_surrogate c"
  then have "0xD800 \<le> c"
    by (auto simp: high_surrogate_def low_surrogate_def intro: order_trans [of _ "0xDC00"])
  moreover have "(0x5C :: code_unit) < 0xD800" by simp
  ultimately have lt: "0x5C < c" by (rule less_le_trans [rotated])
  have "34 < c" by (rule less_trans [OF _ lt]) simp
  moreover have "32 < c" by (rule less_trans [OF _ lt]) simp
  ultimately show ?thesis using lt by (auto dest: less_asym)
qed

lemma unquote_quote_body:
  "unquote_body (quote_body s @ [34] @ rest) = Some (s, rest)"
proof (induction s rule: quote_body.induct)
  case (3 c d s)
  show ?case
  proof (cases "high_surrogate c \<and> low_surrogate d")
    case True
    then have "c \<noteq> 34 \<and> c \<noteq> 0x5C \<and> \<not> c < 32" "d \<noteq> 34 \<and> d \<noteq> 0x5C \<and> \<not> d < 32"
      using surrogate_not_special by blast+
    with True 3 show ?thesis by (simp add: cons_read_def)
  next
    case False
    then have "quote_body (c # d # s) = esc_unit c @ quote_body (d # s)" by auto
    with 3 False show ?thesis by (simp only: append_assoc unquote_esc_unit) (simp add: cons_read_def)
  qed
next
  case (2 c)
  have "unquote_body (esc_unit c @ ([34] @ rest)) = cons_read c (unquote_body ([34] @ rest))"
    by (rule unquote_esc_unit)
  then show ?case by (simp add: cons_read_def)
qed simp

lemma json_unquote_quote: "json_unquote (json_quote s @ rest) = Some (s, rest)"
  using unquote_quote_body [of s rest] by (simp add: json_quote_def json_unquote_def)

end
