(* ===== verification/Dom.thy ===== *)
theory Dom
  imports JsValue
begin

text \<open>
  The browser as the scripts see it: elements found by id, the attributes of the root
  element, \<open>localStorage\<close>, the focused element, timers, and the requests sent.  The state
  is the record \<open>page\<close>; the components extend it with the elements they find by class and
  with the script's own variables, so their operations run on one shared page.  Three
  interfaces are stated as locales and interpreted on the page here: the store of elements
  by id, the key-value storage, and the timers.
\<close>

named_theorems page_defs "the DOM operations, unfolded in component proofs"

section \<open>Elements\<close>

record elem =
  el_text :: jsstring
  el_classes :: "jsstring set"
  el_attrs :: "jsstring \<Rightarrow> jsstring option"
  el_value :: jsstring
  el_checked :: bool
  el_hidden :: bool
  el_disabled :: bool
  el_inert :: bool

definition blank :: elem where
  "blank = \<lparr>el_text = [], el_classes = {}, el_attrs = (\<lambda>_. None), el_value = [],
     el_checked = False, el_hidden = False, el_disabled = False, el_inert = False\<rparr>"

text \<open>\<open>el.setAttribute(n, v)\<close>; \<open>el.dataset.x = v\<close> is the attribute \<open>data-x\<close>, and
  \<open>el.title = v\<close> the attribute \<open>title\<close>.\<close>

definition set_attr :: "jsstring \<Rightarrow> jsstring \<Rightarrow> elem \<Rightarrow> elem" where
  [page_defs]: "set_attr n v e = e\<lparr>el_attrs := (el_attrs e)(n \<mapsto> v)\<rparr>"

definition set_text :: "jsstring \<Rightarrow> elem \<Rightarrow> elem" where
  [page_defs]: "set_text t e = e\<lparr>el_text := t\<rparr>"

definition set_value :: "jsstring \<Rightarrow> elem \<Rightarrow> elem" where
  [page_defs]: "set_value t e = e\<lparr>el_value := t\<rparr>"

definition set_hidden :: "bool \<Rightarrow> elem \<Rightarrow> elem" where
  [page_defs]: "set_hidden b e = e\<lparr>el_hidden := b\<rparr>"

definition set_disabled :: "bool \<Rightarrow> elem \<Rightarrow> elem" where
  [page_defs]: "set_disabled b e = e\<lparr>el_disabled := b\<rparr>"

definition set_checked :: "bool \<Rightarrow> elem \<Rightarrow> elem" where
  [page_defs]: "set_checked b e = e\<lparr>el_checked := b\<rparr>"

definition set_inert :: "bool \<Rightarrow> elem \<Rightarrow> elem" where
  [page_defs]: "set_inert b e = e\<lparr>el_inert := b\<rparr>"

text \<open>\<open>classList.add\<close>, \<open>classList.remove\<close> and \<open>classList.toggle(c, force)\<close>.\<close>

definition class_add :: "jsstring \<Rightarrow> elem \<Rightarrow> elem" where
  [page_defs]: "class_add c e = e\<lparr>el_classes := insert c (el_classes e)\<rparr>"

definition class_remove :: "jsstring \<Rightarrow> elem \<Rightarrow> elem" where
  [page_defs]: "class_remove c e = e\<lparr>el_classes := el_classes e - {c}\<rparr>"

definition class_toggle :: "jsstring \<Rightarrow> bool \<Rightarrow> elem \<Rightarrow> elem" where
  [page_defs]: "class_toggle c b e = (if b then class_add c e else class_remove c e)"

definition has_class :: "jsstring \<Rightarrow> elem \<Rightarrow> bool" where
  [page_defs]: "has_class c e \<longleftrightarrow> c \<in> el_classes e"

definition js_bool :: "bool \<Rightarrow> jsstring" where
  [page_defs]: "js_bool b = (if b then js ''true'' else js ''false'')"

lemma js_bool_eq_iff [simp]: "js_bool a = js_bool b \<longleftrightarrow> a = b"
  by (simp add: js_bool_def)

lemma js_bool_true_iff [simp]: "js_bool b = js ''true'' \<longleftrightarrow> b"
  by (simp add: js_bool_def)

section \<open>The page\<close>

text \<open>Elements that can take the focus: one with an id, or the k-th match of a selector, or a
  node known only by its identity (the control that opened a dialog).\<close>

datatype focus_ref = ById jsstring | Nth jsstring nat | Node nat

datatype callback =
    HideToast
  | PollModels
  | RelayoutPanels
  | ResetCopyHint nat
  | RecordTick nat
  | RevealAll
  | UpdateClock

text \<open>Requests leave the page in three ways: \<open>htmx.ajax\<close> with its target, swap style and form
  values, \<open>fetch\<close> with its headers and a text as body, and \<open>fetch\<close> with recorded audio as body,
  given by its chunks.\<close>

datatype request =
    Ajax jsstring jsstring jsstring jsstring "(jsstring \<times> jsstring list) list"
  | Fetch jsstring jsstring "(jsstring \<times> jsstring) list" "jsstring option"
  | Upload jsstring jsstring "(jsstring \<times> jsstring) list" "nat list"

record page =
  els :: "jsstring \<Rightarrow> elem option"
  doc_el :: elem
  store :: "jsstring \<Rightarrow> jsstring option"
  store_blocked :: bool
  focused :: "focus_ref option"
  sent :: "request list"
  timers :: "nat \<Rightarrow> (callback \<times> nat) option"
  next_timer :: nat

definition get_el :: "('a page_scheme) \<Rightarrow> jsstring \<Rightarrow> elem option" where
  [page_defs]: "get_el p i = els p i"

definition upd_el :: "jsstring \<Rightarrow> (elem \<Rightarrow> elem) \<Rightarrow> 'a page_scheme \<Rightarrow> 'a page_scheme" where
  [page_defs]: "upd_el i f p = p\<lparr>els := (els p)(i := map_option f (els p i))\<rparr>"

text \<open>\<open>localStorage\<close>.  Access can be denied by the browser (\<open>store_blocked\<close>), which throws;
  the functions of the source that guard against it test the flag.\<close>

definition get_item :: "'a page_scheme \<Rightarrow> jsstring \<Rightarrow> jsstring option" where
  [page_defs]: "get_item p k = store p k"

definition set_item :: "jsstring \<Rightarrow> jsstring \<Rightarrow> 'a page_scheme \<Rightarrow> 'a page_scheme" where
  [page_defs]: "set_item k v p = p\<lparr>store := (store p)(k \<mapsto> v)\<rparr>"

definition remove_item :: "jsstring \<Rightarrow> 'a page_scheme \<Rightarrow> 'a page_scheme" where
  [page_defs]: "remove_item k p = p\<lparr>store := (store p)(k := None)\<rparr>"

definition set_focus :: "focus_ref \<Rightarrow> 'a page_scheme \<Rightarrow> 'a page_scheme" where
  [page_defs]: "set_focus r p = p\<lparr>focused := Some r\<rparr>"

definition send :: "request \<Rightarrow> 'a page_scheme \<Rightarrow> 'a page_scheme" where
  [page_defs]: "send r p = p\<lparr>sent := sent p @ [r]\<rparr>"

text \<open>\<open>setTimeout\<close> and \<open>setInterval\<close> return a fresh handle; \<open>clearTimeout\<close> of a handle that is
  not pending (or of \<open>null\<close> or \<open>undefined\<close>) does nothing.\<close>

definition start_timer :: "callback \<times> nat \<Rightarrow> 'a page_scheme \<Rightarrow> 'a page_scheme \<times> nat" where
  [page_defs]: "start_timer c p =
     (p\<lparr>timers := (timers p)(next_timer p \<mapsto> c), next_timer := Suc (next_timer p)\<rparr>, next_timer p)"

definition stop_timer :: "nat option \<Rightarrow> 'a page_scheme \<Rightarrow> 'a page_scheme" where
  [page_defs]: "stop_timer ho p =
     (case ho of None \<Rightarrow> p | Some h \<Rightarrow> p\<lparr>timers := (timers p)(h := None)\<rparr>)"

definition timers_ok :: "'a page_scheme \<Rightarrow> bool" where
  "timers_ok p \<longleftrightarrow> (\<forall>h. timers p h \<noteq> None \<longrightarrow> h < next_timer p)"

section \<open>Interfaces\<close>

subsection \<open>Elements by id\<close>

locale element_store =
  fixes look :: "'s \<Rightarrow> 'i \<Rightarrow> 'e option"
    and change :: "'i \<Rightarrow> ('e \<Rightarrow> 'e) \<Rightarrow> 's \<Rightarrow> 's"
  assumes look_change: "look (change i f s) j = (if j = i then map_option f (look s j) else look s j)"
begin

lemma look_change_same [simp]: "look (change i f s) i = map_option f (look s i)"
  by (simp add: look_change)

lemma look_change_other [simp]: "j \<noteq> i \<Longrightarrow> look (change i f s) j = look s j"
  by (simp add: look_change)

lemma look_change_present: "look (change i f s) j \<noteq> None \<longleftrightarrow> look s j \<noteq> None"
  by (simp add: look_change)

text \<open>Changes of different elements commute, as far as lookups can tell.\<close>

lemma look_change_commute:
  "i \<noteq> j \<Longrightarrow> look (change i f (change j g s)) k = look (change j g (change i f s)) k"
  by (simp add: look_change)

lemma look_change_absorb: "look (change i f (change i g s)) k = look (change i (f \<circ> g) s) k"
  by (simp add: look_change option.map_comp)

end

interpretation el: element_store get_el upd_el
  by unfold_locales (simp add: get_el_def upd_el_def)

subsection \<open>Key-value storage\<close>

locale key_store =
  fixes get :: "'s \<Rightarrow> 'k \<Rightarrow> 'v option"
    and put :: "'k \<Rightarrow> 'v \<Rightarrow> 's \<Rightarrow> 's"
    and del :: "'k \<Rightarrow> 's \<Rightarrow> 's"
  assumes get_put: "get (put k v s) j = (if j = k then Some v else get s j)"
    and get_del: "get (del k s) j = (if j = k then None else get s j)"
begin

lemma get_put_same [simp]: "get (put k v s) k = Some v"
  by (simp add: get_put)

lemma get_put_other [simp]: "j \<noteq> k \<Longrightarrow> get (put k v s) j = get s j"
  by (simp add: get_put)

lemma get_del_same [simp]: "get (del k s) k = None"
  by (simp add: get_del)

lemma get_del_other [simp]: "j \<noteq> k \<Longrightarrow> get (del k s) j = get s j"
  by (simp add: get_del)

lemma last_put_wins: "get (put k v (put k w s)) j = get (put k v s) j"
  by (simp add: get_put)

lemma get_del_put: "get (del k (put k v s)) j = get (del k s) j"
  by (simp add: get_put get_del)

end

interpretation ls: key_store get_item set_item remove_item
  by unfold_locales (simp_all add: get_item_def set_item_def remove_item_def)

subsection \<open>Timers\<close>

text \<open>A slot is a variable that holds the handle of the one timer of its class: \<open>slot_ok\<close> says
  that no timer of the class is pending outside the slot.\<close>

definition slot_ok :: "(nat \<Rightarrow> 'c option) \<Rightarrow> ('c \<Rightarrow> bool) \<Rightarrow> nat option \<Rightarrow> bool" where
  "slot_ok pend cls ho \<longleftrightarrow> (\<forall>h c. pend h = Some c \<and> cls c \<longrightarrow> ho = Some h)"

locale timer_service =
  fixes pending :: "'s \<Rightarrow> nat \<Rightarrow> 'c option"
    and start :: "'c \<Rightarrow> 's \<Rightarrow> 's \<times> nat"
    and stop :: "nat option \<Rightarrow> 's \<Rightarrow> 's"
    and ok :: "'s \<Rightarrow> bool"
  assumes start_pending: "start c s = (s', h) \<Longrightarrow> pending s' = (pending s)(h \<mapsto> c)"
    and start_fresh: "ok s \<Longrightarrow> start c s = (s', h) \<Longrightarrow> pending s h = None"
    and stop_pending: "pending (stop ho s) =
      (case ho of None \<Rightarrow> pending s | Some h \<Rightarrow> (pending s)(h := None))"
    and ok_start: "ok s \<Longrightarrow> start c s = (s', h) \<Longrightarrow> ok s'"
    and ok_stop: "ok s \<Longrightarrow> ok (stop ho s)"
begin

lemma slot_stop_empty: "slot_ok (pending s) cls ho \<Longrightarrow> slot_ok (pending (stop ho s)) cls None"
  by (auto simp: slot_ok_def stop_pending split: option.splits if_splits)

text \<open>The pattern every timer variable of the scripts follows: clear the slot, start the timer,
  store the handle.  At most one timer of the class is pending before and after.\<close>

lemma slot_restart:
  assumes "slot_ok (pending s) cls ho" "start c (stop ho s) = (s', h)"
  shows "slot_ok (pending s') cls (Some h) \<and> pending s' h = Some c"
proof -
  have "slot_ok (pending (stop ho s)) cls None" using assms(1) by (rule slot_stop_empty)
  then show ?thesis using start_pending [OF assms(2)] by (auto simp: slot_ok_def split: if_splits)
qed

lemma slot_start_other:
  assumes "slot_ok (pending s) cls ho" "\<not> cls c" "start c s = (s', h)" "ok s"
  shows "slot_ok (pending s') cls ho"
  using assms(1,2) start_pending [OF assms(3)] start_fresh [OF assms(4,3)]
  by (auto simp: slot_ok_def split: if_splits)

lemma slot_stop_other: "slot_ok (pending s) cls ho \<Longrightarrow> slot_ok (pending (stop ho' s)) cls ho"
  by (auto simp: slot_ok_def stop_pending split: option.splits if_splits)

lemma slot_unique:
  "slot_ok (pending s) cls ho \<Longrightarrow> pending s h = Some c \<Longrightarrow> cls c \<Longrightarrow>
   pending s h' = Some c' \<Longrightarrow> cls c' \<Longrightarrow> h = h'"
  unfolding slot_ok_def by (metis option.inject)

end

lemma timers_ok_fresh: "timers_ok p \<Longrightarrow> timers p (next_timer p) = None"
  unfolding timers_ok_def by (metis less_irrefl)

lemma timers_ok_start: "timers_ok p \<Longrightarrow> start_timer c p = (p', h) \<Longrightarrow> timers_ok p'"
  unfolding timers_ok_def start_timer_def by (force intro: less_SucI)

lemma timers_ok_stop: "timers_ok p \<Longrightarrow> timers_ok (stop_timer ho p)"
  by (simp add: timers_ok_def stop_timer_def split: option.split)

interpretation tm: timer_service timers start_timer stop_timer timers_ok
  by unfold_locales
    (auto simp: timers_ok_start timers_ok_stop, auto simp: start_timer_def stop_timer_def
      timers_ok_fresh split: option.splits)

text \<open>\<open>clearTimeout(slot); slot = setTimeout(f, delay)\<close>: the new page and the new handle.\<close>

definition restart_timer ::
    "nat option \<Rightarrow> callback \<times> nat \<Rightarrow> 'a page_scheme \<Rightarrow> 'a page_scheme \<times> nat" where
  "restart_timer ho c p = start_timer c (stop_timer ho p)"

lemmas restart_slot = tm.slot_restart [folded restart_timer_def]

lemma restart_timer_eq:
  "restart_timer ho c p =
     (p\<lparr>timers := (timers (stop_timer ho p))(next_timer p \<mapsto> c), next_timer := Suc (next_timer p)\<rparr>,
      next_timer p)"
  by (simp add: restart_timer_def start_timer_def stop_timer_def split: option.split)

lemma timers_ok_restart: "timers_ok p \<Longrightarrow> restart_timer ho c p = (p', h) \<Longrightarrow> timers_ok p'"
  unfolding restart_timer_def by (rule timers_ok_start [OF timers_ok_stop])

section \<open>Frame rules\<close>

text \<open>What the operations leave alone, as simplification rules shared by the components.\<close>

lemma upd_el_frame [simp]:
  "doc_el (upd_el i f p) = doc_el p" "store (upd_el i f p) = store p"
  "store_blocked (upd_el i f p) = store_blocked p" "focused (upd_el i f p) = focused p"
  "sent (upd_el i f p) = sent p" "timers (upd_el i f p) = timers p"
  "next_timer (upd_el i f p) = next_timer p" "page.more (upd_el i f p) = page.more p"
  by (simp_all add: upd_el_def)

lemma set_item_frame [simp]:
  "doc_el (set_item k v p) = doc_el p" "els (set_item k v p) = els p"
  "store_blocked (set_item k v p) = store_blocked p" "focused (set_item k v p) = focused p"
  "sent (set_item k v p) = sent p" "timers (set_item k v p) = timers p"
  "next_timer (set_item k v p) = next_timer p" "page.more (set_item k v p) = page.more p"
  by (simp_all add: set_item_def)

lemma remove_item_frame [simp]:
  "doc_el (remove_item k p) = doc_el p" "els (remove_item k p) = els p"
  "store_blocked (remove_item k p) = store_blocked p" "focused (remove_item k p) = focused p"
  "sent (remove_item k p) = sent p" "timers (remove_item k p) = timers p"
  "next_timer (remove_item k p) = next_timer p" "page.more (remove_item k p) = page.more p"
  by (simp_all add: remove_item_def)

lemma set_focus_frame [simp]:
  "doc_el (set_focus r p) = doc_el p" "els (set_focus r p) = els p"
  "store_blocked (set_focus r p) = store_blocked p" "store (set_focus r p) = store p"
  "sent (set_focus r p) = sent p" "timers (set_focus r p) = timers p"
  "next_timer (set_focus r p) = next_timer p" "page.more (set_focus r p) = page.more p"
  "focused (set_focus r p) = Some r"
  by (simp_all add: set_focus_def)

lemma send_frame [simp]:
  "doc_el (send r p) = doc_el p" "els (send r p) = els p"
  "store_blocked (send r p) = store_blocked p" "store (send r p) = store p"
  "focused (send r p) = focused p" "timers (send r p) = timers p"
  "next_timer (send r p) = next_timer p" "page.more (send r p) = page.more p"
  "sent (send r p) = sent p @ [r]"
  by (simp_all add: send_def)

lemma stop_timer_frame [simp]:
  "doc_el (stop_timer h p) = doc_el p" "els (stop_timer h p) = els p"
  "store_blocked (stop_timer h p) = store_blocked p" "store (stop_timer h p) = store p"
  "focused (stop_timer h p) = focused p" "sent (stop_timer h p) = sent p"
  "next_timer (stop_timer h p) = next_timer p" "page.more (stop_timer h p) = page.more p"
  by (simp_all add: stop_timer_def split: option.split)

text \<open>Lookups through the script's DOM operations.\<close>

lemma get_el_frame [simp]:
  "get_el (set_item k v p) i = get_el p i" "get_el (remove_item k p) i = get_el p i"
  "get_el (set_focus r p) i = get_el p i" "get_el (send q p) i = get_el p i"
  "get_el (stop_timer h p) i = get_el p i"
  by (simp_all add: get_el_def)

lemma get_item_frame [simp]:
  "get_item (upd_el i f p) k = get_item p k" "get_item (set_focus r p) k = get_item p k"
  "get_item (send q p) k = get_item p k" "get_item (stop_timer h p) k = get_item p k"
  by (simp_all add: get_item_def)

lemma timers_ok_frame [simp]:
  "timers_ok (upd_el i f p) = timers_ok p" "timers_ok (set_item k v p) = timers_ok p"
  "timers_ok (remove_item k p) = timers_ok p" "timers_ok (set_focus r p) = timers_ok p"
  "timers_ok (send q p) = timers_ok p"
  by (simp_all add: timers_ok_def)

end
