(* ===== verification/Theme.thy ===== *)
theory Theme
  imports Dom
begin

text \<open>
  The theme switch of \<open>app/webui/app.js\<close> (\<open>readThemePreference\<close> to \<open>initTheme\<close>) and the boot
  script \<open>app/webui/theme-boot.js\<close>, which does the same work before the body is painted.
  \<open>dark\<close> is what \<open>matchMedia("(prefers-color-scheme: dark)").matches\<close> answers.  Proved: in
  every run of clicks and system changes the page shows the stored preference, the boot
  script and the main script agree, and the toggle cycles through the three preferences.
\<close>

section \<open>Operations\<close>

definition THEME_KEY :: jsstring where
  [page_defs]: "THEME_KEY = js ''vocagateway.theme''"

record theme_page = page +
  toggle_bound :: bool
  media_bound :: bool

definition upd_doc :: "(elem \<Rightarrow> elem) \<Rightarrow> 'a page_scheme \<Rightarrow> 'a page_scheme" where
  [page_defs]: "upd_doc f p = p\<lparr>doc_el := f (doc_el p)\<rparr>"

definition readThemePreference :: "'a page_scheme \<Rightarrow> jsstring" where
  "readThemePreference p =
     (case get_item p THEME_KEY of
        Some pref \<Rightarrow>
          if pref = js ''light'' \<or> pref = js ''dark'' \<or> pref = js ''system'' then pref
          else js ''system''
      | None \<Rightarrow> js ''system'')"

definition resolveTheme :: "bool \<Rightarrow> jsstring \<Rightarrow> jsstring" where
  "resolveTheme dark preference =
     (if preference = js ''light'' \<or> preference = js ''dark'' then preference
      else if dark then js ''dark'' else js ''light'')"

definition themeLabel :: "jsstring \<Rightarrow> jsstring \<Rightarrow> jsstring" where
  "themeLabel preference resolved =
     (if preference = js ''system''
      then js ''Theme: system ('' @ resolved @ js ''). Click for light.''
      else if preference = js ''light'' then js ''Theme: light. Click for dark.''
      else js ''Theme: dark. Click for system.'')"

definition favicon_href :: "jsstring \<Rightarrow> jsstring" where
  "favicon_href resolved =
     (if resolved = js ''dark'' then js ''/assets/favicon-dark.svg''
      else js ''/assets/favicon-light.svg'')"

definition setFavicon :: "jsstring \<Rightarrow> 'a page_scheme \<Rightarrow> 'a page_scheme" where
  "setFavicon resolved p =
     (let href = favicon_href resolved;
          p1 = upd_el (js ''favicon'') (set_attr (js ''href'') href) p
      in upd_el (js ''apple-touch-icon'') (set_attr (js ''href'') href) p1)"

definition meta_color :: "jsstring \<Rightarrow> jsstring" where
  "meta_color resolved = (if resolved = js ''dark'' then js ''#141614'' else js ''#f7f6f3'')"

definition applyTheme :: "bool \<Rightarrow> jsstring \<Rightarrow> 'a page_scheme \<Rightarrow> 'a page_scheme" where
  "applyTheme dark preference p =
     (let resolved = resolveTheme dark preference;
          p1 = upd_doc (set_attr (js ''data-theme'') resolved) p;
          p2 = upd_doc (set_attr (js ''data-theme-preference'') preference) p1;
          p3 = upd_el (js ''meta-theme-color'') (set_attr (js ''content'') (meta_color resolved)) p2;
          p4 = setFavicon resolved p3;
          label = themeLabel preference resolved
      in upd_el (js ''theme-toggle'')
           (\<lambda>e. set_attr (js ''title'') label
              (set_attr (js ''aria-label'') label (set_attr (js ''data-preference'') preference e)))
           p4)"

definition cycleThemePreference :: "jsstring \<Rightarrow> jsstring" where
  "cycleThemePreference current =
     (if current = js ''system'' then js ''light''
      else if current = js ''light'' then js ''dark''
      else js ''system'')"

text \<open>The media query object offers \<open>addEventListener\<close>, only the older \<open>addListener\<close>, or
  neither; the first two register the listener.\<close>

datatype media_api = AddEventListener | AddListener | NoListenerApi

definition initTheme ::
    "bool \<Rightarrow> media_api \<Rightarrow> 'a theme_page_scheme \<Rightarrow> 'a theme_page_scheme" where
  "initTheme dark api p =
     (let p1 = applyTheme dark (readThemePreference p) p;
          p2 = p1\<lparr>toggle_bound := get_el p1 (js ''theme-toggle'') \<noteq> None\<rparr>
      in case api of
           AddEventListener \<Rightarrow> p2\<lparr>media_bound := True\<rparr>
         | AddListener \<Rightarrow> p2\<lparr>media_bound := True\<rparr>
         | NoListenerApi \<Rightarrow> p2)"

definition toggleClick :: "bool \<Rightarrow> 'a theme_page_scheme \<Rightarrow> 'a theme_page_scheme" where
  "toggleClick dark p =
     (if toggle_bound p
      then let nxt = cycleThemePreference (readThemePreference p)
           in applyTheme dark nxt (set_item THEME_KEY nxt p)
      else p)"

definition onSystemChange :: "bool \<Rightarrow> 'a theme_page_scheme \<Rightarrow> 'a theme_page_scheme" where
  "onSystemChange dark p =
     (if media_bound p
      then if readThemePreference p = js ''system'' then applyTheme dark (js ''system'') p else p
      else p)"

text \<open>The boot script; a denied \<open>localStorage\<close> throws at its first access, before any effect.\<close>

definition boot_favicon :: "jsstring \<Rightarrow> 'a page_scheme \<Rightarrow> 'a page_scheme" where
  "boot_favicon resolved p =
     (let href = (if resolved = js ''dark'' then js ''/assets/favicon-dark.svg''
                  else js ''/assets/favicon-light.svg'');
          p1 = upd_el (js ''favicon'') (set_attr (js ''href'') href) p
      in upd_el (js ''apple-touch-icon'') (set_attr (js ''href'') href) p1)"

definition theme_boot :: "bool \<Rightarrow> 'a page_scheme \<Rightarrow> 'a page_scheme" where
  "theme_boot systemDark p =
     (if store_blocked p
      then upd_doc (set_attr (js ''data-theme-preference'') (js ''system''))
             (upd_doc (set_attr (js ''data-theme'') (js ''light'')) p)
      else
        let stored = get_item p (js ''vocagateway.theme'');
            pref = (if stored \<noteq> Some (js ''light'') \<and> stored \<noteq> Some (js ''dark'')
                       \<and> stored \<noteq> Some (js ''system'')
                    then js ''system'' else the stored);
            resolved = (if pref = js ''light'' \<or> pref = js ''dark'' then pref
                        else if systemDark then js ''dark'' else js ''light'');
            p1 = upd_doc (set_attr (js ''data-theme'') resolved) p;
            p2 = upd_doc (set_attr (js ''data-theme-preference'') pref) p1;
            p3 = upd_el (js ''meta-theme-color'')
                   (set_attr (js ''content'')
                      (if resolved = js ''dark'' then js ''#141614'' else js ''#f7f6f3'')) p2
        in boot_favicon resolved p3)"

section \<open>What the page shows\<close>

definition attr_is :: "'a page_scheme \<Rightarrow> jsstring \<Rightarrow> jsstring \<Rightarrow> jsstring \<Rightarrow> bool" where
  "attr_is p i n v \<longleftrightarrow> (\<forall>e. get_el p i = Some e \<longrightarrow> el_attrs e n = Some v)"

text \<open>The page shows preference \<open>pref\<close> under system setting \<open>dark\<close>: the root attributes, the
  browser colour, both icons and the toggle's label all agree with it.\<close>

definition shows_theme :: "bool \<Rightarrow> jsstring \<Rightarrow> 'a page_scheme \<Rightarrow> bool" where
  "shows_theme dark pref p \<longleftrightarrow>
     el_attrs (doc_el p) (js ''data-theme'') = Some (resolveTheme dark pref) \<and>
     el_attrs (doc_el p) (js ''data-theme-preference'') = Some pref \<and>
     attr_is p (js ''meta-theme-color'') (js ''content'') (meta_color (resolveTheme dark pref)) \<and>
     attr_is p (js ''favicon'') (js ''href'') (favicon_href (resolveTheme dark pref)) \<and>
     attr_is p (js ''apple-touch-icon'') (js ''href'') (favicon_href (resolveTheme dark pref)) \<and>
     attr_is p (js ''theme-toggle'') (js ''data-preference'') pref \<and>
     attr_is p (js ''theme-toggle'') (js ''aria-label'') (themeLabel pref (resolveTheme dark pref)) \<and>
     attr_is p (js ''theme-toggle'') (js ''title'') (themeLabel pref (resolveTheme dark pref))"

definition is_preference :: "jsstring \<Rightarrow> bool" where
  "is_preference s \<longleftrightarrow> s = js ''light'' \<or> s = js ''dark'' \<or> s = js ''system''"

lemma readThemePreference_valid [simp]: "is_preference (readThemePreference p)"
  by (auto simp: readThemePreference_def is_preference_def split: option.split)

lemma readThemePreference_set_item:
  "is_preference s \<Longrightarrow> readThemePreference (set_item THEME_KEY s p) = s"
  by (auto simp: readThemePreference_def is_preference_def)

lemma cycle_valid [simp]: "is_preference (cycleThemePreference s)"
  by (simp add: cycleThemePreference_def is_preference_def)

lemma cycle_three: "is_preference s \<Longrightarrow>
    cycleThemePreference (cycleThemePreference (cycleThemePreference s)) = s"
  by (auto simp: cycleThemePreference_def is_preference_def)

lemma cycle_neq: "is_preference s \<Longrightarrow> cycleThemePreference s \<noteq> s"
  by (auto simp: cycleThemePreference_def is_preference_def)

lemma get_el_upd_doc [simp]: "get_el (upd_doc f p) i = get_el p i"
  by (simp add: get_el_def upd_doc_def)

lemma doc_el_upd_doc [simp]: "doc_el (upd_doc f p) = f (doc_el p)"
  by (simp add: upd_doc_def)

lemma store_applyTheme [simp]: "store (applyTheme dark pref p) = store p"
  by (simp add: applyTheme_def setFavicon_def Let_def upd_doc_def)

lemma readThemePreference_applyTheme [simp]:
  "readThemePreference (applyTheme dark pref p) = readThemePreference p"
  by (simp add: readThemePreference_def get_item_def)

lemma bound_applyTheme [simp]:
  "toggle_bound (applyTheme dark pref p) = toggle_bound p"
  "media_bound (applyTheme dark pref p) = media_bound p"
  by (simp_all add: applyTheme_def setFavicon_def Let_def upd_doc_def upd_el_def)

lemma bound_set_item [simp]:
  "toggle_bound (set_item k v p) = toggle_bound p" "media_bound (set_item k v p) = media_bound p"
  by (simp_all add: set_item_def)

lemma store_blocked_applyTheme [simp]: "store_blocked (applyTheme dark pref p) = store_blocked p"
  by (simp add: applyTheme_def setFavicon_def Let_def upd_doc_def)

lemma present_applyTheme:
  "get_el (applyTheme dark pref p) i \<noteq> None \<longleftrightarrow> get_el p i \<noteq> None"
  by (simp add: applyTheme_def setFavicon_def Let_def el.look_change)

lemma shows_theme_applyTheme: "shows_theme dark pref (applyTheme dark pref p)"
proof -
  have "el_attrs (doc_el (applyTheme dark pref p)) (js ''data-theme'') = Some (resolveTheme dark pref)"
    "el_attrs (doc_el (applyTheme dark pref p)) (js ''data-theme-preference'') = Some pref"
    by (simp_all add: applyTheme_def setFavicon_def Let_def set_attr_def)
  then show ?thesis
    by (auto simp: shows_theme_def attr_is_def applyTheme_def setFavicon_def Let_def set_attr_def
        el.look_change)
qed

section \<open>Runs\<close>

text \<open>A page as \<open>index.html\<close> delivers it, with nothing stored and no listener yet.\<close>

definition theme_start :: theme_page where
  "theme_start = \<lparr>els = (\<lambda>_. Some blank), doc_el = blank, store = (\<lambda>_. None),
     store_blocked = False, focused = None, sent = [], timers = (\<lambda>_. None), next_timer = 0,
     toggle_bound = False, media_bound = False\<rparr>"

datatype theme_event = ToggleClick | SystemChange bool

fun theme_step ::
    "bool \<times> 'a theme_page_scheme \<Rightarrow> theme_event \<Rightarrow> bool \<times> 'a theme_page_scheme" where
  "theme_step (dark, p) ToggleClick = (dark, toggleClick dark p)"
| "theme_step (dark, p) (SystemChange d) = (d, onSystemChange d p)"

definition theme_inv :: "bool \<times> 'a theme_page_scheme \<Rightarrow> bool" where
  "theme_inv s \<longleftrightarrow>
     (case s of (dark, p) \<Rightarrow> media_bound p \<and> shows_theme dark (readThemePreference p) p)"

lemma shows_theme_pinned:
  "shows_theme dark pref p \<Longrightarrow> is_preference pref \<Longrightarrow> pref \<noteq> js ''system'' \<Longrightarrow> shows_theme d pref p"
  by (auto simp: shows_theme_def is_preference_def resolveTheme_def)

lemma theme_step_inv: "theme_inv s \<Longrightarrow> theme_inv (theme_step s e)"
proof (induction s e rule: theme_step.induct)
  case (1 dark p)
  then show ?case
    by (auto simp: theme_inv_def toggleClick_def Let_def shows_theme_applyTheme
        readThemePreference_set_item)
next
  case (2 dark p d)
  then show ?case
    using shows_theme_pinned [of dark "readThemePreference p" p d]
    by (auto simp: theme_inv_def onSystemChange_def shows_theme_applyTheme)
qed

lemma theme_inv_init:
  "api \<noteq> NoListenerApi \<Longrightarrow> theme_inv (dark, initTheme dark api p)"
proof -
  assume api: "api \<noteq> NoListenerApi"
  let ?q = "applyTheme dark (readThemePreference p) p"
  have "shows_theme dark (readThemePreference p) ?q" by (rule shows_theme_applyTheme)
  then have "shows_theme dark (readThemePreference p) (?q\<lparr>toggle_bound := b, media_bound := True\<rparr>)" for b
    by (simp add: shows_theme_def attr_is_def get_el_def)
  moreover have "readThemePreference (?q\<lparr>toggle_bound := b, media_bound := True\<rparr>) = readThemePreference p" for b
    by (simp add: readThemePreference_def get_item_def)
  ultimately show ?thesis using api
    by (cases api) (simp_all add: theme_inv_def initTheme_def Let_def)
qed

text \<open>After the page has loaded, whatever the order of clicks on the toggle and changes of
  the system's colour scheme, the root attributes, the browser colour, both icons and the
  toggle's label show the preference that \<open>localStorage\<close> holds at that moment, resolved
  against the current system setting.\<close>

theorem theme_always_shown:
  assumes "api \<noteq> NoListenerApi"
    and "foldl theme_step (dark, initTheme dark api p) evs = (dark', p')"
  shows "shows_theme dark' (readThemePreference p') p'"
proof -
  have "theme_inv (foldl theme_step s evs)" if "theme_inv s" for s :: "bool \<times> 'a theme_page_scheme"
    using that by (induction evs arbitrary: s) (auto simp: theme_step_inv)
  from this [OF theme_inv_init [OF assms(1), of dark p]] show ?thesis
    unfolding assms(2) by (simp add: theme_inv_def)
qed


theorem theme_always_shown_witness:
  "shows_theme True
     (readThemePreference (snd (foldl theme_step (False, initTheme False AddListener theme_start)
       [ToggleClick, SystemChange True, ToggleClick])))
     (snd (foldl theme_step (False, initTheme False AddListener theme_start)
       [ToggleClick, SystemChange True, ToggleClick]))"
  by (rule theme_always_shown [where api = AddListener and dark = False and p = theme_start
        and evs = "[ToggleClick, SystemChange True, ToggleClick]"]) simp_all

section \<open>The boot script and the main script\<close>

lemma boot_pref_eq:
  "(if get_item p (js ''vocagateway.theme'') \<noteq> Some (js ''light'')
       \<and> get_item p (js ''vocagateway.theme'') \<noteq> Some (js ''dark'')
       \<and> get_item p (js ''vocagateway.theme'') \<noteq> Some (js ''system'')
    then js ''system'' else the (get_item p (js ''vocagateway.theme''))) = readThemePreference p"
  by (auto simp: readThemePreference_def THEME_KEY_def split: option.split)

lemma theme_boot_eq:
  "\<not> store_blocked p \<Longrightarrow> theme_boot dark p =
     (let pref = readThemePreference p; resolved = resolveTheme dark pref
      in setFavicon resolved
           (upd_el (js ''meta-theme-color'') (set_attr (js ''content'') (meta_color resolved))
              (upd_doc (set_attr (js ''data-theme-preference'') pref)
                 (upd_doc (set_attr (js ''data-theme'') resolved) p))))"
  unfolding theme_boot_def Let_def boot_pref_eq
  by (simp only: if_False resolveTheme_def meta_color_def boot_favicon_def setFavicon_def
      favicon_href_def Let_def)

text \<open>C7.  The boot script and the main script's \<open>applyTheme(readThemePreference())\<close> are two
  separate implementations with the same effect: the main script only adds the label of the
  toggle, so a page that booted is not repainted when the main script starts.\<close>

theorem theme_boot_agrees:
  assumes "\<not> store_blocked p"
  shows "doc_el (theme_boot dark p) = doc_el (applyTheme dark (readThemePreference p) p) \<and>
    (\<forall>i. i \<noteq> js ''theme-toggle'' \<longrightarrow>
      get_el (theme_boot dark p) i = get_el (applyTheme dark (readThemePreference p) p) i) \<and>
    doc_el (applyTheme dark (readThemePreference p) (theme_boot dark p)) =
      doc_el (theme_boot dark p)"
  unfolding theme_boot_eq [OF assms, of dark] applyTheme_def setFavicon_def Let_def
  by (simp add: el.look_change set_attr_def)

theorem theme_boot_agrees_witness:
  "doc_el (theme_boot True theme_start) =
     doc_el (applyTheme True (readThemePreference theme_start) theme_start)"
  using theme_boot_agrees [of theme_start True] by (simp add: theme_start_def)

text \<open>A click on the toggle stores the next preference and shows it; the three preferences
  form one cycle, and reloading the page (the boot script on the same storage) shows the
  preference the click stored.\<close>

theorem toggle_click_persists:
  assumes "toggle_bound p" and "\<not> store_blocked p"
  shows "readThemePreference (toggleClick dark p) = cycleThemePreference (readThemePreference p) \<and>
    readThemePreference (toggleClick dark p) \<noteq> readThemePreference p \<and>
    readThemePreference (toggleClick dark (toggleClick dark (toggleClick dark p))) =
      readThemePreference p \<and>
    el_attrs (doc_el (theme_boot d (toggleClick dark p))) (js ''data-theme-preference'') =
      Some (cycleThemePreference (readThemePreference p))"
proof -
  have click: "readThemePreference (toggleClick dark q) = cycleThemePreference (readThemePreference q)
      \<and> toggle_bound (toggleClick dark q) \<and> store_blocked (toggleClick dark q) = store_blocked q"
    if "toggle_bound q" for q :: "'a theme_page_scheme"
    using that by (simp add: toggleClick_def Let_def readThemePreference_set_item)
  have "el_attrs (doc_el (theme_boot d q)) (js ''data-theme-preference'') = Some (readThemePreference q)"
    if "\<not> store_blocked q" for q :: "'a theme_page_scheme"
    using that by (simp add: theme_boot_eq Let_def setFavicon_def set_attr_def)
  with click [OF assms(1)] assms show ?thesis
    by (simp add: click cycle_three cycle_neq)
qed

theorem toggle_click_persists_witness:
  "readThemePreference (toggleClick False (theme_start\<lparr>toggle_bound := True\<rparr>)) \<noteq>
     readThemePreference (theme_start\<lparr>toggle_bound := True\<rparr>)"
proof -
  let ?p = "theme_start\<lparr>toggle_bound := True\<rparr>"
  have "toggle_bound ?p" "\<not> store_blocked ?p" by (simp_all add: theme_start_def)
  from toggle_click_persists [OF this, of False False] show ?thesis by blast
qed

end
