(* ===== verification/Exposure.thy ===== *)
theory Exposure
  imports Theme
begin

text \<open>
  The network exposure banner of \<open>app/webui/app.js\<close>: its dismissal, which is meant to hide it for
  24 hours through a deadline kept in \<open>localStorage\<close>, and the handler that runs after htmx has
  swapped the banner.  \<open>now\<close> is what \<open>Date.now()\<close> answers, in milliseconds.  Elements have
  an identity here, since an \<open>outerHTML\<close> swap replaces the banner by another element with
  the same id while the event still carries the element that was replaced.
\<close>

section \<open>Operations\<close>

definition EXPOSURE_DISMISS_KEY :: jsstring where
  [page_defs]: "EXPOSURE_DISMISS_KEY = js ''vocagateway.exposure-dismiss-until''"

definition EXPOSURE_DISMISS_MS :: nat where
  [page_defs]: "EXPOSURE_DISMISS_MS = 24 * 60 * 60 * 1000"

text \<open>\<open>banner_ref\<close> is the identity of the element with id \<open>exposure-banner\<close> in the document.\<close>

record banner_page = theme_page +
  banner_ref :: nat

definition exposureDismissedUntil :: "'a page_scheme \<Rightarrow> rat" where
  "exposureDismissedUntil p =
     (let stored = opt_or (get_item p EXPOSURE_DISMISS_KEY) [];
          raw = (if stored = [] then Fin 0 else to_number stored)
      in case raw of Fin q \<Rightarrow> q | _ \<Rightarrow> 0)"

text \<open>The argument \<open>root\<close>, when given, is an element: its identity and its id.  A root that is
  no longer in the document takes the writes instead of the banner that is.\<close>

definition applyExposureBanner ::
    "(nat \<times> jsstring) option \<Rightarrow> nat \<Rightarrow> 'a banner_page_scheme \<Rightarrow> 'a banner_page_scheme" where
  "applyExposureBanner rt now p =
     (let detached = (case rt of None \<Rightarrow> False
                      | Some (r, i) \<Rightarrow> i = js ''exposure-banner'' \<and> r \<noteq> banner_ref p)
      in if detached then p
         else case get_el p (js ''exposure-banner'') of
           None \<Rightarrow> p
         | Some banner \<Rightarrow>
             if el_attrs banner (js ''data-empty'') = Some (js ''1'') then p
             else
               let until = exposureDismissedUntil p; hid = (of_nat now < until)
               in upd_el (js ''exposure-banner'')
                    (\<lambda>b. set_attr (js ''aria-hidden'') (js_bool hid) (set_hidden hid b)) p)"

definition dismissExposureBanner :: "nat \<Rightarrow> 'a banner_page_scheme \<Rightarrow> 'a banner_page_scheme" where
  "dismissExposureBanner now p =
     applyExposureBanner None now
       (set_item EXPOSURE_DISMISS_KEY (js_nat (now + EXPOSURE_DISMISS_MS)) p)"

text \<open>The listener of \<open>htmx:afterSwap\<close>: the event's target, if it has one.\<close>

definition exposure_afterSwap ::
    "(nat \<times> jsstring) option \<Rightarrow> nat \<Rightarrow> 'a banner_page_scheme \<Rightarrow> 'a banner_page_scheme" where
  "exposure_afterSwap target now p =
     (case target of
        Some (r, i) \<Rightarrow>
          if i = js ''exposure-banner'' then applyExposureBanner (Some (r, i)) now p else p
      | None \<Rightarrow> p)"

text \<open>What htmx does for \<open>hx-swap="outerHTML"\<close> on the banner, before it dispatches the event:
  another element takes the banner's place and id.\<close>

definition swap_banner :: "elem \<Rightarrow> nat \<Rightarrow> 'a banner_page_scheme \<Rightarrow> 'a banner_page_scheme" where
  "swap_banner new fresh p =
     p\<lparr>els := (els p)(js ''exposure-banner'' \<mapsto> new), banner_ref := fresh\<rparr>"

section \<open>Properties\<close>

definition banner_hidden :: "'a page_scheme \<Rightarrow> bool option" where
  "banner_hidden p = map_option el_hidden (get_el p (js ''exposure-banner''))"

definition banner_shown_page :: "'a page_scheme \<Rightarrow> bool" where
  "banner_shown_page p \<longleftrightarrow>
     (\<exists>b. get_el p (js ''exposure-banner'') = Some b
        \<and> el_attrs b (js ''data-empty'') \<noteq> Some (js ''1''))"

lemma dismissed_until_stored:
  "get_item p EXPOSURE_DISMISS_KEY = Some (js_nat n) \<Longrightarrow> n \<le> 2 ^ 53 \<Longrightarrow>
     exposureDismissedUntil p = of_nat n"
  by (simp add: exposureDismissedUntil_def to_number_js_nat str_or_def)

lemma banner_hidden_apply:
  assumes "banner_shown_page p"
  shows "banner_hidden (applyExposureBanner None now p) =
      Some (of_nat now < exposureDismissedUntil p)"
    and "banner_shown_page (applyExposureBanner None now p)"
  using assms
  by (auto simp: banner_shown_page_def banner_hidden_def applyExposureBanner_def Let_def
      set_attr_def set_hidden_def)

lemma get_item_apply [simp]:
  "get_item (applyExposureBanner r now p) k = get_item p k"
  by (simp add: applyExposureBanner_def Let_def split: option.split prod.split)

lemma dismissed_until_apply [simp]:
  "exposureDismissedUntil (applyExposureBanner r now p) = exposureDismissedUntil p"
  by (simp add: exposureDismissedUntil_def)

lemma dismissed_until_dismiss:
  "now + EXPOSURE_DISMISS_MS \<le> 2 ^ 53 \<Longrightarrow>
     exposureDismissedUntil (dismissExposureBanner now p) = of_nat (now + EXPOSURE_DISMISS_MS)"
  unfolding dismissExposureBanner_def dismissed_until_apply
  by (rule dismissed_until_stored) simp_all

text \<open>A page that shows a banner, for the witnesses.\<close>

definition banner_start :: banner_page where
  "banner_start = \<lparr>els = (\<lambda>_. Some blank), doc_el = blank, store = (\<lambda>_. None),
     store_blocked = False, focused = None, sent = [], timers = (\<lambda>_. None), next_timer = 0,
     toggle_bound = False, media_bound = False, banner_ref = 0\<rparr>"

lemma banner_start_shown [simp]: "banner_shown_page banner_start"
  by (simp add: banner_shown_page_def banner_start_def get_el_def blank_def)

text \<open>The element that a swap put in the banner's place is not reached by the handler.\<close>

lemma swapped_banner_untouched:
  "fresh \<noteq> banner_ref p \<Longrightarrow>
     exposure_afterSwap (Some (banner_ref p, js ''exposure-banner'')) t (swap_banner new fresh p) = swap_banner new fresh p"
  by (simp add: exposure_afterSwap_def applyExposureBanner_def swap_banner_def)

lemma dismiss_hides:
  assumes "now + EXPOSURE_DISMISS_MS \<le> 2 ^ 53"
  shows "banner_shown_page p \<or> banner_hidden p = Some True \<Longrightarrow> banner_hidden (dismissExposureBanner now p) = Some True"
proof -
  let ?s = "set_item EXPOSURE_DISMISS_KEY (js_nat (now + EXPOSURE_DISMISS_MS)) p"
  have u: "exposureDismissedUntil ?s = of_nat (now + EXPOSURE_DISMISS_MS)"
    using assms by (intro dismissed_until_stored) simp_all
  have h: "(of_nat now :: rat) < of_nat (now + EXPOSURE_DISMISS_MS)"
    by (simp only: of_nat_less_iff) (simp add: EXPOSURE_DISMISS_MS_def)
  show ?thesis if b: "banner_shown_page p \<or> banner_hidden p = Some True"
  proof (cases "banner_shown_page p")
    case True
    then have "banner_shown_page ?s" by (simp add: banner_shown_page_def)
    from banner_hidden_apply(1) [OF this, of now] show ?thesis
      unfolding dismissExposureBanner_def u using h by simp
  next
    case False
    with b obtain e where "get_el p (js ''exposure-banner'') = Some e" "el_attrs e (js ''data-empty'') = Some (js ''1'')"
      "el_hidden e" by (auto simp: banner_hidden_def banner_shown_page_def)
    then show ?thesis by (simp add: dismissExposureBanner_def applyExposureBanner_def banner_hidden_def)
  qed
qed

text \<open>C9.  The handler that runs after a swap does not reach the banner the swap installed: the
  event's target is the element that was replaced, so a banner delivered visible stays
  visible although the operator dismissed it less than 24 hours ago.\<close>

theorem swapped_banner_ignores_dismissal:
  assumes "fresh \<noteq> banner_ref p"
  shows "get_el (exposure_afterSwap (Some (banner_ref p, js ''exposure-banner'')) t
      (swap_banner new fresh p)) (js ''exposure-banner'') = Some new"
  by (simp add: swapped_banner_untouched [OF assms]) (simp add: swap_banner_def get_el_def)

theorem swapped_banner_ignores_dismissal_witness:
  "banner_hidden (exposure_afterSwap (Some (0, js ''exposure-banner'')) 1700000000001
      (swap_banner blank 1 (dismissExposureBanner 1700000000000 banner_start))) = Some False"
proof -
  let ?p = "dismissExposureBanner 1700000000000 banner_start"
  have ref: "banner_ref ?p = 0"
    by (simp add: dismissExposureBanner_def applyExposureBanner_def Let_def upd_el_def
        set_item_def banner_start_def split: option.split)
  have "(1 :: nat) \<noteq> banner_ref ?p" by (simp add: ref)
  from swapped_banner_ignores_dismissal [OF this, of 1700000000001 blank]
  show ?thesis by (simp add: ref banner_hidden_def) (simp add: blank_def)
qed

end
