(* ===== verification/Tabs.thy ===== *)
theory Tabs
  imports Exposure
begin

text \<open>
  The tab bar of \<open>app/webui/app.js\<close>: \<open>activateTab\<close>, \<open>openTabByName\<close>, the click and keyboard
  listeners of each tab, the panel's busy flag, and the choice of the first tab from the
  location's hash at startup.  A tab is known by its index in the list of the elements of
  class \<open>tab\<close> in document order.
\<close>

section \<open>State\<close>

record tab =
  tab_id :: jsstring
  data_tab :: jsstring
  hx_get :: "jsstring option"
  tab_active :: bool
  aria_selected :: jsstring
  tab_index :: int

record tabs_page = banner_page +
  tab_els :: "tab list"
  url_hash :: "jsstring option"

section \<open>Operations\<close>

definition mark_tab :: "bool \<Rightarrow> tab \<Rightarrow> tab" where
  [page_defs]: "mark_tab active t =
     t\<lparr>tab_active := active, aria_selected := js_bool active,
       tab_index := (if active then 0 else - 1)\<rparr>"

text \<open>\<open>activateTab(tab, updateLocation)\<close>; \<open>null\<close> is \<open>None\<close>.\<close>

definition activateTab :: "nat option \<Rightarrow> bool \<Rightarrow> 'a tabs_page_scheme \<Rightarrow> 'a tabs_page_scheme" where
  "activateTab t updateLocation p =
     (case t of
        None \<Rightarrow> p
      | Some k \<Rightarrow>
          let ts = tab_els p;
              p1 = p\<lparr>tab_els := map (\<lambda>j. mark_tab (j = k) (ts ! j)) [0..<length ts]\<rparr>;
              p2 = (if tab_id (ts ! k) \<noteq> []
                    then upd_el (js ''panel'') (set_attr (js ''aria-labelledby'') (tab_id (ts ! k))) p1
                    else p1)
          in if updateLocation
             then p2\<lparr>url_hash := Some (js ''#'' @ data_tab (ts ! k))\<rparr> else p2)"

fun index_from :: "('a \<Rightarrow> bool) \<Rightarrow> nat \<Rightarrow> 'a list \<Rightarrow> nat option" where
  "index_from f n [] = None"
| "index_from f n (x # xs) = (if f x then Some n else index_from f (Suc n) xs)"

text \<open>\<open>document.querySelector(`.tab[data-tab="${key}"]`)\<close>: the first tab whose \<open>data-tab\<close> is the
  key.  A key that holds a quote or a backslash would change the selector's meaning; the
  keys that reach it are \<open>data-tab\<close> names of the page and the hash of its address.\<close>

definition find_tab :: "jsstring \<Rightarrow> 'a tabs_page_scheme \<Rightarrow> nat option" where
  "find_tab key p = index_from (\<lambda>t. data_tab t = key) 0 (tab_els p)"

definition tab_key :: "jsstring \<Rightarrow> jsstring" where
  "tab_key name = (if name = js ''test'' then js ''pair'' else name)"

definition openTabByName :: "jsstring \<Rightarrow> 'a tabs_page_scheme \<Rightarrow> 'a tabs_page_scheme" where
  "openTabByName name p =
     (case find_tab (tab_key name) p of
        None \<Rightarrow> p
      | Some k \<Rightarrow>
          let p1 = activateTab (Some k) True p
          in case hx_get (tab_els p ! k) of
               Some href \<Rightarrow>
                 if href = [] then p1
                 else send (Ajax (js ''GET'') href (js ''#panel'') (js ''innerHTML'') []) p1
             | None \<Rightarrow> p1)"

definition tab_click :: "nat \<Rightarrow> 'a tabs_page_scheme \<Rightarrow> 'a tabs_page_scheme" where
  "tab_click k p = activateTab (Some k) True p"

text \<open>The keyboard listener: \<open>%\<close> is the remainder of the truncated division.\<close>

definition js_rem :: "int \<Rightarrow> int \<Rightarrow> int" where
  "js_rem a b = sgn a * (\<bar>a\<bar> mod \<bar>b\<bar>)"

definition nav_keys :: "jsstring list" where
  "nav_keys = [js ''ArrowLeft'', js ''ArrowRight'', js ''ArrowUp'', js ''ArrowDown'',
     js ''Home'', js ''End'']"

definition next_index :: "jsstring \<Rightarrow> nat \<Rightarrow> nat \<Rightarrow> int" where
  "next_index key n k =
     (let offset = (if key \<in> set [js ''ArrowRight'', js ''ArrowDown''] then 1 else - 1)
      in if key = js ''Home'' then 0
         else if key = js ''End'' then int n - 1
         else js_rem (int k + offset + int n) (int n))"

definition tab_keydown :: "nat \<Rightarrow> jsstring \<Rightarrow> 'a tabs_page_scheme \<Rightarrow> 'a tabs_page_scheme" where
  "tab_keydown k key p =
     (if key \<notin> set nav_keys then p
      else let nxt = nat (next_index key (length (tab_els p)) k)
           in tab_click nxt (set_focus (Nth (js ''.tab'') nxt) p))"

text \<open>The capturing click listener for \<open>[data-open-tab]\<close> controls; \<open>trigger\<close> is the value of
  the attribute on the closest such element, if there is one.\<close>

definition openTab_click :: "jsstring option \<Rightarrow> 'a tabs_page_scheme \<Rightarrow> 'a tabs_page_scheme" where
  "openTab_click trigger p = (case trigger of None \<Rightarrow> p | Some name \<Rightarrow> openTabByName name p)"

text \<open>\<open>htmx:beforeRequest\<close> and \<open>htmx:afterRequest\<close>, by the id of the event's target.\<close>

definition panel_beforeRequest :: "jsstring option \<Rightarrow> 'a page_scheme \<Rightarrow> 'a page_scheme" where
  "panel_beforeRequest target p =
     (if target = Some (js ''panel'')
      then upd_el (js ''panel'') (set_attr (js ''aria-busy'') (js ''true'')) p else p)"

definition panel_afterRequest :: "jsstring option \<Rightarrow> 'a page_scheme \<Rightarrow> 'a page_scheme" where
  "panel_afterRequest target p =
     (if target = Some (js ''panel'')
      then upd_el (js ''panel'') (set_attr (js ''aria-busy'') (js ''false'')) p else p)"

text \<open>The end of the script: the tab named by the hash, else the one marked active in the
  markup, is activated without touching the address, and the panel will load its content.\<close>

definition start_tab :: "jsstring \<Rightarrow> 'a tabs_page_scheme \<Rightarrow> 'a tabs_page_scheme" where
  "start_tab hash p =
     (let tabKey = tab_key hash;
          requestedTab = (if tabKey = [] then None else find_tab tabKey p);
          initialTab = (case requestedTab of
              Some k \<Rightarrow> Some k | None \<Rightarrow> index_from tab_active 0 (tab_els p));
          p1 = activateTab initialTab False p
      in case requestedTab of
           None \<Rightarrow> p1
         | Some k \<Rightarrow>
             upd_el (js ''panel'')
               (set_attr (js ''hx-get'')
                 (case hx_get (tab_els p ! k) of Some h \<Rightarrow> h | None \<Rightarrow> js ''null'')) p1)"

lemma page_activateTab [simp]:
  "timers (activateTab t u p) = timers p" "store (activateTab t u p) = store p"
  "next_timer (activateTab t u p) = next_timer p" "sent (activateTab t u p) = sent p"
  "focused (activateTab t u p) = focused p" "store_blocked (activateTab t u p) = store_blocked p"
  by (simp_all add: activateTab_def Let_def split: option.split)

lemma page_openTabByName [simp]:
  "timers (openTabByName n p) = timers p" "store (openTabByName n p) = store p"
  "next_timer (openTabByName n p) = next_timer p" "focused (openTabByName n p) = focused p"
  by (simp_all add: openTabByName_def Let_def split: option.split)

section \<open>Exactly one tab is active\<close>

definition shows_tab :: "nat \<Rightarrow> 'a tabs_page_scheme \<Rightarrow> bool" where
  "shows_tab k p \<longleftrightarrow> k < length (tab_els p) \<and>
     (\<forall>j < length (tab_els p).
        tab_active (tab_els p ! j) = (j = k) \<and>
        aria_selected (tab_els p ! j) = js_bool (j = k) \<and>
        tab_index (tab_els p ! j) = (if j = k then 0 else - 1))"

lemma tab_els_upd_el [simp]:
  "tab_els (upd_el i f p) = tab_els p" "url_hash (upd_el i f p) = url_hash p"
  by (simp_all add: upd_el_def)

lemma tab_els_frame [simp]:
  "tab_els (set_focus r p) = tab_els p" "tab_els (send q p) = tab_els p"
  "tab_els (set_item i v p) = tab_els p" "tab_els (remove_item i p) = tab_els p"
  "tab_els (stop_timer h p) = tab_els p"
  by (simp_all add: page_defs split: option.split)

lemma shows_tab_frame [simp]:
  "shows_tab k (upd_el i f p) = shows_tab k p" "shows_tab k (set_focus r p) = shows_tab k p"
  "shows_tab k (send q p) = shows_tab k p" "shows_tab k (p\<lparr>url_hash := h\<rparr>) = shows_tab k p"
  by (simp_all add: shows_tab_def)

lemma tab_els_activateTab:
  "tab_els (activateTab (Some k) u p) =
     map (\<lambda>j. mark_tab (j = k) (tab_els p ! j)) [0..<length (tab_els p)]"
  by (simp add: activateTab_def Let_def)

lemma length_activateTab [simp]: "length (tab_els (activateTab t u p)) = length (tab_els p)"
  by (cases t) (simp add: activateTab_def, simp add: tab_els_activateTab)

lemma static_activateTab:
  "j < length (tab_els p) \<Longrightarrow>
     data_tab (tab_els (activateTab t u p) ! j) = data_tab (tab_els p ! j) \<and>
     hx_get (tab_els (activateTab t u p) ! j) = hx_get (tab_els p ! j) \<and>
     tab_id (tab_els (activateTab t u p) ! j) = tab_id (tab_els p ! j)"
  by (cases t) (simp add: activateTab_def, simp add: tab_els_activateTab mark_tab_def)

lemma shows_tab_activate: "k < length (tab_els p) \<Longrightarrow> shows_tab k (activateTab (Some k) u p)"
  by (simp add: shows_tab_def tab_els_activateTab mark_tab_def)

lemma index_from_bound: "index_from f n xs = Some k \<Longrightarrow> n \<le> k \<and> k < n + length xs \<and> f (xs ! (k - n))"
proof (induction xs arbitrary: n)
  case (Cons x xs)
  show ?case
  proof (cases "f x")
    case False
    with Cons.IH [of "Suc n"] Cons.prems have "Suc n \<le> k \<and> k < Suc n + length xs \<and> f (xs ! (k - Suc n))" by auto
    moreover from this have "k - n = Suc (k - Suc n)" by (simp add: Suc_diff_Suc)
    ultimately show ?thesis by auto
  qed (use Cons.prems in auto)
qed simp

lemma find_tab_bound:
  "find_tab key p = Some k \<Longrightarrow> k < length (tab_els p) \<and> data_tab (tab_els p ! k) = key"
  using index_from_bound [of "\<lambda>t. data_tab t = key" 0 "tab_els p" k] by (simp add: find_tab_def)

lemma next_index_bound:
  assumes "k < n"
  shows "0 \<le> next_index key n k \<and> next_index key n k < int n"
proof -
  have "js_rem (int k + d + int n) (int n) = (int k + d + int n) mod int n" if "- 1 \<le> d" for d
    using that assms by (cases "int k + d + int n = 0") (auto simp: js_rem_def sgn_if)
  with assms show ?thesis by (simp add: next_index_def Let_def)
qed

definition some_tab_shown :: "'a tabs_page_scheme \<Rightarrow> bool" where
  "some_tab_shown p \<longleftrightarrow> (\<exists>k. shows_tab k p)"

datatype tab_event =
    TabClick nat
  | TabKey nat jsstring
  | OpenTab jsstring
  | BeforeRequest "jsstring option"
  | AfterRequest "jsstring option"

fun tab_step :: "'a tabs_page_scheme \<Rightarrow> tab_event \<Rightarrow> 'a tabs_page_scheme" where
  "tab_step p (TabClick k) = (if k < length (tab_els p) then tab_click k p else p)"
| "tab_step p (TabKey k key) = (if k < length (tab_els p) then tab_keydown k key p else p)"
| "tab_step p (OpenTab name) = openTabByName name p"
| "tab_step p (BeforeRequest t) = panel_beforeRequest t p"
| "tab_step p (AfterRequest t) = panel_afterRequest t p"

lemma shows_tab_open:
  "find_tab (tab_key name) p = Some k \<Longrightarrow> shows_tab k (openTabByName name p)"
  using find_tab_bound [of "tab_key name" p k]
  by (auto simp: openTabByName_def Let_def shows_tab_activate split: option.split)

lemma shows_tab_keydown:
  assumes "k < length (tab_els p)" "key \<in> set nav_keys"
  shows "shows_tab (nat (next_index key (length (tab_els p)) k)) (tab_keydown k key p)"
proof -
  have "nat (next_index key (length (tab_els p)) k) < length (tab_els p)"
    using next_index_bound [OF assms(1), of key] by linarith
  with assms(2) show ?thesis
    by (simp add: tab_keydown_def Let_def tab_click_def shows_tab_activate)
qed

lemma tab_step_shown: "some_tab_shown p \<Longrightarrow> some_tab_shown (tab_step p e)"
proof (cases e)
  case (TabKey k key)
  then show "some_tab_shown p \<Longrightarrow> ?thesis"
    using shows_tab_keydown [of k p key]
    by (cases "key \<in> set nav_keys \<and> k < length (tab_els p)")
      (auto simp: some_tab_shown_def, auto simp: tab_keydown_def)
next
  case (OpenTab name)
  then show "some_tab_shown p \<Longrightarrow> ?thesis"
    using shows_tab_open [of name p]
    by (cases "find_tab (tab_key name) p")
      (auto simp: some_tab_shown_def, auto simp: openTabByName_def)
qed (auto simp: some_tab_shown_def tab_click_def panel_beforeRequest_def panel_afterRequest_def
    intro: shows_tab_activate)

lemma start_tab_shown:
  assumes "\<exists>t \<in> set (tab_els p). tab_active t"
  shows "some_tab_shown (start_tab hash p)"
proof -
  have "index_from f n xs \<noteq> None" if "\<exists>x \<in> set xs. f x" for f n and xs :: "tab list"
    using that by (induction xs arbitrary: n) auto
  with assms obtain a where a: "index_from tab_active 0 (tab_els p) = Some a" by blast
  then have "a < length (tab_els p)" using index_from_bound by force
  with a show ?thesis
    using find_tab_bound [of "tab_key hash" p] shows_tab_activate [of _ p False]
    by (auto simp: start_tab_def Let_def some_tab_shown_def split: option.split)
qed

text \<open>The page as \<open>index.html\<close> delivers it, with its six tabs.\<close>

definition page_tab :: "string \<Rightarrow> string \<Rightarrow> string \<Rightarrow> bool \<Rightarrow> tab" where
  "page_tab i d h a = \<lparr>tab_id = js i, data_tab = js d, hx_get = Some (js h), tab_active = a,
     aria_selected = js_bool a, tab_index = 0\<rparr>"

definition index_tabs :: "tab list" where
  "index_tabs =
     [page_tab ''tab-overview'' ''overview'' ''/ui/partials/overview'' True,
      page_tab ''tab-models'' ''models'' ''/ui/partials/models'' False,
      page_tab ''tab-cleanup'' ''cleanup'' ''/ui/partials/cleanup'' False,
      page_tab ''tab-pair'' ''pair'' ''/ui/partials/test'' False,
      page_tab ''tab-settings'' ''settings'' ''/ui/partials/settings'' False,
      page_tab ''tab-about'' ''about'' ''/ui/partials/about'' False]"

definition tabs_start :: tabs_page where
  "tabs_start = banner_page.extend banner_start \<lparr>tab_els = index_tabs, url_hash = None\<rparr>"

lemma tab_els_start [simp]: "tab_els tabs_start = index_tabs"
  by (simp add: tabs_start_def banner_page.defs)

text \<open>C10.  From startup on, in every run of tab clicks, keyboard navigation, "open tab" controls
  and request events, exactly one tab is active, and it alone is selected for assistive
  technology and reachable with the Tab key.\<close>

theorem one_tab_active:
  assumes "\<exists>t \<in> set (tab_els p). tab_active t"
  shows "\<exists>k. shows_tab k (foldl tab_step (start_tab hash p) evs)"
proof -
  have "some_tab_shown q \<Longrightarrow> some_tab_shown (foldl tab_step q evs)" for q :: "'a tabs_page_scheme"
    by (induction evs arbitrary: q) (auto simp: tab_step_shown)
  then show ?thesis using start_tab_shown [OF assms] by (simp add: some_tab_shown_def)
qed

theorem one_tab_active_witness:
  "\<exists>k. shows_tab k (foldl tab_step (start_tab (js ''test'') tabs_start)
     [TabClick 2, TabKey 2 (js ''ArrowLeft''), OpenTab (js ''models'')])"
  by (rule one_tab_active) (simp add: index_tabs_def page_tab_def)

text \<open>Keyboard navigation stays on the tab bar: the focus and the activation go to the same
  tab, an arrow key moves by one with wrap-around at both ends, \<open>Home\<close> and \<open>End\<close> go to the
  ends, and the arrow of the other direction leads back.\<close>

theorem tab_keyboard:
  assumes "k < length (tab_els p)" and "n = length (tab_els p)"
  shows "shows_tab ((k + 1) mod n) (tab_keydown k (js ''ArrowRight'') p) \<and>
    shows_tab (if k = 0 then n - 1 else k - 1) (tab_keydown k (js ''ArrowLeft'') p) \<and>
    shows_tab 0 (tab_keydown k (js ''Home'') p) \<and>
    shows_tab (n - 1) (tab_keydown k (js ''End'') p) \<and>
    focused (tab_keydown k (js ''ArrowRight'') p) = Some (Nth (js ''.tab'') ((k + 1) mod n)) \<and>
    shows_tab k (tab_keydown ((k + 1) mod n) (js ''ArrowLeft'') (tab_keydown k (js ''ArrowRight'') p))"
proof -
  have n: "0 < n" "k < n" using assms by auto
  have right: "nat (next_index (js ''ArrowRight'') n k) = (k + 1) mod n"
    using n by (simp add: next_index_def js_rem_def Let_def nat_mod_distrib nat_add_distrib
        flip: of_nat_Suc)
  have left: "nat (next_index (js ''ArrowLeft'') n j) = (if j = 0 then n - 1 else j - 1)" if "j < n" for j
  proof (cases "j = 0")
    case True
    then show ?thesis using that
      by (simp add: next_index_def js_rem_def Let_def sgn_if zmod_minus1 nat_diff_distrib)
  next
    case False
    then have "int j - 1 + int n = (int j - 1) + int n" "0 \<le> int j - 1" "int j - 1 < int n"
      using that by auto
    then show ?thesis using False that by (simp add: next_index_def js_rem_def Let_def sgn_if)
  qed
  let ?r = "tab_keydown k (js ''ArrowRight'') p"
  have len: "length (tab_els ?r) = n" using assms by (simp add: tab_keydown_def Let_def tab_click_def)
  have r1: "(k + 1) mod n < n" using n by simp
  have ret: "(if (k + 1) mod n = 0 then n - 1 else (k + 1) mod n - 1) = k"
    using n by (cases "k + 1 = n") auto
  have key: "shows_tab (nat (next_index key n k)) (tab_keydown k key p)" if "key \<in> set nav_keys" for key
    using shows_tab_keydown [OF assms(1) that] assms(2) by simp
  have "shows_tab k (tab_keydown ((k + 1) mod n) (js ''ArrowLeft'') ?r)"
    using shows_tab_keydown [of "(k + 1) mod n" ?r "js ''ArrowLeft''"] left [OF r1] ret r1
    by (simp add: len nav_keys_def)
  moreover have "focused ?r = Some (Nth (js ''.tab'') ((k + 1) mod n))"
    using right assms by (simp add: tab_keydown_def nav_keys_def Let_def tab_click_def
        activateTab_def)
  moreover have "shows_tab ((k + 1) mod n) ?r"
    using key [of "js ''ArrowRight''"] right by (simp add: nav_keys_def)
  moreover have "shows_tab (if k = 0 then n - 1 else k - 1) (tab_keydown k (js ''ArrowLeft'') p)"
    using key [of "js ''ArrowLeft''"] left [OF n(2)] by (simp add: nav_keys_def split: if_splits)
  moreover have "shows_tab 0 (tab_keydown k (js ''Home'') p)"
    using key [of "js ''Home''"] by (simp add: nav_keys_def next_index_def)
  moreover have "shows_tab (n - 1) (tab_keydown k (js ''End'') p)"
    using key [of "js ''End''"] n by (simp add: nav_keys_def next_index_def nat_diff_distrib)
  ultimately show ?thesis by blast
qed

theorem tab_keyboard_witness:
  "shows_tab 0 (tab_keydown 5 (js ''ArrowRight'') tabs_start)"
proof -
  have "5 < length (tab_els tabs_start)" by (simp add: index_tabs_def)
  from tab_keyboard [OF this refl] show ?thesis by (simp add: index_tabs_def)
qed

end
