(* ===== verification/Shell.thy ===== *)
theory Shell
  imports Tabs
begin

text \<open>
  The shell of \<open>app/webui/app.js\<close>: toasts, the token dialog that covers the page, the stored
  token, and the htmx listeners that attach it to requests and react to their errors.  The
  elements \<open>overlay\<close>, \<open>tokenInput\<close>, \<open>tokenError\<close> and \<open>toast\<close> are looked up once when the
  script starts and are part of \<open>index.html\<close>, so they are fields of the state; the inert
  flags of the other elements behind the dialog are the list \<open>background\<close>.
\<close>

section \<open>State\<close>

record shell_page = tabs_page +
  overlay :: elem
  tokenInput :: elem
  tokenError :: elem
  toast :: elem
  background :: "bool list"
  toast_timer :: "nat option"

section \<open>Operations\<close>

definition TOKEN_KEY :: jsstring where
  [page_defs]: "TOKEN_KEY = js ''vocagateway.token''"

definition getToken :: "'a page_scheme \<Rightarrow> jsstring" where
  "getToken p = opt_or (get_item p TOKEN_KEY) []"

text \<open>\<open>message\<close> is already text: \<open>textContent\<close> converts what it is given.\<close>

definition showToast :: "jsstring \<Rightarrow> bool \<Rightarrow> 'a shell_page_scheme \<Rightarrow> 'a shell_page_scheme" where
  "showToast message isError p =
     (let t = class_remove (js ''hidden'')
                (class_toggle (js ''error'') isError (set_text message (toast p)));
          (p1, h) = restart_timer (toast_timer p) (HideToast, 5000) (p\<lparr>toast := t\<rparr>)
      in p1\<lparr>toast_timer := Some h\<rparr>)"

definition hideToast :: "'a shell_page_scheme \<Rightarrow> 'a shell_page_scheme" where
  "hideToast p = p\<lparr>toast := class_add (js ''hidden'') (toast p)\<rparr>"

text \<open>The selector matches the exposure banner, the four other parts of the page, and the toast.\<close>

definition setBackgroundInert :: "bool \<Rightarrow> 'a shell_page_scheme \<Rightarrow> 'a shell_page_scheme" where
  "setBackgroundInert inert p =
     (upd_el (js ''exposure-banner'') (set_inert inert) p)
       \<lparr>background := map (\<lambda>_. inert) (background p), toast := set_inert inert (toast p)\<rparr>"

definition showOverlay :: "jsstring \<Rightarrow> 'a shell_page_scheme \<Rightarrow> 'a shell_page_scheme" where
  "showOverlay message p =
     (let p1 = p\<lparr>tokenError := class_toggle (js ''hidden'') (message = [])
                   (set_text message (tokenError p)),
                 overlay := set_attr (js ''aria-hidden'') (js ''false'')
                   (class_remove (js ''hidden'') (overlay p))\<rparr>;
          p2 = setBackgroundInert True p1
      in set_focus (ById (js ''token-input'')) p2)"

definition hideOverlay :: "'a shell_page_scheme \<Rightarrow> 'a shell_page_scheme" where
  "hideOverlay p =
     setBackgroundInert False
       (p\<lparr>overlay := set_attr (js ''aria-hidden'') (js ''true'')
            (class_add (js ''hidden'') (overlay p)),
          tokenInput := set_value [] (tokenInput p)\<rparr>)"

definition active_tab_name :: "'a tabs_page_scheme \<Rightarrow> jsstring" where
  "active_tab_name p =
     (case index_from tab_active 0 (tab_els p) of
        None \<Rightarrow> js ''overview''
      | Some k \<Rightarrow> str_or (data_tab (tab_els p ! k)) (js ''overview''))"

definition pill_request :: "string \<Rightarrow> string \<Rightarrow> request" where
  "pill_request url target = Ajax (js ''GET'') (js url) (js target) (js ''outerHTML'') []"

text \<open>The click on \<open>token-save\<close>.\<close>

definition saveToken :: "'a shell_page_scheme \<Rightarrow> 'a shell_page_scheme" where
  "saveToken p =
     (let token = trim (el_value (tokenInput p))
      in if length token < 32
         then showOverlay (js ''Token must be at least 32 characters.'') p
         else
           let p1 = hideOverlay (set_item TOKEN_KEY token p);
               p2 = openTabByName (active_tab_name p1) p1;
               p3 = send (pill_request ''/ui/partials/engine-pill'' ''#engine-pill'') p2;
               p4 = send (pill_request ''/ui/partials/cleanup/pill'' ''#cleanup-pill'') p3
           in send (pill_request ''/ui/partials/exposure-banner'' ''#exposure-banner'') p4)"

definition tokenInput_keydown :: "jsstring \<Rightarrow> 'a shell_page_scheme \<Rightarrow> 'a shell_page_scheme" where
  "tokenInput_keydown key p = (if key = js ''Enter'' then saveToken p else p)"

definition forgetToken_click :: "'a shell_page_scheme \<Rightarrow> 'a shell_page_scheme" where
  "forgetToken_click p =
     showOverlay (js ''Token cleared from this browser.'') (remove_item TOKEN_KEY p)"

definition bearer :: "'a page_scheme \<Rightarrow> jsstring" where
  "bearer p = js ''Bearer '' @ getToken p"

text \<open>\<open>htmx:configRequest\<close>: the headers of the request, with the authorization set.\<close>

definition configRequest ::
    "'a page_scheme \<Rightarrow> (jsstring \<Rightarrow> jsstring option) \<Rightarrow> (jsstring \<Rightarrow> jsstring option)" where
  "configRequest p headers = headers(js ''Authorization'' \<mapsto> bearer p)"

text \<open>The message of an error reply: \<open>parsed\<close> is what \<open>JSON.parse\<close> of the body gives.  Reading
  \<open>payload.error\<close> of a nullish payload throws, and the \<open>catch\<close> keeps the default.\<close>

definition reply_message :: "jsval result \<Rightarrow> jsstring \<Rightarrow> jsval" where
  "reply_message parsed dflt =
     (case bind_result parsed (\<lambda>payload. get_prop payload (js ''error'')) of
        Inl _ \<Rightarrow> Str dflt
      | Inr err \<Rightarrow>
          if truthy err \<and> truthy (own err (js ''message'')) then own err (js ''message'')
          else Str dflt)"

definition responseError ::
    "nat \<Rightarrow> jsval result \<Rightarrow> 'a shell_page_scheme \<Rightarrow> 'a shell_page_scheme" where
  "responseError status parsed p =
     (if status = 401
      then let hadToken = getToken p \<noteq> []
           in showOverlay
                (if hadToken then js ''Token rejected. Paste the current gateway token.'' else [])
                (remove_item TOKEN_KEY p)
      else showToast
             (to_text (reply_message parsed (js ''Request failed ('' @ js_nat status @ js '').'')))
             True p)"

text \<open>The check at the end of the script.\<close>

definition start_token :: "'a shell_page_scheme \<Rightarrow> 'a shell_page_scheme" where
  "start_token p = (if getToken p = [] then showOverlay [] p else p)"

section \<open>The dialog and the page behind it\<close>

definition overlay_open :: "'a shell_page_scheme \<Rightarrow> bool" where
  "overlay_open p \<longleftrightarrow> \<not> has_class (js ''hidden'') (overlay p)"

text \<open>The dialog is modal: when it is open everything behind it is inert, when it is closed
  nothing is, and \<open>aria-hidden\<close> says the same.\<close>

definition modal :: "'a shell_page_scheme \<Rightarrow> bool" where
  "modal p \<longleftrightarrow>
     el_attrs (overlay p) (js ''aria-hidden'') = Some (js_bool (\<not> overlay_open p)) \<and>
     (\<forall>b \<in> set (background p). b = overlay_open p) \<and>
     el_inert (toast p) = overlay_open p \<and>
     (\<forall>e. get_el p (js ''exposure-banner'') = Some e \<longrightarrow> el_inert e = overlay_open p)"

lemma shell_frame [simp]:
  "overlay (upd_el i f p) = overlay p" "background (upd_el i f p) = background p"
  "toast (upd_el i f p) = toast p" "tokenInput (upd_el i f p) = tokenInput p"
  "toast_timer (upd_el i f p) = toast_timer p"
  "overlay (set_item k v p) = overlay p" "background (set_item k v p) = background p"
  "toast (set_item k v p) = toast p" "tokenInput (set_item k v p) = tokenInput p"
  "toast_timer (set_item k v p) = toast_timer p"
  "overlay (remove_item k p) = overlay p" "background (remove_item k p) = background p"
  "toast (remove_item k p) = toast p" "tokenInput (remove_item k p) = tokenInput p"
  "toast_timer (remove_item k p) = toast_timer p"
  "overlay (send q p) = overlay p" "background (send q p) = background p"
  "toast (send q p) = toast p" "tokenInput (send q p) = tokenInput p"
  "toast_timer (send q p) = toast_timer p"
  "overlay (set_focus r p) = overlay p" "background (set_focus r p) = background p"
  "toast (set_focus r p) = toast p" "tokenInput (set_focus r p) = tokenInput p"
  "toast_timer (set_focus r p) = toast_timer p"
  by (simp_all add: page_defs)

lemma shell_activateTab [simp]:
  "overlay (activateTab t u p) = overlay p" "background (activateTab t u p) = background p"
  "toast (activateTab t u p) = toast p" "tokenInput (activateTab t u p) = tokenInput p"
  "toast_timer (activateTab t u p) = toast_timer p"
  by (simp_all add: activateTab_def Let_def split: option.split)

lemma banner_activateTab [simp]:
  "get_el (activateTab t u p) (js ''exposure-banner'') = get_el p (js ''exposure-banner'')"
  by (simp add: activateTab_def Let_def get_el_def upd_el_def split: option.split)

lemma shell_openTabByName [simp]:
  "overlay (openTabByName n p) = overlay p" "background (openTabByName n p) = background p"
  "toast (openTabByName n p) = toast p" "tokenInput (openTabByName n p) = tokenInput p"
  "toast_timer (openTabByName n p) = toast_timer p"
  "get_el (openTabByName n p) (js ''exposure-banner'') = get_el p (js ''exposure-banner'')"
  by (simp_all add: openTabByName_def Let_def split: option.split)

lemma modal_cong:
  "overlay q = overlay p \<Longrightarrow> background q = background p \<Longrightarrow> toast q = toast p \<Longrightarrow>
   get_el q (js ''exposure-banner'') = get_el p (js ''exposure-banner'') \<Longrightarrow> modal q = modal p"
  by (simp add: modal_def overlay_open_def)

lemma overlay_open_showOverlay [simp]: "overlay_open (showOverlay m p)"
  by (simp add: showOverlay_def setBackgroundInert_def overlay_open_def page_defs)

lemma modal_showOverlay: "modal (showOverlay m p)"
  unfolding modal_def overlay_open_def
  by (simp add: showOverlay_def setBackgroundInert_def get_el_def page_defs) auto

lemma overlay_closed_hideOverlay [simp]: "\<not> overlay_open (hideOverlay p)"
  by (simp add: hideOverlay_def setBackgroundInert_def overlay_open_def page_defs)

lemma modal_hideOverlay: "modal (hideOverlay p)"
  unfolding modal_def overlay_open_def
  by (simp add: hideOverlay_def setBackgroundInert_def get_el_def page_defs) auto

lemma showToast_eq:
  "showToast m err p =
     p\<lparr>toast := class_remove (js ''hidden'')
         (class_toggle (js ''error'') err (set_text m (toast p))),
       timers := (timers (stop_timer (toast_timer p) p))(next_timer p \<mapsto> (HideToast, 5000)),
       next_timer := Suc (next_timer p), toast_timer := Some (next_timer p)\<rparr>"
  by (simp add: showToast_def restart_timer_eq Let_def stop_timer_def split: option.split)

lemma modal_showToast: "modal (showToast m err p) = modal p"
  by (simp add: showToast_eq modal_def overlay_open_def get_el_def page_defs)

lemma saveToken_accept:
  "\<not> length (trim (el_value (tokenInput p))) < 32 \<Longrightarrow>
     modal (saveToken p) \<and> \<not> overlay_open (saveToken p) \<and>
     store (saveToken p) = (store p)(TOKEN_KEY \<mapsto> trim (el_value (tokenInput p))) \<and>
     el_value (tokenInput (saveToken p)) = []"
proof -
  assume ok: "\<not> length (trim (el_value (tokenInput p))) < 32"
  let ?q = "hideOverlay (set_item TOKEN_KEY (trim (el_value (tokenInput p))) p)"
  have "modal (saveToken p) = modal ?q" "overlay (saveToken p) = overlay ?q"
    "store (saveToken p) = store ?q" "tokenInput (saveToken p) = tokenInput ?q"
    using ok by (simp_all add: saveToken_def Let_def modal_def overlay_open_def)
  moreover have "store ?q = (store p)(TOKEN_KEY \<mapsto> trim (el_value (tokenInput p)))"
    "el_value (tokenInput ?q) = []"
    by (simp_all add: hideOverlay_def setBackgroundInert_def set_item_def set_value_def upd_el_def)
  ultimately show ?thesis
    using modal_hideOverlay [of "set_item TOKEN_KEY (trim (el_value (tokenInput p))) p"]
      overlay_closed_hideOverlay [of "set_item TOKEN_KEY (trim (el_value (tokenInput p))) p"]
    by (simp add: overlay_open_def)
qed

lemma saveToken_reject:
  "length (trim (el_value (tokenInput p))) < 32 \<Longrightarrow>
     saveToken p = showOverlay (js ''Token must be at least 32 characters.'') p"
  by (simp add: saveToken_def Let_def)

lemma modal_saveToken: "modal (saveToken p)"
  by (cases "length (trim (el_value (tokenInput p))) < 32")
    (simp_all add: saveToken_reject modal_showOverlay saveToken_accept)

datatype shell_event =
    TokenTyped jsstring
  | TokenSave
  | TokenKey jsstring
  | ForgetToken
  | ResponseError nat "jsval result"
  | ToastTimer nat

text \<open>A one-shot timer that is due is removed before its callback runs.\<close>

fun shell_step :: "'a shell_page_scheme \<Rightarrow> shell_event \<Rightarrow> 'a shell_page_scheme" where
  "shell_step p (TokenTyped s) = p\<lparr>tokenInput := set_value s (tokenInput p)\<rparr>"
| "shell_step p TokenSave = saveToken p"
| "shell_step p (TokenKey k) = tokenInput_keydown k p"
| "shell_step p ForgetToken = forgetToken_click p"
| "shell_step p (ResponseError st parsed) = responseError st parsed p"
| "shell_step p (ToastTimer h) =
     (case timers p h of
        Some (HideToast, _) \<Rightarrow> hideToast (stop_timer (Some h) p)
      | _ \<Rightarrow> p)"

lemma modal_hideToast: "modal (hideToast (stop_timer h p)) = modal p"
  by (simp add: modal_def overlay_open_def hideToast_def get_el_def page_defs split: option.split)

lemma modal_step: "modal p \<Longrightarrow> modal (shell_step p e)"
proof (cases e)
  case (TokenTyped s)
  then show "modal p \<Longrightarrow> ?thesis"
    by (simp add: modal_def overlay_open_def get_el_def)
next
  case (ToastTimer h)
  then show "modal p \<Longrightarrow> ?thesis"
    by (simp add: modal_hideToast split: option.split prod.split callback.split)
qed (simp_all add: modal_saveToken tokenInput_keydown_def forgetToken_click_def modal_showOverlay
    responseError_def Let_def modal_showToast)

definition shell_start :: shell_page where
  "shell_start = tabs_page.extend tabs_start
     \<lparr>overlay = set_attr (js ''aria-hidden'') (js ''true'') (class_add (js ''hidden'') blank),
      tokenInput = blank, tokenError = class_add (js ''hidden'') blank,
      toast = class_add (js ''hidden'') blank, background = [False, False, False, False],
      toast_timer = None\<rparr>"

lemma shell_start_simps [simp]:
  "overlay shell_start = set_attr (js ''aria-hidden'') (js ''true'') (class_add (js ''hidden'') blank)"
  "tokenInput shell_start = blank" "toast shell_start = class_add (js ''hidden'') blank"
  "background shell_start = [False, False, False, False]" "toast_timer shell_start = None"
  "els shell_start = (\<lambda>_. Some blank)" "store shell_start = (\<lambda>_. None)"
  "timers shell_start = (\<lambda>_. None)" "next_timer shell_start = 0" "tab_els shell_start = index_tabs"
  by (simp_all add: shell_start_def tabs_page.defs tabs_start_def banner_page.defs banner_start_def)

lemma modal_start: "modal shell_start"
  by (auto simp: modal_def overlay_open_def get_el_def page_defs blank_def)

text \<open>C5.  The token dialog stays modal in every run of its own events: from a page on which it is (as
  delivered), through typing, saving, forgetting and rejected tokens, error replies and toasts, in any
  order and while no swap replaces the banner, the exposure banner, the header, the tabs, the
  content, the footer and the toast are inert exactly while the dialog is shown, so the page behind
  it can be reached neither by Tab nor by a screen reader while it is open and always can once it
  is closed.  (With the events of all components the same holds but for the banner: C1 and C16.)\<close>

theorem dialog_stays_modal:
  assumes "modal p"
  shows "modal (foldl shell_step (start_token p) evs)"
proof -
  have "modal q \<Longrightarrow> modal (foldl shell_step q evs)" for q :: "'a shell_page_scheme"
    by (induction evs arbitrary: q) (auto simp: modal_step)
  moreover have "modal (start_token p)"
    using assms by (simp add: start_token_def modal_showOverlay)
  ultimately show ?thesis .
qed

theorem dialog_stays_modal_witness:
  "modal (foldl shell_step (start_token shell_start)
     [TokenTyped (replicate 40 97), TokenKey (js ''Enter''), ResponseError 401 (Inl SyntaxError)])"
  by (rule dialog_stays_modal) (rule modal_start)

text \<open>C6.  Saving a token: an input of fewer than 32 characters after trimming changes nothing in
  the storage, sends nothing and reopens the dialog with the reason; any other is stored
  trimmed, is the token of every later request's \<open>Authorization\<close> header, closes the dialog and
  empties the field.\<close>

theorem save_token_outcome:
  "if length (trim (el_value (tokenInput p))) < 32
   then store (saveToken p) = store p \<and> sent (saveToken p) = sent p \<and> overlay_open (saveToken p) \<and>
        el_text (tokenError (saveToken p)) = js ''Token must be at least 32 characters.''
   else getToken (saveToken p) = trim (el_value (tokenInput p)) \<and>
        configRequest (saveToken p) h (js ''Authorization'') =
          Some (js ''Bearer '' @ trim (el_value (tokenInput p))) \<and>
        \<not> overlay_open (saveToken p) \<and> el_value (tokenInput (saveToken p)) = []"
proof (cases "length (trim (el_value (tokenInput p))) < 32")
  case True
  have "store (showOverlay m p) = store p \<and> sent (showOverlay m p) = sent p
      \<and> el_text (tokenError (showOverlay m p)) = m" for m
    by (simp add: showOverlay_def setBackgroundInert_def page_defs)
  with True show ?thesis by (simp add: saveToken_reject)
next
  case False
  then have "getToken (saveToken p) = trim (el_value (tokenInput p))"
    using saveToken_accept [OF False] by (auto simp: getToken_def get_item_def str_or_def)
  with False show ?thesis
    using saveToken_accept [OF False] by (simp add: configRequest_def bearer_def)
qed

text \<open>A 401 reply always ends in the dialog without a stored token; it says that the token
  was rejected only if there was one.  Any other error keeps the token and shows a toast
  with the gateway's message, or with the status when the body is not an error document.\<close>

theorem response_error_outcome:
  "getToken (responseError 401 parsed p) = [] \<and> overlay_open (responseError 401 parsed p) \<and>
   el_text (tokenError (responseError 401 parsed p)) =
     (if getToken p = [] then [] else js ''Token rejected. Paste the current gateway token.'') \<and>
   (status = 401 \<or>
     (store (responseError status parsed p) = store p \<and>
      \<not> has_class (js ''hidden'') (toast (responseError status parsed p)) \<and>
      has_class (js ''error'') (toast (responseError status parsed p)) \<and>
      el_text (toast (responseError status parsed p)) =
        (case parsed of
           Inr (Obj fs) \<Rightarrow>
             (case map_of fs (js ''error'') of
                Some (Obj gs) \<Rightarrow>
                  (case map_of gs (js ''message'') of
                     Some m \<Rightarrow> if truthy m then to_text m
                                else js ''Request failed ('' @ js_nat status @ js '').''
                   | None \<Rightarrow> js ''Request failed ('' @ js_nat status @ js '').'')
              | _ \<Rightarrow> js ''Request failed ('' @ js_nat status @ js '').'')
         | _ \<Rightarrow> js ''Request failed ('' @ js_nat status @ js '').'')))"
proof -
  let ?d = "js ''Request failed ('' @ js_nat status @ js '').''"
  have m: "to_text (reply_message parsed ?d) =
      (case parsed of
           Inr (Obj fs) \<Rightarrow>
             (case map_of fs (js ''error'') of
                Some (Obj gs) \<Rightarrow>
                  (case map_of gs (js ''message'') of
                     Some m \<Rightarrow> if truthy m then to_text m else ?d | None \<Rightarrow> ?d)
              | _ \<Rightarrow> ?d)
         | _ \<Rightarrow> ?d)"
    by (auto simp: reply_message_def get_prop_def nullish_def split: sum.split jsval.split option.split)
  have "store (showOverlay t q) = store q \<and> el_text (tokenError (showOverlay t q)) = t"
    for t and q :: "'a shell_page_scheme"
    by (simp add: showOverlay_def setBackgroundInert_def page_defs)
  moreover have "getToken (remove_item TOKEN_KEY p) = []" by (simp add: getToken_def)
  ultimately have o: "getToken (responseError 401 parsed p) = []"
    "el_text (tokenError (responseError 401 parsed p)) =
     (if getToken p = [] then [] else js ''Token rejected. Paste the current gateway token.'')"
    by (simp_all add: responseError_def getToken_def get_item_def)
  have "overlay_open (responseError 401 parsed p)" by (simp add: responseError_def)
  with o show ?thesis
    by (simp add: responseError_def m [symmetric] showToast_eq page_defs)
qed

section \<open>Toasts\<close>

definition is_hide_toast :: "callback \<times> nat \<Rightarrow> bool" where
  "is_hide_toast c \<longleftrightarrow> fst c = HideToast"

text \<open>A toast that is shown has its timer pending, and no other timer can hide it.\<close>

definition toast_inv :: "'a shell_page_scheme \<Rightarrow> bool" where
  "toast_inv p \<longleftrightarrow> timers_ok p \<and> slot_ok (timers p) is_hide_toast (toast_timer p) \<and>
     (\<not> has_class (js ''hidden'') (toast p) \<longrightarrow>
        (\<exists>h. toast_timer p = Some h \<and> timers p h = Some (HideToast, 5000)))"

lemma toast_inv_cong:
  "el_classes (toast q) = el_classes (toast p) \<Longrightarrow> toast_timer q = toast_timer p \<Longrightarrow>
   timers q = timers p \<Longrightarrow> next_timer q = next_timer p \<Longrightarrow> toast_inv q = toast_inv p"
  by (simp add: toast_inv_def timers_ok_def has_class_def)

lemma toast_inv_showOverlay [simp]: "toast_inv (showOverlay m p) = toast_inv p"
  by (rule toast_inv_cong) (simp_all add: showOverlay_def setBackgroundInert_def page_defs)

lemma toast_inv_hideOverlay [simp]: "toast_inv (hideOverlay p) = toast_inv p"
  by (rule toast_inv_cong) (simp_all add: hideOverlay_def setBackgroundInert_def page_defs)

lemma toast_inv_storage [simp]:
  "toast_inv (set_item k v p) = toast_inv p" "toast_inv (remove_item k p) = toast_inv p"
  by (rule toast_inv_cong; simp)+

lemma toast_inv_saveToken [simp]: "toast_inv (saveToken p) = toast_inv p"
proof (cases "length (trim (el_value (tokenInput p))) < 32")
  case False
  have "toast_inv (saveToken p) =
      toast_inv (hideOverlay (set_item TOKEN_KEY (trim (el_value (tokenInput p))) p))"
    using False by (intro toast_inv_cong) (simp_all add: saveToken_def Let_def)
  then show ?thesis by simp
qed (simp add: saveToken_reject)

lemma toast_inv_showToast: "toast_inv p \<Longrightarrow> toast_inv (showToast m err p)"
proof -
  assume inv: "toast_inv p"
  obtain q h where q: "restart_timer (toast_timer p) (HideToast, 5000)
      (p\<lparr>toast := class_remove (js ''hidden'') (class_toggle (js ''error'') err (set_text m (toast p)))\<rparr>)
      = (q, h)" by force
  have eq: "showToast m err p = q\<lparr>toast_timer := Some h\<rparr>" using q by (simp add: showToast_def)
  have "slot_ok (timers q) is_hide_toast (Some h) \<and> timers q h = Some (HideToast, 5000)"
    by (rule restart_slot [OF _ q]) (use inv in \<open>simp add: toast_inv_def\<close>)
  moreover have "timers_ok q"
    by (rule timers_ok_restart [OF _ q]) (use inv in \<open>simp add: toast_inv_def timers_ok_def\<close>)
  ultimately show ?thesis by (simp add: eq toast_inv_def timers_ok_def)
qed

lemma toast_inv_hide: "toast_inv p \<Longrightarrow> toast_inv (hideToast (stop_timer (Some h) p))"
  using tm.slot_stop_other [of p is_hide_toast "toast_timer p" "Some h"]
    timers_ok_stop [of p "Some h"]
  by (simp add: toast_inv_def hideToast_def timers_ok_def has_class_def class_add_def stop_timer_def)

lemma toast_inv_step: "toast_inv p \<Longrightarrow> toast_inv (shell_step p e)"
proof (cases e)
  case (TokenTyped s)
  then show "toast_inv p \<Longrightarrow> ?thesis" by (simp add: toast_inv_def timers_ok_def)
next
  case (ToastTimer h)
  then show "toast_inv p \<Longrightarrow> ?thesis"
    by (simp add: toast_inv_hide split: option.split prod.split callback.split)
qed (simp_all add: tokenInput_keydown_def forgetToken_click_def responseError_def Let_def
    toast_inv_showToast)

lemma toast_inv_start: "toast_inv shell_start"
  by (simp add: toast_inv_def timers_ok_def slot_ok_def has_class_def class_add_def)

text \<open>Toasts do not hide each other early: in every run at most one timer that hides the
  toast is pending, and while a toast is on screen the pending one is the timer its own
  \<open>showToast\<close> started with the full five seconds.\<close>

theorem toast_timer_single:
  assumes "toast_inv p" and "q = foldl shell_step p evs"
    and "timers q h = Some (HideToast, d)"
  shows "toast_timer q = Some h \<and>
    (\<forall>h' d'. timers q h' = Some (HideToast, d') \<longrightarrow> h' = h) \<and>
    (\<not> has_class (js ''hidden'') (toast q) \<longrightarrow> d = 5000)"
proof -
  have "toast_inv r \<Longrightarrow> toast_inv (foldl shell_step r evs)" for r :: "'a shell_page_scheme"
    by (induction evs arbitrary: r) (auto simp: toast_inv_step)
  with assms have inv: "toast_inv q" by blast
  then have slot: "toast_timer q = Some h'" if "timers q h' = Some (HideToast, d')" for h' d'
    using that by (auto simp: toast_inv_def slot_ok_def is_hide_toast_def)
  have "h' = h" if "timers q h' = Some (HideToast, d')" for h' d'
    using slot [OF that] slot [OF assms(3)] by simp
  moreover have "d = 5000" if "\<not> has_class (js ''hidden'') (toast q)"
    using that inv slot [OF assms(3)] assms(3) by (auto simp: toast_inv_def)
  ultimately show ?thesis using slot [OF assms(3)] by blast
qed

theorem toast_timer_single_witness:
  "toast_timer (foldl shell_step shell_start
     [ResponseError 500 (Inl SyntaxError), ResponseError 503 (Inl SyntaxError)]) = Some 1"
proof -
  let ?q = "foldl shell_step shell_start
     [ResponseError 500 (Inl SyntaxError), ResponseError 503 (Inl SyntaxError)]"
  have "timers ?q 1 = Some (HideToast, 5000)"
    by (simp add: responseError_def showToast_eq stop_timer_def)
  from toast_timer_single [OF toast_inv_start refl this] show ?thesis by blast
qed

end
