(* ===== verification/WordDiff.thy ===== *)
theory WordDiff
  imports JsValue
begin

text \<open>
  The word-level diff of \<open>app/webui/app.js\<close>: \<open>tokenize\<close>, \<open>commonTokens\<close> (a longest common
  subsequence table in typed arrays, then a walk through it) and \<open>paintDiff\<close>.  Proved: the
  table holds the lengths of longest common subsequences of the suffixes without wrap-around
  in its 32-bit cells, the tokens kept on both sides are the same sequence of maximal length,
  and the painted nodes spell the text that was given.
\<close>

section \<open>Tokens\<close>

text \<open>\<open>text.match(/\S+\s*/g) || []\<close>: leading white space is skipped, then each match takes a
  run of other characters and the white space after it.\<close>

lemma dropWhile_space_Cons:
  assumes "dropWhile is_space s = c # u"
  shows "\<not> is_space c" "takeWhile (\<lambda>c. \<not> is_space c) (c # u) = c # takeWhile (\<lambda>c. \<not> is_space c) u"
    "dropWhile (\<lambda>c. \<not> is_space c) (c # u) = dropWhile (\<lambda>c. \<not> is_space c) u"
    "length u < length s"
proof -
  show c: "\<not> is_space c" using hd_dropWhile [of is_space s] assms by simp
  then show "takeWhile (\<lambda>c. \<not> is_space c) (c # u) = c # takeWhile (\<lambda>c. \<not> is_space c) u"
    "dropWhile (\<lambda>c. \<not> is_space c) (c # u) = dropWhile (\<lambda>c. \<not> is_space c) u" by simp_all
  show "length u < length s"
    using length_dropWhile_le [of is_space s] assms by simp
qed

function tokenize :: "jsstring \<Rightarrow> jsstring list" where
  "tokenize str =
     (let s = dropWhile is_space str
      in if s = [] then []
         else let w = takeWhile (\<lambda>c. \<not> is_space c) s;
                  r = dropWhile (\<lambda>c. \<not> is_space c) s
              in (w @ takeWhile is_space r) # tokenize (dropWhile is_space r))"
  by pat_completeness auto
termination
proof (relation "measure length", goal_cases)
  case (2 str s w r)
  then have "dropWhile is_space str \<noteq> []" by metis
  then obtain c u where cu: "dropWhile is_space str = c # u" by (meson neq_Nil_conv)
  have "length (dropWhile is_space r) \<le> length r" by (rule length_dropWhile_le)
  also have "length r \<le> length u"
    using 2 cu dropWhile_space_Cons(3) [OF cu] by (simp add: length_dropWhile_le)
  also have "length u < length str" by (rule dropWhile_space_Cons(4) [OF cu])
  finally show ?case by simp
qed simp

declare tokenize.simps [simp del]

lemma tokenize_Nil: "dropWhile is_space s = [] \<Longrightarrow> tokenize s = []"
  by (subst tokenize.simps) (simp only: Let_def simp_thms if_True)

lemma tokenize_Cons:
  "dropWhile is_space s = c # u \<Longrightarrow>
     tokenize s = (c # takeWhile (\<lambda>c. \<not> is_space c) u
         @ takeWhile is_space (dropWhile (\<lambda>c. \<not> is_space c) u))
       # tokenize (dropWhile is_space (dropWhile (\<lambda>c. \<not> is_space c) u))"
  using dropWhile_space_Cons [of s c u]
  by (subst tokenize.simps) (simp add: Let_def del: dropWhile_eq_Nil_conv)

lemma tokenize_induct [case_names Nil Cons]:
  assumes "\<And>s. dropWhile is_space s = [] \<Longrightarrow> P s"
    and "\<And>s c u. dropWhile is_space s = c # u \<Longrightarrow>
      P (dropWhile is_space (dropWhile (\<lambda>c. \<not> is_space c) u)) \<Longrightarrow> P s"
  shows "P s"
proof (induction s rule: measure_induct_rule [of length])
  case (less s)
  show ?case
  proof (cases "dropWhile is_space s")
    case (Cons c u)
    have "length (dropWhile is_space (dropWhile (\<lambda>c. \<not> is_space c) u)) \<le> length u"
      by (meson length_dropWhile_le le_trans)
    also have "length u < length s" by (rule dropWhile_space_Cons(4) [OF Cons])
    finally show ?thesis using assms(2) [OF Cons] less by blast
  qed (rule assms(1))
qed

lemma concat_tokenize: "concat (tokenize s) = trim_start s"
proof (induction s rule: tokenize_induct)
  case (Cons s c u)
  let ?r = "dropWhile (\<lambda>c. \<not> is_space c) u"
  have "trim_start (dropWhile is_space ?r) = dropWhile is_space ?r"
    by (simp add: trim_start_def dropWhile_idem)
  with Cons have "concat (tokenize s) =
      c # takeWhile (\<lambda>c. \<not> is_space c) u @ takeWhile is_space ?r @ dropWhile is_space ?r"
    by (simp add: tokenize_Cons)
  also have "\<dots> = c # u" by (simp only: takeWhile_dropWhile_id)
  finally show ?case using Cons by (simp add: trim_start_def)
next
  case (Nil s)
  then show ?case by (metis concat.simps(1) tokenize_Nil trim_start_def)
qed

lemma tokenize_tokens: "t \<in> set (tokenize s) \<Longrightarrow> t \<noteq> [] \<and> \<not> is_space (hd t)"
proof (induction s rule: tokenize_induct)
  case (Cons s c u)
  then show ?case
    using dropWhile_space_Cons(1) [OF Cons(1)] by (auto simp: tokenize_Cons)
qed (simp add: tokenize_Nil)

lemma dropWhile_none: "\<forall>d \<in> set xs. \<not> f d \<Longrightarrow> dropWhile f xs = xs"
  by (cases xs) auto

text \<open>The words are the trimmed tokens: none is empty, none holds white space.\<close>

lemma tokenize_words: "t \<in> set (tokenize s) \<Longrightarrow> trim t \<noteq> [] \<and> (\<forall>c \<in> set (trim t). \<not> is_space c)"
proof (induction s rule: tokenize_induct)
  case (Cons s c u)
  let ?w = "c # takeWhile (\<lambda>c. \<not> is_space c) u"
  let ?sp = "takeWhile is_space (dropWhile (\<lambda>c. \<not> is_space c) u)"
  have c: "\<not> is_space c" by (rule dropWhile_space_Cons(1) [OF Cons(1)])
  have w: "\<forall>d \<in> set ?w. \<not> is_space d" using c by (auto dest: set_takeWhileD)
  have "dropWhile is_space (rev ?sp @ rev ?w) = dropWhile is_space (rev ?w)"
    by (rule dropWhile_append2) (auto dest: set_takeWhileD)
  also have "\<dots> = rev ?w" using w by (intro dropWhile_none) simp
  finally have "trim (?w @ ?sp) = ?w" using c by (simp add: trim_def trim_start_def trim_end_def)
  then have "trim (?w @ ?sp) \<noteq> [] \<and> (\<forall>d \<in> set (trim (?w @ ?sp)). \<not> is_space d)"
    using w by (simp only: list.distinct simp_thms)
  moreover have "t = ?w @ ?sp \<or>
      t \<in> set (tokenize (dropWhile is_space (dropWhile (\<lambda>c. \<not> is_space c) u)))"
    using Cons(3) unfolding tokenize_Cons [OF Cons(1)] by simp
  ultimately show ?case using Cons(2) by blast
qed (simp add: tokenize_Nil)

section \<open>The longest common subsequence table\<close>

definition DIFF_TOKEN_LIMIT :: nat where
  "DIFF_TOKEN_LIMIT = 400"

text \<open>A row of \<open>Uint32Array(after.length + 1)\<close> is a list of 32-bit words; the inner loop counts
  \<open>j\<close> down, the outer one \<open>i\<close>.\<close>

type_synonym table = "32 word list list"

definition cell :: "'a list \<Rightarrow> 'a list \<Rightarrow> table \<Rightarrow> nat \<Rightarrow> nat \<Rightarrow> 32 word" where
  "cell before after t i j =
     (if before ! i = after ! j then t ! Suc i ! Suc j + 1
      else max (t ! Suc i ! j) (t ! i ! Suc j))"

fun fill_row :: "'a list \<Rightarrow> 'a list \<Rightarrow> nat \<Rightarrow> nat \<Rightarrow> table \<Rightarrow> table" where
  "fill_row before after i 0 t = t"
| "fill_row before after i (Suc j) t =
     fill_row before after i j (t[i := (t ! i)[j := cell before after t i j]])"

fun fill_rows :: "'a list \<Rightarrow> 'a list \<Rightarrow> nat \<Rightarrow> table \<Rightarrow> table" where
  "fill_rows before after 0 t = t"
| "fill_rows before after (Suc i) t =
     fill_rows before after i (fill_row before after i (length after) t)"

definition lcs_table :: "'a list \<Rightarrow> 'a list \<Rightarrow> table" where
  "lcs_table before after =
     fill_rows before after (length before)
       (replicate (length before + 1) (replicate (length after + 1) 0))"

text \<open>The walk: \<open>kb\<close> and \<open>ka\<close> are the two arrays of \<open>kept\<close>.\<close>

function walk ::
    "'a list \<Rightarrow> 'a list \<Rightarrow> table \<Rightarrow> nat \<Rightarrow> nat \<Rightarrow> bool list \<Rightarrow> bool list \<Rightarrow> bool list \<times> bool list"
  where
  "walk before after t i j kb ka =
     (if i < length before \<and> j < length after
      then if before ! i = after ! j
           then walk before after t (Suc i) (Suc j) (kb[i := True]) (ka[j := True])
           else if t ! i ! Suc j \<le> t ! Suc i ! j then walk before after t (Suc i) j kb ka
           else walk before after t i (Suc j) kb ka
      else (kb, ka))"
  by pat_completeness auto
termination
  by (relation "measure (\<lambda>(b, a, t, i, j, kb, ka). (length b - i) + (length a - j))") auto

declare walk.simps [simp del]

definition commonTokens :: "'a list \<Rightarrow> 'a list \<Rightarrow> (bool list \<times> bool list) option" where
  "commonTokens before after =
     (if DIFF_TOKEN_LIMIT < length before \<or> DIFF_TOKEN_LIMIT < length after then None
      else Some (walk before after (lcs_table before after) 0 0
             (replicate (length before) False) (replicate (length after) False)))"

section \<open>Longest common subsequences\<close>

text \<open>The reference: the length of a longest common subsequence, by recursion on the lists.\<close>

fun lcs_len :: "'a list \<Rightarrow> 'a list \<Rightarrow> nat" where
  "lcs_len [] ys = 0"
| "lcs_len xs [] = 0"
| "lcs_len (x # xs) (y # ys) =
     (if x = y then Suc (lcs_len xs ys) else max (lcs_len xs (y # ys)) (lcs_len (x # xs) ys))"

lemma lcs_len_Nil [simp]: "lcs_len xs [] = 0"
  by (cases xs) auto

lemma lcs_len_le: "lcs_len xs ys \<le> length xs" "lcs_len xs ys \<le> length ys"
  by (induction xs ys rule: lcs_len.induct) auto

lemma lcs_len_optimal: "subseq zs xs \<Longrightarrow> subseq zs ys \<Longrightarrow> length zs \<le> lcs_len xs ys"
proof (induction xs ys arbitrary: zs rule: lcs_len.induct)
  case (3 x xs y ys)
  show ?case
  proof (cases zs)
    case (Cons z zs')
    show ?thesis
    proof (cases "x = y")
      case True
      have "subseq zs' xs" "subseq zs' ys"
        using 3(4,5) Cons by (auto split: if_splits dest: subseq_Cons')
      with True Cons 3(1) show ?thesis by simp
    next
      case False
      then have "subseq zs xs \<or> subseq zs ys"
        using 3(4,5) Cons by (auto split: if_splits)
      then show ?thesis using False 3 by (auto simp: le_max_iff_disj)
    qed
  qed simp
qed auto


section \<open>The table is right\<close>

abbreviation lcs_at :: "'a list \<Rightarrow> 'a list \<Rightarrow> nat \<Rightarrow> nat \<Rightarrow> nat" where
  "lcs_at before after i j \<equiv> lcs_len (drop i before) (drop j after)"

text \<open>The shape of the table, and the cells that are filled: all of rows \<open>i\<close> and below, and of row
  \<open>i - 1\<close> those from column \<open>j\<close> on.\<close>

definition table_shape :: "'a list \<Rightarrow> 'a list \<Rightarrow> table \<Rightarrow> bool" where
  "table_shape before after t \<longleftrightarrow>
     length t = length before + 1 \<and> (\<forall>r \<in> set t. length r = length after + 1)"

definition row_done :: "'a list \<Rightarrow> 'a list \<Rightarrow> table \<Rightarrow> nat \<Rightarrow> nat \<Rightarrow> bool" where
  "row_done before after t i j \<longleftrightarrow>
     (\<forall>k. j \<le> k \<and> k \<le> length after \<longrightarrow> t ! i ! k = of_nat (lcs_at before after i k))"

definition rows_done :: "'a list \<Rightarrow> 'a list \<Rightarrow> table \<Rightarrow> nat \<Rightarrow> bool" where
  "rows_done before after t i \<longleftrightarrow>
     (\<forall>l. i \<le> l \<and> l \<le> length before \<longrightarrow> row_done before after t l 0)"

lemma unat_lcs_at:
  "length before \<le> DIFF_TOKEN_LIMIT \<Longrightarrow> unat (of_nat (lcs_at before after i j) :: 32 word) = lcs_at before after i j"
proof -
  assume "length before \<le> DIFF_TOKEN_LIMIT"
  moreover have "lcs_at before after i j \<le> length before"
    using lcs_len_le(1) [of "drop i before" "drop j after"] by simp
  ultimately have "lcs_at before after i j < 2 ^ 32" by (simp add: DIFF_TOKEN_LIMIT_def)
  then show ?thesis by (simp add: unat_of_nat)
qed

lemma lcs_at_step:
  "i < length b \<Longrightarrow> j < length a \<Longrightarrow> lcs_at b a i j =
     (if b ! i = a ! j then Suc (lcs_at b a (Suc i) (Suc j))
      else max (lcs_at b a (Suc i) j) (lcs_at b a i (Suc j)))"
  by (simp add: Cons_nth_drop_Suc [symmetric])

lemma lcs_at_end: "length b \<le> i \<or> length a \<le> j \<Longrightarrow> lcs_at b a i j = 0"
  by auto

lemma cell_correct:
  assumes "length b \<le> DIFF_TOKEN_LIMIT" "i < length b" "j < length a"
    and "row_done b a t (Suc i) 0" "row_done b a t i (Suc j)"
  shows "cell b a t i j = of_nat (lcs_at b a i j)"
proof -
  have "t ! Suc i ! Suc j = of_nat (lcs_at b a (Suc i) (Suc j))"
    "t ! Suc i ! j = of_nat (lcs_at b a (Suc i) j)" "t ! i ! Suc j = of_nat (lcs_at b a i (Suc j))"
    using assms by (auto simp: row_done_def)
  moreover have "max (of_nat m) (of_nat n) = (of_nat (max m n) :: 32 word)"
    if "unat (of_nat m :: 32 word) = m" "unat (of_nat n :: 32 word) = n" for m n
    using that by (simp add: max_def word_le_nat_alt)
  ultimately show ?thesis
    using unat_lcs_at [OF assms(1)] assms(2,3) by (simp add: cell_def lcs_at_step)
qed

lemma fill_row_shape:
  "table_shape b a t \<Longrightarrow> i < length b \<Longrightarrow> j \<le> length a \<Longrightarrow> table_shape b a (fill_row b a i j t)"
proof (induction j arbitrary: t)
  case (Suc j)
  have "table_shape b a (t[i := (t ! i)[j := cell b a t i j]])"
    using Suc(2,3) by (auto simp: table_shape_def dest!: set_update_subset_insert [THEN subsetD])
  with Suc show ?case by simp
qed simp

lemma fill_row_other: "l \<noteq> i \<Longrightarrow> fill_row b a i j t ! l = t ! l"
  by (induction j arbitrary: t) auto

lemma fill_row_done:
  assumes "length b \<le> DIFF_TOKEN_LIMIT" "i < length b" "j \<le> length a"
    and "table_shape b a t" "row_done b a t (Suc i) 0" "row_done b a t i j"
  shows "row_done b a (fill_row b a i j t) i 0"
  using assms(3-6)
proof (induction j arbitrary: t)
  case (Suc j)
  let ?t = "t[i := (t ! i)[j := cell b a t i j]]"
  have len: "i < length t" "length (t ! i) = length a + 1"
    using Suc.prems assms(2) by (auto simp: table_shape_def)
  have c: "cell b a t i j = of_nat (lcs_at b a i j)"
    using Suc.prems assms(1,2) by (intro cell_correct) auto
  have "row_done b a ?t i j"
    using Suc.prems len c by (auto simp: row_done_def nth_list_update)
  moreover have "row_done b a ?t (Suc i) 0" using Suc.prems by (simp add: row_done_def)
  moreover have "table_shape b a ?t"
    using fill_row_shape [of b a t i "Suc 0"] Suc.prems assms(2)
    by (auto simp: table_shape_def dest!: set_update_subset_insert [THEN subsetD])
  ultimately show ?case using Suc by simp
qed simp

lemma fill_rows_done:
  assumes "length b \<le> DIFF_TOKEN_LIMIT" "i \<le> length b"
    and "table_shape b a t" "rows_done b a t i"
    and "\<forall>l < i. t ! l ! length a = 0"
  shows "rows_done b a (fill_rows b a i t) 0"
  using assms(2-5)
proof (induction i arbitrary: t)
  case (Suc i)
  let ?t = "fill_row b a i (length a) t"
  have "row_done b a t i (length a)"
    using Suc.prems(4) by (auto simp: row_done_def lcs_at_end dest: le_antisym)
  then have "row_done b a ?t i 0"
    using Suc.prems assms(1) by (intro fill_row_done) (auto simp: rows_done_def)
  then have "rows_done b a ?t i"
    using Suc.prems by (auto simp: rows_done_def row_done_def fill_row_other le_Suc_eq
        dest: le_neq_implies_less)
  moreover have "table_shape b a ?t" using Suc.prems by (intro fill_row_shape) auto
  ultimately show ?case using Suc by (simp add: fill_row_other)
qed simp

lemma lcs_table_done:
  assumes "length b \<le> DIFF_TOKEN_LIMIT"
  shows "rows_done b a (lcs_table b a) 0"
  unfolding lcs_table_def
proof (rule fill_rows_done)
  let ?t = "replicate (length b + 1) (replicate (length a + 1) (0 :: 32 word))"
  show "rows_done b a ?t (length b)"
    by (auto simp: rows_done_def row_done_def simp del: replicate.simps replicate_Suc)
  show "\<forall>l < length b. ?t ! l ! length a = 0" by (simp del: replicate.simps replicate_Suc)
qed (use assms in \<open>auto simp: table_shape_def simp del: replicate_Suc\<close>)


section \<open>The walk keeps a longest common subsequence\<close>

text \<open>The walk on the suffixes, with the reference lengths in place of the table.\<close>

fun walk_spec :: "'a list \<Rightarrow> 'a list \<Rightarrow> bool list \<times> bool list" where
  "walk_spec [] ys = ([], replicate (length ys) False)"
| "walk_spec xs [] = (replicate (length xs) False, [])"
| "walk_spec (x # xs) (y # ys) =
     (if x = y then (case walk_spec xs ys of (f, g) \<Rightarrow> (True # f, True # g))
      else if lcs_len (x # xs) ys \<le> lcs_len xs (y # ys)
      then (case walk_spec xs (y # ys) of (f, g) \<Rightarrow> (False # f, g))
      else (case walk_spec (x # xs) ys of (f, g) \<Rightarrow> (f, False # g)))"

definition kept_tokens :: "'a list \<Rightarrow> bool list \<Rightarrow> 'a list" where
  "kept_tokens xs ks = map fst (filter snd (zip xs ks))"

lemma kept_tokens_simps [simp]:
  "kept_tokens [] ks = []" "kept_tokens xs [] = []"
  "kept_tokens (x # xs) (k # ks) = (if k then x # kept_tokens xs ks else kept_tokens xs ks)"
  by (simp_all add: kept_tokens_def)

lemma kept_tokens_none [simp]: "kept_tokens xs (replicate n False) = []"
  by (auto simp: kept_tokens_def filter_empty_conv set_zip)

lemma subseq_kept_tokens: "subseq (kept_tokens xs ks) xs"
proof (induction xs arbitrary: ks)
  case (Cons x xs)
  then show ?case by (cases ks) auto
qed simp

lemma length_kept_tokens:
  "length ks = length xs \<Longrightarrow> length (kept_tokens xs ks) = length (filter id ks)"
proof (induction xs arbitrary: ks)
  case (Cons x xs)
  then show ?case by (cases ks) auto
qed simp

lemma walk_spec_correct:
  "walk_spec xs ys = (f, g) \<Longrightarrow>
     length f = length xs \<and> length g = length ys \<and> kept_tokens xs f = kept_tokens ys g \<and>
     length (kept_tokens xs f) = lcs_len xs ys"
proof (induction xs ys arbitrary: f g rule: walk_spec.induct)
  case (3 x xs y ys)
  then show ?case by (auto split: prod.splits if_splits simp: max_def)
qed auto

lemma walk_spec_end:
  "length xs \<le> i \<or> length ys \<le> j \<Longrightarrow> walk_spec (drop i xs) (drop j ys) =
     (replicate (length xs - i) False, replicate (length ys - j) False)"
  by (cases "drop i xs") (auto simp: drop_eq_Nil2 dest: arg_cong [where f = length])

lemma take_update_Suc: "i < length ks \<Longrightarrow> take (Suc i) (ks[i := v]) = take i ks @ [v]"
  by (simp add: take_Suc_conv_app_nth)

lemma take_False_Suc:
  "drop i ks = replicate (n - i) False \<Longrightarrow> i < n \<Longrightarrow> length ks = n \<Longrightarrow>
     take (Suc i) ks = take i ks @ [False] \<and> drop (Suc i) ks = replicate (n - Suc i) False"
proof -
  assume a: "drop i ks = replicate (n - i) False" "i < n" "length ks = n"
  then have "ks ! i # drop (Suc i) ks = False # replicate (n - Suc i) False"
    by (simp add: Cons_nth_drop_Suc flip: replicate_Suc Suc_diff_Suc)
  with a show ?thesis by (simp add: take_Suc_conv_app_nth)
qed

lemma walk_correct:
  "rows_done b a t 0 \<Longrightarrow> length b \<le> DIFF_TOKEN_LIMIT \<Longrightarrow> i \<le> length b \<Longrightarrow> j \<le> length a \<Longrightarrow> length kb = length b \<Longrightarrow> length ka = length a \<Longrightarrow>
    drop i kb = replicate (length b - i) False \<Longrightarrow> drop j ka = replicate (length a - j) False \<Longrightarrow>
    walk b a t i j kb ka =
      (case walk_spec (drop i b) (drop j a) of (f, g) \<Rightarrow> (take i kb @ f, take j ka @ g))"
proof (induction b a t i j kb ka rule: walk.induct)
  case (1 b a t i j kb ka)
  note t = "1.prems"(1,2)
  show ?case
  proof (cases "i < length b \<and> j < length a")
    case False
    then have "walk_spec (drop i b) (drop j a) = (drop i kb, drop j ka)"
      using "1.prems" by (simp add: walk_spec_end not_less)
    moreover have "walk b a t i j kb ka = (kb, ka)"
      by (subst walk.simps) (simp only: False if_False)
    ultimately show ?thesis by simp
  next
    case True
    have spec: "walk_spec (drop i b) (drop j a) =
        (if b ! i = a ! j
         then (case walk_spec (drop (Suc i) b) (drop (Suc j) a) of (f, g) \<Rightarrow> (True # f, True # g))
         else if lcs_at b a i (Suc j) \<le> lcs_at b a (Suc i) j
         then (case walk_spec (drop (Suc i) b) (drop j a) of (f, g) \<Rightarrow> (False # f, g))
         else (case walk_spec (drop i b) (drop (Suc j) a) of (f, g) \<Rightarrow> (f, False # g)))"
      using True by (simp add: Cons_nth_drop_Suc [symmetric])
    have le: "t ! i ! Suc j \<le> t ! Suc i ! j \<longleftrightarrow> lcs_at b a i (Suc j) \<le> lcs_at b a (Suc i) j"
    proof -
      have "t ! i ! Suc j = of_nat (lcs_at b a i (Suc j))" "t ! Suc i ! j = of_nat (lcs_at b a (Suc i) j)"
        using True t(1) by (auto simp: rows_done_def row_done_def)
      then show ?thesis using unat_lcs_at [OF t(2)] by (simp only: word_le_nat_alt)
    qed
    have kb: "take (Suc i) kb = take i kb @ [False]" "drop (Suc i) kb = replicate (length b - Suc i) False"
      and ka: "take (Suc j) ka = take j ka @ [False]" "drop (Suc j) ka = replicate (length a - Suc j) False"
      using True "1.prems" take_False_Suc [of i kb "length b"] take_False_Suc [of j ka "length a"] by auto
    show ?thesis
    proof (cases "b ! i = a ! j")
      case eq: True
      have "walk b a t i j kb ka = walk b a t (Suc i) (Suc j) (kb[i := True]) (ka[j := True])"
        using True eq by (simp add: walk.simps [of b a t i j])
      also have "\<dots> = (case walk_spec (drop (Suc i) b) (drop (Suc j) a) of (f, g) \<Rightarrow>
          (take (Suc i) (kb[i := True]) @ f, take (Suc j) (ka[j := True]) @ g))"
        using "1.prems" True eq kb ka by (intro "1.IH"(1)) auto
      finally show ?thesis
        using True eq "1.prems" by (simp add: spec take_update_Suc split: prod.split)
    next
      case ne: False
      show ?thesis
      proof (cases "t ! i ! Suc j \<le> t ! Suc i ! j")
        case down: True
        have "walk b a t i j kb ka = walk b a t (Suc i) j kb ka"
          using True ne down by (simp add: walk.simps [of b a t i j])
        also have "\<dots> = (case walk_spec (drop (Suc i) b) (drop j a) of (f, g) \<Rightarrow>
            (take (Suc i) kb @ f, take j ka @ g))"
          using "1.prems" True ne down kb by (intro "1.IH"(2)) auto
        finally show ?thesis using ne down by (simp add: spec le kb split: prod.split)
      next
        case right: False
        have "walk b a t i j kb ka = walk b a t i (Suc j) kb ka"
          using True ne right by (simp add: walk.simps [of b a t i j])
        also have "\<dots> = (case walk_spec (drop i b) (drop (Suc j) a) of (f, g) \<Rightarrow>
            (take i kb @ f, take (Suc j) ka @ g))"
          using "1.prems" True ne right ka by (intro "1.IH"(3)) auto
        finally show ?thesis using ne right by (simp add: spec le ka split: prod.split)
      qed
    qed
  qed
qed

lemma commonTokens_walk_spec:
  "length b \<le> DIFF_TOKEN_LIMIT \<Longrightarrow> length a \<le> DIFF_TOKEN_LIMIT \<Longrightarrow>
     commonTokens b a = Some (walk_spec b a)"
  using walk_correct [of b a "lcs_table b a" 0 0 "replicate (length b) False" "replicate (length a) False"]
    lcs_table_done [of b a]
  by (simp add: commonTokens_def not_less split: prod.split)

text \<open>C3.  \<open>commonTokens\<close> is a correct diff.  It gives up (\<open>null\<close>) exactly when a side has more
  than 400 tokens.  Otherwise the flags have the lengths of the two sides, the tokens they
  keep are one and the same sequence, and no common subsequence of the two sides is longer:
  the typed-array table does not overflow and the walk through it loses nothing.\<close>

theorem commonTokens_longest:
  "(commonTokens b a = None \<longleftrightarrow> 400 < length b \<or> 400 < length a) \<and>
   (commonTokens b a = Some (kb, ka) \<longrightarrow>
      length kb = length b \<and> length ka = length a \<and>
      kept_tokens b kb = kept_tokens a ka \<and>
      (\<forall>zs. subseq zs b \<and> subseq zs a \<longrightarrow> length zs \<le> length (kept_tokens b kb)))"
proof -
  have "commonTokens b a = None \<longleftrightarrow> 400 < length b \<or> 400 < length a"
    by (auto simp: commonTokens_def DIFF_TOKEN_LIMIT_def)
  moreover have "length kb = length b \<and> length ka = length a \<and>
      kept_tokens b kb = kept_tokens a ka \<and>
      (\<forall>zs. subseq zs b \<and> subseq zs a \<longrightarrow> length zs \<le> length (kept_tokens b kb))"
    if "commonTokens b a = Some (kb, ka)"
  proof -
    have "length b \<le> DIFF_TOKEN_LIMIT" "length a \<le> DIFF_TOKEN_LIMIT"
      using that by (auto simp: commonTokens_def not_less split: if_splits)
    with that have "walk_spec b a = (kb, ka)" by (simp add: commonTokens_walk_spec)
    then show ?thesis using walk_spec_correct lcs_len_optimal by metis
  qed
  ultimately show ?thesis by blast
qed

theorem commonTokens_longest_witness:
  "kept_tokens [1, 2, 3, 4 :: nat] [False, True, False, True] = kept_tokens [2, 5, 4] [True, False, True]"
proof -
  have c: "commonTokens [1, 2, 3, 4 :: nat] [2, 5, 4] = Some ([False, True, False, True], [True, False, True])"
    by (subst commonTokens_walk_spec) (simp_all add: DIFF_TOKEN_LIMIT_def)
  show ?thesis using commonTokens_longest [of "[1, 2, 3, 4 :: nat]" "[2, 5, 4]"
      "[False, True, False, True]" "[True, False, True]"] c by blast
qed

end
