(* ===== verification/CleanupView.thy ===== *)
theory CleanupView
  imports Shell WordDiff
begin

text \<open>
  How \<open>app/webui/app.js\<close> shows a transcript correction: \<open>paintDiff\<close>, \<open>paintComparison\<close>,
  \<open>renderCleanupComparison\<close>, \<open>describeCleanup\<close> with its table of advice, and the try-it box
  (\<open>runCleanupPreview\<close>), whose request is split at its \<open>await\<close> into a start and a finish.
  The children of an element that is painted are a list of text nodes and marked spans.
\<close>

section \<open>State\<close>

datatype piece = TextNode jsstring | MarkSpan jsstring jsstring

fun piece_text :: "piece \<Rightarrow> jsstring" where
  "piece_text (TextNode s) = s"
| "piece_text (MarkSpan c s) = s"

fun is_mark :: "piece \<Rightarrow> bool" where
  "is_mark (TextNode s) = False"
| "is_mark (MarkSpan c s) = True"

record view_page = shell_page +
  kids :: "jsstring \<Rightarrow> piece list"

definition set_kids :: "jsstring \<Rightarrow> piece list \<Rightarrow> 'a view_page_scheme \<Rightarrow> 'a view_page_scheme" where
  [page_defs]: "set_kids i ps p = p\<lparr>kids := (kids p)(i := ps)\<rparr>"

text \<open>\<open>el.textContent = s\<close> and reading \<open>el.textContent\<close>, for an element with painted children.\<close>

definition plain :: "jsstring \<Rightarrow> piece list" where
  "plain s = (if s = [] then [] else [TextNode s])"

definition pieces_text :: "piece list \<Rightarrow> jsstring" where
  "pieces_text ps = concat (map piece_text ps)"

definition node_text :: "'a view_page_scheme \<Rightarrow> jsstring \<Rightarrow> jsstring" where
  "node_text p i = pieces_text (kids p i)"

section \<open>Painting\<close>

definition paintDiff :: "jsstring list \<Rightarrow> bool list option \<Rightarrow> jsstring \<Rightarrow> piece list" where
  "paintDiff tokens kept markClass =
     map (\<lambda>(index, token).
            if (case kept of None \<Rightarrow> False | Some ks \<Rightarrow> \<not> ks ! index)
            then MarkSpan markClass token else TextNode token)
       (enumerate 0 tokens)"

text \<open>The nodes of the corrected text, those of the plain one, and the number of edits.\<close>

definition paintComparison :: "jsstring \<Rightarrow> jsstring \<Rightarrow> piece list \<times> piece list \<times> nat" where
  "paintComparison before after =
     (let beforeTokens = tokenize before;
          afterTokens = tokenize after;
          kept = commonTokens (map trim beforeTokens) (map trim afterTokens)
      in (paintDiff afterTokens (map_option snd kept) (js ''diff-add''),
          paintDiff beforeTokens (map_option fst kept) (js ''diff-remove''),
          (case kept of None \<Rightarrow> 0 | Some (kb, ka) \<Rightarrow> length (filter (\<lambda>survived. \<not> survived) ka))))"

section \<open>Describing the outcome\<close>

definition CLEANUP_ADVICE :: "(jsstring \<times> jsstring) list" where
  "CLEANUP_ADVICE =
    [(js ''unsupported_language'',
      js ''Cleanup needs to know the language. Pick one above instead of '' @ [0x201C]
      @ js ''Detect language'' @ [0x201D] @ js '', or set one on the Cleanup tab under '' @ [0x201C]
      @ js ''When language is auto'' @ [0x201D] @ js ''.''),
     (js ''model_unavailable'',
      js ''No cleanup model is loaded. Download one on the Cleanup tab.''),
     (js ''model_loading'',
      js ''The cleanup model is still loading. Try again in a moment.''),
     (js ''busy'',
      js ''Another correction was already running. The transcript is fine, just uncorrected.''),
     (js ''timeout'',
      js ''The correction ran out of time. Raise the time limit in Settings, or warm the model.''),
     (js ''input_too_long'',
      js ''The transcript is larger than cleanup will accept. Ordinary long dictations are split and corrected in pieces; this one was refused whole.''),
     (js ''unsafe_edit'',
      js ''The model'' @ [0x2019] @ js ''s answer changed something it should not have '' @ [0x2014]
      @ js '' a number, a name, or a negation '' @ [0x2014]
      @ js '' so it was thrown away and the plain transcript kept.''),
     (js ''invalid_output'',
      js ''The model answered with something unusable, so the plain transcript was kept.''),
     (js ''context_too_small'',
      js ''The cleanup server'' @ [0x2019]
      @ js ''s context window is too small. Restart it with a larger --ctx-size.''),
     (js ''raw_style'', js ''Raw style is never corrected, by design.''),
     (js ''empty_input'', js ''There was nothing to correct.''),
     (js ''runtime_error'', js ''The cleanup runtime failed. Check the Cleanup tab for the reason.'')]"

text \<open>The reason is one of the gateway's codes; the names \<open>Object.prototype\<close> would answer to are
  not among them.\<close>

definition describeCleanup :: "jsval \<Rightarrow> nat \<Rightarrow> jsstring" where
  "describeCleanup cleanup edits =
     (let status = own cleanup (js ''status''); reason = own cleanup (js ''reason'')
      in if \<not> truthy cleanup then []
         else if status = Str (js ''applied'') then
           (if edits = 1 then js ''Cleanup changed 1 word.''
            else js ''Cleanup changed '' @ js_nat edits @ js '' words.'')
         else if status = Str (js ''unchanged'') then
           js ''Cleanup ran and found nothing to change '' @ [0x2014]
           @ js '' the transcript was already correct.''
         else if status = Str (js ''disabled'') then js ''Cleanup is off for this run.''
         else case map_of CLEANUP_ADVICE (to_text reason) of
             Some advice \<Rightarrow> js ''Cleanup did not run. '' @ advice
           | None \<Rightarrow>
               js ''Cleanup did not run ('' @ replace_all {95} (js '' '') (to_text (js_or reason status))
               @ js '').'')"

text \<open>\<open>payload.k || ""\<close>.  The comparison throws unless both sides are texts: only a text has the method
  \<open>match\<close> that \<open>tokenize\<close> calls, and both sides are split before anything is painted.\<close>

definition or_empty :: "jsval \<Rightarrow> string \<Rightarrow> jsval" where
  "or_empty payload k = js_or (own payload (js k)) (Str [])"

definition compare_values :: "jsval \<Rightarrow> jsval \<Rightarrow> (piece list \<times> piece list \<times> nat) result" where
  "compare_values before after =
     (case (before, after) of
        (Str b, Str a) \<Rightarrow> Inr (paintComparison b a)
      | _ \<Rightarrow> Inl TypeError)"

text \<open>\<open>renderCleanupComparison\<close>: the page it leaves and the exception it throws, if it throws.\<close>

definition show_outcome :: "bool \<Rightarrow> jsval \<Rightarrow> nat \<Rightarrow> 'a view_page_scheme \<Rightarrow> 'a view_page_scheme" where
  "show_outcome changed cleanup edits p =
     (let p1 = upd_el (js ''test-original-block'') (class_toggle (js ''hidden'') (\<not> changed)) p;
          line = describeCleanup cleanup edits
      in upd_el (js ''test-cleanup-status'')
           (\<lambda>e. class_toggle (js ''hidden'') (line = []) (set_text line e)) p1)"

definition renderCleanupComparison :: "jsval \<Rightarrow> 'a view_page_scheme \<Rightarrow> 'a view_page_scheme \<times> exn option" where
  "renderCleanupComparison payload p =
     (if get_el p (js ''test-original-block'') = None \<or> get_el p (js ''test-original'') = None
         \<or> get_el p (js ''test-cleanup-status'') = None \<or> get_el p (js ''test-transcript'') = None
      then (p, None)
      else if nullish payload then (p, Some TypeError)
      else
        let cleanup = own payload (js ''cleanup'');
            before = or_empty payload ''original_transcript'';
            after = or_empty payload ''transcript'';
            changed = (truthy cleanup \<and> truthy before \<and> \<not> strictly_equal before after)
        in if changed then
             (case compare_values before after of
                Inl e \<Rightarrow> (p, Some e)
              | Inr (ta, tb, edits) \<Rightarrow>
                  (show_outcome True cleanup edits
                     (set_kids (js ''test-original'') tb (set_kids (js ''test-transcript'') ta p)), None))
           else (show_outcome False cleanup 0 p, None))"

section \<open>The try-it box\<close>

definition CLEANUP_SAMPLE :: jsstring where
  "CLEANUP_SAMPLE =
     js ''so i told the team we cant ship on friday because the api isnt ready and we still need to review the migration''"

text \<open>\<open>JSON.stringify\<close> of an object literal, given the printed values of its fields.\<close>

fun json_fields :: "(jsstring \<times> jsstring) list \<Rightarrow> jsstring" where
  "json_fields [] = []"
| "json_fields [(k, v)] = json_quote k @ js '':'' @ v"
| "json_fields ((k, v) # fs) = json_quote k @ js '':'' @ v @ js '','' @ json_fields fs"

definition json_object :: "(jsstring \<times> jsstring) list \<Rightarrow> jsstring" where
  "json_object fs = js ''{'' @ json_fields fs @ js ''}''"

text \<open>A reply of \<open>fetch\<close>: its status and what \<open>response.json()\<close> gives.  \<open>Inl\<close> is a request that
  got no reply.\<close>

record reply =
  rp_status :: nat
  rp_json :: "jsval result"

definition rp_ok :: "reply \<Rightarrow> bool" where
  "rp_ok r \<longleftrightarrow> 200 \<le> rp_status r \<and> rp_status r \<le> 299"

definition preview_request :: "jsstring \<Rightarrow> 'a page_scheme \<Rightarrow> request" where
  "preview_request str p =
     Fetch (js ''POST'') (js ''/v1/admin/cleanup/preview'')
       [(js ''Authorization'', bearer p), (js ''Content-Type'', js ''application/json'')]
       (Some (json_object
         [(js ''text'', json_quote str),
          (js ''language'', json_quote
             (case get_el p (js ''cleanup-try-language'') of
                Some l \<Rightarrow> el_value l | None \<Rightarrow> js ''en''))]))"

definition requestCleanupPreview :: "reply result \<Rightarrow> jsval result" where
  "requestCleanupPreview outcome =
     (case outcome of
        Inl e \<Rightarrow> Inl e
      | Inr r \<Rightarrow>
          if \<not> rp_ok r then Inl (Thrown (js ''The gateway could not run that correction.''))
          else rp_json r)"

definition try_ids :: "jsstring list" where
  "try_ids = [js ''cleanup-try-input'', js ''cleanup-try-result'', js ''cleanup-try-error'',
     js ''cleanup-try-run'']"

text \<open>Up to the \<open>await\<close>: the flag says that a request was sent.\<close>

definition runCleanupPreview_start :: "'a view_page_scheme \<Rightarrow> bool \<times> 'a view_page_scheme" where
  "runCleanupPreview_start p =
     (if \<exists>i \<in> set try_ids. get_el p i = None then (False, p)
      else
        let str = trim (case get_el p (js ''cleanup-try-input'') of Some e \<Rightarrow> el_value e | None \<Rightarrow> [])
        in if str = [] then (False, set_focus (ById (js ''cleanup-try-input'')) p)
           else
             let p1 = upd_el (js ''cleanup-try-run'')
                        (\<lambda>e. set_text (js ''Correcting'' @ [0x2026]) (set_disabled True e)) p
             in (True, send (preview_request str p1) p1))"

text \<open>\<open>paintPreview\<close>: the page it leaves and the exception it throws, if it throws.
  \<open>textContent = null\<close> empties the element, and so does \<open>undefined\<close>.\<close>

definition content_of :: "jsval \<Rightarrow> jsstring" where
  "content_of v = (if nullish v then [] else to_text v)"

definition paintPreview :: "jsval \<Rightarrow> 'a view_page_scheme \<Rightarrow> 'a view_page_scheme \<times> exn option" where
  "paintPreview payload p =
     (if nullish payload then (p, Some TypeError)
      else
        let baseline = own payload (js ''without_cleanup'');
            transcript = own payload (js ''transcript'');
            changed = (\<not> strictly_equal baseline transcript)
        in case (if changed then compare_values baseline transcript
                 else Inr (plain (content_of transcript), plain (content_of baseline), 0)) of
             Inl e \<Rightarrow> (p, Some e)
           | Inr (ta, tb, edits) \<Rightarrow>
               if get_el p (js ''cleanup-try-after'') = None then (p, Some TypeError)
               else
                 let p1 = set_kids (js ''cleanup-try-after'') ta p
                 in if get_el p (js ''cleanup-try-before'') = None then (p1, Some TypeError)
                    else
                      let p2 = set_kids (js ''cleanup-try-before'') tb p1
                      in if get_el p (js ''cleanup-try-status'') = None then (p2, Some TypeError)
                         else (upd_el (js ''cleanup-try-status'')
                                (set_text (describeCleanup (own payload (js ''cleanup'')) edits)) p2, None))"

text \<open>\<open>String(error.message || error)\<close>; \<open>msg\<close> gives the engine's messages.\<close>

definition error_text :: "(exn \<Rightarrow> jsstring) \<Rightarrow> exn \<Rightarrow> jsstring" where
  "error_text msg e = (case e of Thrown m \<Rightarrow> str_or m (js ''Error'') | _ \<Rightarrow> msg e)"

definition preview_success :: "'a view_page_scheme \<Rightarrow> 'a view_page_scheme" where
  "preview_success p =
     upd_el (js ''cleanup-try-error'') (class_add (js ''hidden''))
       (upd_el (js ''cleanup-try-result'') (class_remove (js ''hidden'')) p)"

definition preview_failure :: "jsstring \<Rightarrow> 'a view_page_scheme \<Rightarrow> 'a view_page_scheme" where
  "preview_failure m p =
     upd_el (js ''cleanup-try-result'') (class_add (js ''hidden''))
       (upd_el (js ''cleanup-try-error'') (\<lambda>e. class_remove (js ''hidden'') (set_text m e)) p)"

text \<open>From the reply on, \<open>finally\<close> included.\<close>

definition runCleanupPreview_finish ::
    "(exn \<Rightarrow> jsstring) \<Rightarrow> reply result \<Rightarrow> 'a view_page_scheme \<Rightarrow> 'a view_page_scheme" where
  "runCleanupPreview_finish msg outcome p =
     (let p1 = (case requestCleanupPreview outcome of
            Inl e \<Rightarrow> preview_failure (error_text msg e) p
          | Inr payload \<Rightarrow>
              (case paintPreview payload p of
                 (q, None) \<Rightarrow> preview_success q
               | (q, Some e) \<Rightarrow> preview_failure (error_text msg e) q))
      in upd_el (js ''cleanup-try-run'')
           (\<lambda>e. set_text (js ''Correct this text'') (set_disabled False e)) p1)"

text \<open>The click listener, by the target's id.  A disabled button gets no clicks.\<close>

definition preview_click :: "jsstring \<Rightarrow> 'a view_page_scheme \<Rightarrow> bool \<times> 'a view_page_scheme" where
  "preview_click target p =
     (let (asked, p1) = (if target = js ''cleanup-try-run'' then runCleanupPreview_start p else (False, p))
      in if target = js ''cleanup-try-sample'' \<and> get_el p1 (js ''cleanup-try-input'') \<noteq> None
         then (asked, set_focus (ById (js ''cleanup-try-input''))
                (upd_el (js ''cleanup-try-input'') (set_value CLEANUP_SAMPLE) p1))
         else (asked, p1))"

section \<open>What is painted\<close>

definition marked :: "piece list \<Rightarrow> jsstring list" where
  "marked ps = map piece_text (filter is_mark ps)"

definition unmarked :: "piece list \<Rightarrow> jsstring list" where
  "unmarked ps = map piece_text (filter (\<lambda>q. \<not> is_mark q) ps)"

lemma paintDiff_Nil [simp]: "paintDiff [] ks c = []"
  by (simp add: paintDiff_def)

lemma paintDiff_None: "paintDiff ts None c = map TextNode ts"
proof -
  have "map (\<lambda>(i, token). TextNode token) (enumerate n ts) = map TextNode ts" for n
    by (induction ts arbitrary: n) auto
  then show ?thesis by (simp add: paintDiff_def)
qed

lemma paintDiff_Some_from:
  "length ks = length ts \<Longrightarrow>
     map (\<lambda>(i, token). if \<not> (pre @ ks) ! i then MarkSpan c token else TextNode token)
       (enumerate (length pre) ts) =
     map2 (\<lambda>token k. if k then TextNode token else MarkSpan c token) ts ks"
proof (induction ts arbitrary: pre ks)
  case (Cons t ts)
  then obtain k ks' where ks: "ks = k # ks'" by (cases ks) auto
  with Cons.prems Cons.IH [of ks' "pre @ [k]"] show ?case by (simp add: nth_append)
qed simp

lemma paintDiff_Some:
  "length ks = length ts \<Longrightarrow>
     paintDiff ts (Some ks) c =
       map2 (\<lambda>token k. if k then TextNode token else MarkSpan c token) ts ks"
  using paintDiff_Some_from [of ks ts "[]" c] by (simp add: paintDiff_def)

lemma pieces_text_paintDiff:
  "length k = length ts \<Longrightarrow> pieces_text (paintDiff ts (Some k) c) = concat ts"
  unfolding pieces_text_def
  by (induction k ts rule: list_induct2) (auto simp: paintDiff_Some)

lemma marked_paintDiff:
  "length k = length ts \<Longrightarrow> length (marked (paintDiff ts (Some k) c)) = length (filter (\<lambda>b. \<not> b) k)"
  unfolding paintDiff_Some marked_def
  by (induction k ts rule: list_induct2) (auto simp: paintDiff_Some)

lemma unmarked_paintDiff:
  "length k = length ts \<Longrightarrow> map f (unmarked (paintDiff ts (Some k) c)) = kept_tokens (map f ts) k"
  unfolding unmarked_def
  by (induction k ts rule: list_induct2) (auto simp: paintDiff_Some)

lemma marked_none: "marked (map TextNode ts) = []"
  by (simp add: marked_def filter_empty_conv)

lemma walk_spec_same: "walk_spec xs xs = (replicate (length xs) True, replicate (length xs) True)"
  by (induction xs) auto

definition over_limit :: "jsstring \<Rightarrow> jsstring \<Rightarrow> bool" where
  "over_limit before after \<longleftrightarrow>
     DIFF_TOKEN_LIMIT < length (tokenize before) \<or> DIFF_TOKEN_LIMIT < length (tokenize after)"

lemma paintComparison_over:
  "over_limit before after \<Longrightarrow>
     paintComparison before after =
       (map TextNode (tokenize after), map TextNode (tokenize before), 0)"
  by (auto simp: paintComparison_def over_limit_def commonTokens_def Let_def paintDiff_None)

lemma paintComparison_diff:
  assumes "\<not> over_limit before after"
  obtains kb ka where
    "walk_spec (map trim (tokenize before)) (map trim (tokenize after)) = (kb, ka)"
    "length kb = length (tokenize before)" "length ka = length (tokenize after)"
    "kept_tokens (map trim (tokenize before)) kb = kept_tokens (map trim (tokenize after)) ka"
    "paintComparison before after =
       (paintDiff (tokenize after) (Some ka) (js ''diff-add''),
        paintDiff (tokenize before) (Some kb) (js ''diff-remove''), length (filter (\<lambda>b. \<not> b) ka))"
proof -
  obtain kb ka where w: "walk_spec (map trim (tokenize before)) (map trim (tokenize after)) = (kb, ka)"
    by (cases "walk_spec (map trim (tokenize before)) (map trim (tokenize after))")
  have "commonTokens (map trim (tokenize before)) (map trim (tokenize after)) = Some (kb, ka)"
    using assms w by (simp add: commonTokens_walk_spec over_limit_def not_less)
  then show thesis
    using that [OF w] walk_spec_correct [OF w] by (simp add: paintComparison_def Let_def)
qed

text \<open>C4.  The two painted paragraphs spell the two texts, up to leading white space, whatever the
  texts contain.  Within the limit of 400 words the words left unmarked are the same sequence
  on both sides and the number reported is the number of marked words of the corrected text;
  beyond it nothing is marked and the number is 0.\<close>

theorem comparison_shows_both_texts:
  assumes "paintComparison before after = (ta, tb, n)"
  shows "pieces_text ta = trim_start after \<and> pieces_text tb = trim_start before \<and>
    (if over_limit before after then marked ta = [] \<and> marked tb = [] \<and> n = 0
     else map trim (unmarked ta) = map trim (unmarked tb) \<and> n = length (marked ta))"
proof (cases "over_limit before after")
  case True
  with assms have "ta = map TextNode (tokenize after)" "tb = map TextNode (tokenize before)" "n = 0"
    by (simp_all add: paintComparison_over)
  with True show ?thesis
    by (simp add: marked_none pieces_text_def comp_def concat_tokenize trim_start_def)
next
  case False
  obtain kb ka where k: "length kb = length (tokenize before)" "length ka = length (tokenize after)"
    "kept_tokens (map trim (tokenize before)) kb = kept_tokens (map trim (tokenize after)) ka"
    and eq: "paintComparison before after =
       (paintDiff (tokenize after) (Some ka) (js ''diff-add''),
        paintDiff (tokenize before) (Some kb) (js ''diff-remove''), length (filter (\<lambda>b. \<not> b) ka))"
    using paintComparison_diff [OF False] by metis
  from eq assms have "ta = paintDiff (tokenize after) (Some ka) (js ''diff-add'')"
    "tb = paintDiff (tokenize before) (Some kb) (js ''diff-remove'')"
    "n = length (filter (\<lambda>b. \<not> b) ka)" by simp_all
  with False k show ?thesis
    by (simp add: marked_paintDiff unmarked_paintDiff pieces_text_paintDiff concat_tokenize trim_start_def)
qed

theorem comparison_shows_both_texts_witness:
  "\<exists>ta tb. paintComparison (js ''cant ship friday'') (js ''can't ship Friday'') = (ta, tb, 2) \<and>
     pieces_text ta = js ''can't ship Friday'' \<and> length (marked ta) = 2"
proof -
  let ?b = "js ''cant ship friday''" and ?a = "js ''can't ship Friday''"
  have tb: "map trim (tokenize ?b) = [js ''cant'', js ''ship'', js ''friday'']" "length (tokenize ?b) = 3"
    and ta: "map trim (tokenize ?a) = [js ''can't'', js ''ship'', js ''Friday'']" "length (tokenize ?a) = 3"
    by (simp_all add: js_defs tokenize.simps)
  have eq: "fst (snd (paintComparison ?b ?a)) = fst (snd (paintComparison ?b ?a))
      \<and> snd (snd (paintComparison ?b ?a)) = 2"
    using ta(2) tb(2)
    by (simp add: paintComparison_def Let_def tb(1) ta(1) commonTokens_walk_spec DIFF_TOKEN_LIMIT_def js_eq_iff)
  then obtain xa xb where p: "paintComparison ?b ?a = (xa, xb, 2)"
    by (metis prod.collapse)
  have o: "\<not> over_limit ?b ?a" using ta(2) tb(2) by (simp add: over_limit_def DIFF_TOKEN_LIMIT_def)
  have t: "trim_start ?a = ?a" by (simp add: js_defs)
  from comparison_shows_both_texts [OF p] o t p show ?thesis by (metis (full_types))
qed

lemma own_Str_truthy: "own v k = Str s \<Longrightarrow> truthy v"
  by (cases v) (simp_all add: own_def)

lemma or_empty_Str: "own payload (js k) = Str s \<Longrightarrow> or_empty payload k = Str s"
  by (simp add: or_empty_def js_or_def)

text \<open>C12.  The count can mislead: whenever the gateway reports an applied correction, whatever else its
  cleanup result holds, and the two texts differ in spacing only or one of them has more than 400
  words, the comparison is painted without an exception and the status line reads
  "Cleanup changed 0 words.".\<close>

theorem applied_reads_zero_words:
  assumes "over_limit before after \<or> map trim (tokenize before) = map trim (tokenize after)"
    and "own (own payload (js ''cleanup'')) (js ''status'') = Str (js ''applied'')"
    and "own payload (js ''original_transcript'') = Str before"
    and "own payload (js ''transcript'') = Str after"
    and "\<forall>i \<in> {js ''test-original-block'', js ''test-original'', js ''test-cleanup-status'',
           js ''test-transcript''}. get_el p i \<noteq> None"
    and "before \<noteq> []" "before \<noteq> after"
  shows "snd (renderCleanupComparison payload p) = None \<and>
    (\<exists>e. get_el (fst (renderCleanupComparison payload p)) (js ''test-cleanup-status'') = Some e \<and>
       el_text e = js ''Cleanup changed 0 words.'' \<and> \<not> has_class (js ''hidden'') e)"
proof -
  have n: "\<exists>ta tb. paintComparison before after = (ta, tb, 0)"
  proof (cases "over_limit before after")
    case True
    then show ?thesis by (simp add: paintComparison_over)
  next
    case False
    with assms(1) have same: "map trim (tokenize before) = map trim (tokenize after)" by blast
    with False show ?thesis
      by (simp add: paintComparison_def over_limit_def not_less commonTokens_walk_spec walk_spec_same Let_def)
  qed
  let ?c = "own payload (js ''cleanup'')"
  have t: "truthy ?c" using assms(2) by (rule own_Str_truthy)
  have d: "describeCleanup ?c 0 = js ''Cleanup changed 0 words.''"
    using t assms(2) by (simp add: describeCleanup_def js_defs)
  have p: "\<not> nullish payload" using own_Str_truthy [OF assms(3)] by (auto simp: nullish_def)
  note f = or_empty_Str [OF assms(3)] or_empty_Str [OF assms(4)]
  from n obtain ta tb where "paintComparison before after = (ta, tb, 0)" by blast
  then have "renderCleanupComparison payload p =
      (show_outcome True ?c 0 (set_kids (js ''test-original'') tb (set_kids (js ''test-transcript'') ta p)), None)"
    using assms(5-7) t p by (auto simp: renderCleanupComparison_def f compare_values_def)
  moreover obtain e where "get_el p (js ''test-cleanup-status'') = Some e" using assms(5) by auto
  ultimately show ?thesis by (simp add: show_outcome_def d page_defs js_eq_iff)
qed

section \<open>The try-it box\<close>

lemma paintPreview_keeps:
  "get_el (fst (paintPreview payload p)) i =
     (if i = js ''cleanup-try-status'' then get_el (fst (paintPreview payload p)) i else get_el p i)"
  by (auto simp: paintPreview_def Let_def page_defs split: prod.splits sum.splits)

definition is_shown :: "'a page_scheme \<Rightarrow> jsstring \<Rightarrow> bool" where
  "is_shown p i \<longleftrightarrow> (case get_el p i of Some e \<Rightarrow> \<not> has_class (js ''hidden'') e | None \<Rightarrow> False)"

lemma preview_success_shows:
  "get_el p (js ''cleanup-try-result'') \<noteq> None \<Longrightarrow> get_el p (js ''cleanup-try-error'') \<noteq> None \<Longrightarrow>
     is_shown (preview_success p) (js ''cleanup-try-result'') \<and>
     \<not> is_shown (preview_success p) (js ''cleanup-try-error'') \<and>
     get_el (preview_success p) (js ''cleanup-try-run'') = get_el p (js ''cleanup-try-run'')"
  by (auto simp: preview_success_def is_shown_def page_defs js_eq_iff)

lemma preview_failure_shows:
  "get_el p (js ''cleanup-try-result'') \<noteq> None \<Longrightarrow> get_el p (js ''cleanup-try-error'') = Some e \<Longrightarrow>
     \<not> is_shown (preview_failure m p) (js ''cleanup-try-result'') \<and>
     is_shown (preview_failure m p) (js ''cleanup-try-error'') \<and>
     get_el (preview_failure m p) (js ''cleanup-try-error'') =
       Some (class_remove (js ''hidden'') (set_text m e)) \<and>
     get_el (preview_failure m p) (js ''cleanup-try-run'') = get_el p (js ''cleanup-try-run'')"
  by (auto simp: preview_failure_def is_shown_def page_defs js_eq_iff)

text \<open>The exception that reaches the \<open>catch\<close> block, if one does, and the page at that point.\<close>

definition preview_outcome ::
    "reply result \<Rightarrow> 'a view_page_scheme \<Rightarrow> 'a view_page_scheme \<times> exn option" where
  "preview_outcome outcome p =
     (case requestCleanupPreview outcome of Inl e \<Rightarrow> (p, Some e) | Inr payload \<Rightarrow> paintPreview payload p)"

lemma preview_outcome_keeps:
  "i \<noteq> js ''cleanup-try-status'' \<Longrightarrow> get_el (fst (preview_outcome outcome p)) i = get_el p i"
  using paintPreview_keeps [of _ p i] by (auto simp: preview_outcome_def split: sum.split)

lemma runCleanupPreview_finish_eq:
  "runCleanupPreview_finish msg outcome p =
     upd_el (js ''cleanup-try-run'') (\<lambda>e. set_text (js ''Correct this text'') (set_disabled False e))
       (case preview_outcome outcome p of
          (q, None) \<Rightarrow> preview_success q
        | (q, Some e) \<Rightarrow> preview_failure (error_text msg e) q)"
  by (auto simp: runCleanupPreview_finish_def preview_outcome_def split: sum.split)

lemma is_shown_upd_other: "i \<noteq> j \<Longrightarrow> is_shown (upd_el j f p) i = is_shown p i"
  by (simp add: is_shown_def)

text \<open>C11.  However the request ends (no reply, an error status, a body that is no JSON, a payload that
  cannot be painted), the button is enabled again with its label, and exactly one of the result
  and the error box is shown: the result if nothing was thrown, otherwise the error box with the
  thrown message.\<close>

theorem preview_always_recovers:
  assumes "\<forall>i \<in> set try_ids. get_el p i \<noteq> None"
  shows "let q = runCleanupPreview_finish msg outcome p; thrown = snd (preview_outcome outcome p) in
    (\<exists>b. get_el q (js ''cleanup-try-run'') = Some b \<and> \<not> el_disabled b \<and>
       el_text b = js ''Correct this text'') \<and>
    (is_shown q (js ''cleanup-try-result'') \<longleftrightarrow> thrown = None) \<and>
    (is_shown q (js ''cleanup-try-error'') \<longleftrightarrow> thrown \<noteq> None) \<and>
    (\<forall>x. thrown = Some x \<longrightarrow>
       map_option el_text (get_el q (js ''cleanup-try-error'')) = Some (error_text msg x))"
proof -
  obtain r t where rt: "preview_outcome outcome p = (r, t)" by (cases "preview_outcome outcome p")
  have "get_el r i = get_el p i" if "i \<noteq> js ''cleanup-try-status''" for i
    using preview_outcome_keeps [OF that, of outcome p] rt by simp
  with assms have present: "get_el r (js ''cleanup-try-result'') \<noteq> None"
    "get_el r (js ''cleanup-try-error'') \<noteq> None" "get_el r (js ''cleanup-try-run'') \<noteq> None"
    by (simp_all add: try_ids_def js_eq_iff)
  obtain e where e: "get_el r (js ''cleanup-try-error'') = Some e" using present(2) by blast
  note ne [simp] = js_eq_iff
  show ?thesis
  proof (cases t)
    case None
    then show ?thesis
      using preview_success_shows [OF present(1,2)] present(3)
      by (auto simp: Let_def runCleanupPreview_finish_eq rt is_shown_upd_other set_text_def
          set_disabled_def)
  next
    case (Some x)
    then show ?thesis
      using preview_failure_shows [OF present(1) e] present(3)
      by (auto simp: Let_def runCleanupPreview_finish_eq rt is_shown_upd_other set_text_def
          set_disabled_def class_remove_def)
  qed
qed

definition view_start :: view_page where
  "view_start = shell_page.extend shell_start \<lparr>kids = (\<lambda>_. [])\<rparr>"

lemma get_el_view_start [simp]: "get_el view_start i = Some blank"
  by (simp add: view_start_def shell_page.defs get_el_def)

theorem preview_always_recovers_witness:
  "is_shown (runCleanupPreview_finish (\<lambda>_. []) (Inl NetworkError) view_start) (js ''cleanup-try-error'')"
proof -
  have "\<forall>i \<in> set try_ids. get_el view_start i \<noteq> None" by simp
  from preview_always_recovers [OF this, of "\<lambda>_. []" "Inl NetworkError"] show ?thesis
    by (simp add: Let_def preview_outcome_def requestCleanupPreview_def)
qed

text \<open>A reply as the gateway sends it, with all fields of its cleanup result.\<close>

definition spaced_reply :: jsval where
  "spaced_reply =
     Obj [(js ''transcript'', Str (js ''a  b'')), (js ''original_transcript'', Str (js ''a b'')),
       (js ''cleanup'', Obj [(js ''requested'', Str (js ''conservative'')), (js ''status'', Str (js ''applied'')),
         (js ''reason'', Null), (js ''model_id'', Str (js ''cleanup-small'')), (js ''prompt_version'', Str (js ''v1'')),
         (js ''duration_ms'', Num (Fin 310))])]"

theorem applied_reads_zero_words_witness:
  "\<exists>e. get_el (fst (renderCleanupComparison spaced_reply view_start)) (js ''test-cleanup-status'') = Some e \<and>
     el_text e = js ''Cleanup changed 0 words.''"
proof -
  have "map trim (tokenize (js ''a b'')) = map trim (tokenize (js ''a  b''))"
    by (simp add: js_defs tokenize.simps)
  then have t: "over_limit (js ''a b'') (js ''a  b'') \<or>
      map trim (tokenize (js ''a b'')) = map trim (tokenize (js ''a  b''))" by blast
  from applied_reads_zero_words [OF t, of spaced_reply view_start]
  show ?thesis by (auto simp: spaced_reply_def)
qed

end
