(* ===== verification/FamilyGrid.thy ===== *)
theory FamilyGrid
  imports CleanupView
begin

text \<open>
  The grid of model families (\<open>app/webui/app.js\<close>, \<open>familyTiles\<close> to \<open>relayoutOpenFamilyPanels\<close>,
  the expand toggle and the click on a family of \<open>initModelFilters\<close>, and the part of the swap
  handlers that keeps families open).  Tiles and panels are siblings in one grid; a closed panel
  follows its tile, an open one is moved behind the last tile of its visual row.  Families are
  numbered in the order the gateway delivers them.
\<close>

section \<open>State\<close>

datatype child = TileEl nat | PanelEl nat

text \<open>A tile with its \<open>data-family\<close> and its class \<open>is-open\<close>, its button, and the panel the button's
  \<open>aria-controls\<close> names.\<close>

record family =
  fam_name :: jsstring
  fam_open :: bool
  fam_btn :: "elem option"
  fam_panel :: "elem option"

datatype frame = RelayoutFrame | RestoreScroll rat bool

text \<open>\<open>grid_columns\<close> is the computed style \<open>gridTemplateColumns\<close>; \<open>open_saved\<close> and \<open>scroll_saved\<close>
  are \<open>window.__openModelFamilies\<close> and \<open>window.__modelsScrollY\<close>; \<open>frames\<close> are the callbacks
  handed to \<open>requestAnimationFrame\<close>.\<close>

record grid_page = view_page +
  fams :: "family list"
  grid_kids :: "child list"
  grid_columns :: jsstring
  resize_timer :: "nat option"
  open_saved :: "jsstring list option"
  scroll_y :: rat
  scroll_saved :: "rat option"
  frames :: "frame list"

definition upd_fam :: "nat \<Rightarrow> (family \<Rightarrow> family) \<Rightarrow> 'a grid_page_scheme \<Rightarrow> 'a grid_page_scheme" where
  "upd_fam i f p = p\<lparr>fams := (fams p)[i := f (fams p ! i)]\<rparr>"

section \<open>Children of the grid\<close>

fun tile_ids :: "child list \<Rightarrow> nat list" where
  "tile_ids [] = []"
| "tile_ids (TileEl i # ks) = i # tile_ids ks"
| "tile_ids (PanelEl i # ks) = tile_ids ks"

fun panel_ids :: "child list \<Rightarrow> nat list" where
  "panel_ids [] = []"
| "panel_ids (TileEl i # ks) = panel_ids ks"
| "panel_ids (PanelEl i # ks) = i # panel_ids ks"

text \<open>\<open>a.nextElementSibling\<close> and \<open>a.after(x)\<close>, which takes \<open>x\<close> out of its place first.\<close>

fun next_sibling :: "child \<Rightarrow> child list \<Rightarrow> child option" where
  "next_sibling a (k # k' # ks) = (if k = a then Some k' else next_sibling a (k' # ks))"
| "next_sibling a ks = None"

fun insert_after :: "child \<Rightarrow> child \<Rightarrow> child list \<Rightarrow> child list" where
  "insert_after a x [] = []"
| "insert_after a x (k # ks) = (if k = a then k # x # ks else k # insert_after a x ks)"

definition move_after :: "child \<Rightarrow> child \<Rightarrow> child list \<Rightarrow> child list" where
  "move_after a x ks = insert_after a x (removeAll x ks)"

definition place_after :: "child \<Rightarrow> child \<Rightarrow> child list \<Rightarrow> child list" where
  "place_after a x ks = (if next_sibling a ks \<noteq> Some x then move_after a x ks else ks)"

section \<open>Operations\<close>

definition familyTiles :: "'a grid_page_scheme \<Rightarrow> nat list" where
  "familyTiles p = tile_ids (grid_kids p)"

definition familyModelsFor :: "'a grid_page_scheme \<Rightarrow> nat \<Rightarrow> elem option" where
  "familyModelsFor p i =
     (case fam_btn (fams p ! i) of None \<Rightarrow> None | Some b \<Rightarrow> fam_panel (fams p ! i))"

definition isFamilyOpen :: "'a grid_page_scheme \<Rightarrow> nat \<Rightarrow> bool" where
  "isFamilyOpen p i = fam_open (fams p ! i)"

lemma isFamilyOpen_kids [simp]: "isFamilyOpen (p\<lparr>grid_kids := ks\<rparr>) = isFamilyOpen p"
  by (simp add: fun_eq_iff isFamilyOpen_def)

definition openFamilyNames :: "'a grid_page_scheme \<Rightarrow> jsstring list" where
  "openFamilyNames p =
     map (\<lambda>i. fam_name (fams p ! i))
       (filter (\<lambda>i. isFamilyOpen p i \<and> fam_name (fams p ! i) \<noteq> []) (familyTiles p))"

text \<open>\<open>raw.split(/\s+/)\<close>: the current piece is collected in reverse.\<close>

function split_spaces :: "jsstring \<Rightarrow> jsstring \<Rightarrow> jsstring list" where
  "split_spaces cur [] = [rev cur]"
| "split_spaces cur (c # s) =
     (if is_space c then rev cur # split_spaces [] (dropWhile is_space s) else split_spaces (c # cur) s)"
  by pat_completeness auto
termination
  by (relation "measure (length \<circ> snd)") (auto simp: le_imp_less_Suc length_dropWhile_le)

definition familyGridColumnCount :: "jsstring \<Rightarrow> nat" where
  "familyGridColumnCount raw =
     (let n = length (filter (\<lambda>s. s \<noteq> []) (split_spaces [] raw)) in if n = 0 then 1 else n)"

definition restoreModelsAfterTile :: "nat \<Rightarrow> 'a grid_page_scheme \<Rightarrow> 'a grid_page_scheme" where
  "restoreModelsAfterTile i p =
     (if familyModelsFor p i = None then p
      else p\<lparr>grid_kids := place_after (TileEl i) (PanelEl i) (grid_kids p)\<rparr>)"

text \<open>The index of the last tile on the visual row of the tile at \<open>index\<close>.\<close>

definition rowEnd :: "nat \<Rightarrow> nat \<Rightarrow> nat \<Rightarrow> nat" where
  "rowEnd cols n index = min (n - 1) (index div cols * cols + cols - 1)"

definition placeModelsAfterRow :: "nat \<Rightarrow> 'a grid_page_scheme \<Rightarrow> 'a grid_page_scheme" where
  "placeModelsAfterRow i p =
     (if familyModelsFor p i = None then p
      else
        let tiles = familyTiles p; cols = familyGridColumnCount (grid_columns p)
        in case index_from ((=) i) 0 tiles of
             None \<Rightarrow> p
           | Some index \<Rightarrow>
               p\<lparr>grid_kids := place_after (TileEl (tiles ! rowEnd cols (length tiles) index)) (PanelEl i)
                  (grid_kids p)\<rparr>)"

definition upd_panel :: "(elem \<Rightarrow> elem) \<Rightarrow> family \<Rightarrow> family" where
  "upd_panel f t = t\<lparr>fam_panel := map_option f (fam_panel t)\<rparr>"

definition setFamilyOpen :: "nat \<Rightarrow> bool \<Rightarrow> 'a grid_page_scheme \<Rightarrow> 'a grid_page_scheme" where
  "setFamilyOpen i opened p =
     (let p1 = upd_fam i (\<lambda>t. t\<lparr>fam_open := opened,
                 fam_btn := map_option (set_attr (js ''aria-expanded'') (js_bool opened)) (fam_btn t)\<rparr>) p
      in if familyModelsFor p i = None then p1
         else if opened then
           upd_fam i (upd_panel (\<lambda>e. class_add (js ''is-open'') (set_hidden False e)))
             (placeModelsAfterRow i p1)
         else
           restoreModelsAfterTile i
             (upd_fam i (upd_panel (\<lambda>e. class_remove (js ''is-open'') (set_hidden True e))) p1))"

definition setExpandToggleState :: "bool \<Rightarrow> 'a page_scheme \<Rightarrow> 'a page_scheme" where
  "setExpandToggleState expanded p =
     (let label = (if expanded then js ''Collapse all families'' else js ''Expand all families'')
      in upd_el (js ''families-expand-toggle'')
           (\<lambda>e. set_attr (js ''title'') label (set_attr (js ''aria-label'') label
              (set_attr (js ''aria-expanded'') (js_bool expanded)
                (set_attr (js ''data-expanded'') (js_bool expanded) e)))) p)"

definition setFamiliesExpanded :: "bool \<Rightarrow> 'a grid_page_scheme \<Rightarrow> 'a grid_page_scheme" where
  "setFamiliesExpanded expanded p =
     (let tiles = familyTiles p
      in setExpandToggleState expanded
           (if expanded then foldl (\<lambda>q i. setFamilyOpen i True q) p (rev tiles)
            else foldl (\<lambda>q i. setFamilyOpen i False q) p tiles))"

definition syncFamiliesExpandToggle :: "'a grid_page_scheme \<Rightarrow> 'a grid_page_scheme" where
  "syncFamiliesExpandToggle p =
     (let tiles = familyTiles p
      in if get_el p (js ''families-expand-toggle'') = None \<or> tiles = [] then p
         else setExpandToggleState (\<forall>i \<in> set tiles. isFamilyOpen p i) p)"

definition restoreOpenFamilies :: "jsstring list \<Rightarrow> 'a grid_page_scheme \<Rightarrow> 'a grid_page_scheme" where
  "restoreOpenFamilies names p =
     (if names = [] then p
      else syncFamiliesExpandToggle
        (foldl (\<lambda>q i. if fam_name (fams q ! i) \<in> set names then setFamilyOpen i True q else q) p
          (rev (familyTiles p))))"

definition relayoutOpenFamilyPanels :: "'a grid_page_scheme \<Rightarrow> 'a grid_page_scheme" where
  "relayoutOpenFamilyPanels p =
     foldl (\<lambda>q i. placeModelsAfterRow i q) p (rev (filter (isFamilyOpen p) (familyTiles p)))"

text \<open>The click on a family's button, the click on the expand toggle, and the resize listener with its
  timer of 100 milliseconds.\<close>

definition family_click :: "nat \<Rightarrow> 'a grid_page_scheme \<Rightarrow> 'a grid_page_scheme" where
  "family_click i p = syncFamiliesExpandToggle (setFamilyOpen i (\<not> isFamilyOpen p i) p)"

definition expand_click :: "'a grid_page_scheme \<Rightarrow> 'a grid_page_scheme" where
  "expand_click p =
     (case get_el p (js ''families-expand-toggle'') of
        None \<Rightarrow> p
      | Some e \<Rightarrow> setFamiliesExpanded (el_attrs e (js ''data-expanded'') \<noteq> Some (js ''true'')) p)"

definition window_resize :: "'a grid_page_scheme \<Rightarrow> 'a grid_page_scheme" where
  "window_resize p =
     (case restart_timer (resize_timer p) (RelayoutPanels, 100) p of
        (p1, h) \<Rightarrow> p1\<lparr>resize_timer := Some h\<rparr>)"

section \<open>Swaps of the list\<close>

text \<open>The parts of the \<open>htmx:beforeSwap\<close> and \<open>htmx:afterSwap\<close> handlers for \<open>#models-list\<close>, and what
  htmx does between them: the delivered list has every family closed.\<close>

definition list_beforeSwap :: "'a grid_page_scheme \<Rightarrow> 'a grid_page_scheme" where
  "list_beforeSwap p = p\<lparr>open_saved := Some (openFamilyNames p), scroll_saved := Some (scroll_y p)\<rparr>"

definition list_afterSwap :: "'a grid_page_scheme \<Rightarrow> 'a grid_page_scheme" where
  "list_afterSwap p =
     (let names = (case open_saved p of None \<Rightarrow> [] | Some ns \<Rightarrow> ns);
          p1 = restoreOpenFamilies names (p\<lparr>open_saved := None\<rparr>);
          saved = scroll_saved p1;
          p2 = p1\<lparr>scroll_saved := None\<rparr>
      in case saved of None \<Rightarrow> p2 | Some y \<Rightarrow> p2\<lparr>frames := frames p2 @ [RestoreScroll y True]\<rparr>)"

definition run_frame :: "'a grid_page_scheme \<Rightarrow> 'a grid_page_scheme" where
  "run_frame p =
     (case frames p of
        [] \<Rightarrow> p
      | RelayoutFrame # fs \<Rightarrow> relayoutOpenFamilyPanels (p\<lparr>frames := fs\<rparr>)
      | RestoreScroll y again # fs \<Rightarrow>
          p\<lparr>scroll_y := y, frames := (if again then fs @ [RestoreScroll y False] else fs)\<rparr>)"

definition delivered_tile :: "jsstring \<Rightarrow> family" where
  "delivered_tile n = \<lparr>fam_name = n, fam_open = False,
     fam_btn = Some (set_attr (js ''aria-expanded'') (js ''false'') blank),
     fam_panel = Some (set_hidden True blank)\<rparr>"

definition delivered_kids :: "nat \<Rightarrow> child list" where
  "delivered_kids n = concat (map (\<lambda>i. [TileEl i, PanelEl i]) [0..<n])"

definition deliver_list :: "jsstring list \<Rightarrow> 'a grid_page_scheme \<Rightarrow> 'a grid_page_scheme" where
  "deliver_list names p =
     p\<lparr>fams := map delivered_tile names, grid_kids := delivered_kids (length names)\<rparr>"

section \<open>Moving one child\<close>

lemma tile_ids_append [simp]: "tile_ids (us @ vs) = tile_ids us @ tile_ids vs"
  by (induction us rule: tile_ids.induct) auto

lemma panel_ids_append [simp]: "panel_ids (us @ vs) = panel_ids us @ panel_ids vs"
  by (induction us rule: panel_ids.induct) auto

lemma set_tile_ids: "i \<in> set (tile_ids ks) \<longleftrightarrow> TileEl i \<in> set ks"
  by (induction ks rule: tile_ids.induct) auto

lemma set_panel_ids: "i \<in> set (panel_ids ks) \<longleftrightarrow> PanelEl i \<in> set ks"
  by (induction ks rule: panel_ids.induct) auto

lemma tile_ids_remove_panel [simp]: "tile_ids (removeAll (PanelEl i) ks) = tile_ids ks"
  by (induction ks rule: tile_ids.induct) auto

lemma panel_ids_remove [simp]: "panel_ids (removeAll (PanelEl i) ks) = removeAll i (panel_ids ks)"
  by (induction ks rule: panel_ids.induct) auto

lemma insert_after_split: "a \<notin> set us \<Longrightarrow> insert_after a x (us @ a # vs) = us @ a # x # vs"
  by (induction us) auto

lemma next_sibling_split:
  "next_sibling a ks = Some x \<Longrightarrow> \<exists>us vs. ks = us @ a # x # vs \<and> a \<notin> set us"
proof (induction a ks rule: next_sibling.induct)
  case (1 a k k' ks)
  show ?case
  proof (cases "k = a")
    case False
    with 1 obtain us vs where "k' # ks = us @ a # x # vs" "a \<notin> set us" by auto
    with False show ?thesis by (intro exI [of _ "k # us"] exI [of _ vs]) auto
  qed (use "1.prems" in force)
qed auto

lemma move_after_split:
  assumes "distinct ks" "a \<in> set ks" "a \<noteq> x"
  obtains us vs where "removeAll x ks = us @ a # vs" "move_after a x ks = us @ a # x # vs"
    "a \<notin> set us" "x \<notin> set (us @ a # vs)" "distinct (us @ a # vs)"
proof -
  from assms have "a \<in> set (removeAll x ks)" by simp
  then obtain us vs where r: "removeAll x ks = us @ a # vs" "a \<notin> set us" by (metis split_list_first)
  then have "x \<notin> set (us @ a # vs)" "distinct (us @ a # vs)"
    using assms(1) by (metis set_removeAll DiffE insertI1, metis distinct_removeAll)
  with r that show thesis by (simp add: move_after_def insert_after_split)
qed

text \<open>The test before each \<open>after\<close> call only avoids a move that would change nothing.\<close>

lemma place_after_eq:
  assumes "distinct ks" "a \<in> set ks" "a \<noteq> x"
  shows "place_after a x ks = move_after a x ks"
proof (cases "next_sibling a ks = Some x")
  case True
  then obtain us vs where "ks = us @ a # x # vs" "a \<notin> set us" using next_sibling_split by metis
  with assms True show ?thesis
    by (simp add: place_after_def move_after_def insert_after_split)
qed (simp add: place_after_def)

text \<open>The children of a grid of \<open>n\<close> families: each tile and panel once, the tiles in order.\<close>

definition grid_wf :: "nat \<Rightarrow> child list \<Rightarrow> bool" where
  "grid_wf n ks \<longleftrightarrow> distinct ks \<and> tile_ids ks = [0..<n] \<and> set (panel_ids ks) = {..<n}"

lemma grid_wf_tile: "grid_wf n ks \<Longrightarrow> TileEl i \<in> set ks \<longleftrightarrow> i < n"
  by (simp add: grid_wf_def flip: set_tile_ids)

lemma grid_wf_panel: "grid_wf n ks \<Longrightarrow> PanelEl i \<in> set ks \<longleftrightarrow> i < n"
  by (simp add: grid_wf_def flip: set_panel_ids)

lemma upt_split_nth: "xs @ a # ys = [0..<n] \<Longrightarrow> xs = [0..<a] \<and> ys = [Suc a..<n]"
proof -
  assume eq: "xs @ a # ys = [0..<n]"
  have "length xs < n" using arg_cong [OF eq, of length] by simp
  then have "a = length xs" using arg_cong [OF eq, of "\<lambda>l. l ! length xs"] by simp
  moreover have "xs = take (length xs) [0..<n]" "ys = drop (Suc (length xs)) [0..<n]"
    using eq [symmetric] by simp_all
  ultimately show ?thesis using \<open>length xs < n\<close> by simp
qed

text \<open>What moving a panel behind a tile does to a well-formed grid.\<close>

lemma move_panel_split:
  assumes "grid_wf n ks" "a < n"
  obtains us vs where "removeAll (PanelEl i) ks = us @ TileEl a # vs"
    "move_after (TileEl a) (PanelEl i) ks = us @ TileEl a # PanelEl i # vs"
    "PanelEl i \<notin> set (us @ TileEl a # vs)" "distinct (us @ TileEl a # vs)"
    "tile_ids us = [0..<a]" "tile_ids vs = [Suc a..<n]"
    "set (panel_ids us) \<union> set (panel_ids vs) = {..<n} - {i}"
    "panel_ids us @ panel_ids vs = removeAll i (panel_ids ks)"
proof -
  have d: "distinct ks" and t: "TileEl a \<in> set ks" using assms grid_wf_tile by (auto simp: grid_wf_def)
  obtain us vs where u: "removeAll (PanelEl i) ks = us @ TileEl a # vs"
    "move_after (TileEl a) (PanelEl i) ks = us @ TileEl a # PanelEl i # vs"
    "PanelEl i \<notin> set (us @ TileEl a # vs)" "distinct (us @ TileEl a # vs)"
    using move_after_split [OF d t, of "PanelEl i"] by blast
  have "tile_ids us @ a # tile_ids vs = [0..<n]"
    using arg_cong [OF u(1), of tile_ids] assms(1) by (simp add: grid_wf_def)
  note t = upt_split_nth [OF this]
  have p: "panel_ids us @ panel_ids vs = removeAll i (panel_ids ks)"
    using arg_cong [OF u(1), of panel_ids] by simp
  have "set (panel_ids us) \<union> set (panel_ids vs) = {..<n} - {i}"
    using arg_cong [OF p, of set] assms(1) by (simp add: grid_wf_def)
  with u t p that show thesis by blast
qed

lemma grid_wf_move:
  assumes "grid_wf n ks" "a < n" "i < n"
  shows "grid_wf n (move_after (TileEl a) (PanelEl i) ks)"
proof -
  obtain us vs where u: "move_after (TileEl a) (PanelEl i) ks = us @ TileEl a # PanelEl i # vs"
    "PanelEl i \<notin> set (us @ TileEl a # vs)" "distinct (us @ TileEl a # vs)"
    "tile_ids us = [0..<a]" "tile_ids vs = [Suc a..<n]"
    "set (panel_ids us) \<union> set (panel_ids vs) = {..<n} - {i}"
    using move_panel_split [OF assms(1,2), of i] by metis
  have "[0..<a] @ a # [Suc a..<n] = [0..<n]"
    using assms(2) by (metis upt_conv_Cons upt_add_eq_append zero_le le_add_diff_inverse less_imp_le)
  with u assms(3) show ?thesis by (auto simp: grid_wf_def)
qed

text \<open>How many tiles stand before a child.\<close>

definition tiles_before :: "child \<Rightarrow> child list \<Rightarrow> nat" where
  "tiles_before x ks = length (tile_ids (takeWhile (\<lambda>k. k \<noteq> x) ks))"

lemma tiles_before_split: "x \<notin> set us \<Longrightarrow> tiles_before x (us @ x # vs) = length (tile_ids us)"
  by (simp add: tiles_before_def takeWhile_append)

lemma tiles_before_remove:
  "x \<noteq> PanelEl i \<Longrightarrow> tiles_before x (removeAll (PanelEl i) ks) = tiles_before x ks"
  unfolding tiles_before_def by (induction ks rule: tile_ids.induct) auto

lemma tiles_before_insert:
  "x \<noteq> PanelEl i \<Longrightarrow> tiles_before x (us @ PanelEl i # vs) = tiles_before x (us @ vs)"
  unfolding tiles_before_def by (induction us rule: tile_ids.induct) auto

lemma tiles_before_move:
  assumes "grid_wf n ks" "a < n"
  shows "tiles_before (PanelEl j) (move_after (TileEl a) (PanelEl i) ks) =
    (if j = i then Suc a else tiles_before (PanelEl j) ks)"
proof -
  obtain us vs where r: "removeAll (PanelEl i) ks = us @ TileEl a # vs"
    and m: "move_after (TileEl a) (PanelEl i) ks = us @ TileEl a # PanelEl i # vs"
    and u: "PanelEl i \<notin> set (us @ TileEl a # vs)" "tile_ids us = [0..<a]"
    using move_panel_split [OF assms, of i] by metis
  show ?thesis
  proof (cases "j = i")
    case True
    with u m show ?thesis using tiles_before_split [of "PanelEl i" "us @ [TileEl a]" vs] by simp
  next
    case False
    have "tiles_before (PanelEl j) (us @ TileEl a # PanelEl i # vs) = tiles_before (PanelEl j) (us @ TileEl a # vs)"
      using tiles_before_insert [of "PanelEl j" i "us @ [TileEl a]" vs] False by simp
    with False m r tiles_before_remove [of "PanelEl j" i ks] show ?thesis by simp
  qed
qed

section \<open>Rows\<close>

lemma familyGridColumnCount_pos: "0 < familyGridColumnCount raw"
  by (simp add: familyGridColumnCount_def Let_def)

lemma rowEnd_less: "i < n \<Longrightarrow> rowEnd cols n i < n"
  by (auto simp: rowEnd_def)

lemma row_bound:
  fixes i c :: nat
  assumes "0 < c"
  shows "i \<le> i div c * c + c - 1"
proof -
  have "i mod c < c" using assms by simp
  then show ?thesis using div_mult_mod_eq [of i c] by linarith
qed

lemma rowEnd_ge: "0 < cols \<Longrightarrow> i < n \<Longrightarrow> i \<le> rowEnd cols n i"
  using row_bound [of cols i] by (simp add: rowEnd_def)

lemma rowEnd_mono: "i \<le> j \<Longrightarrow> rowEnd cols n i \<le> rowEnd cols n j"
proof -
  assume "i \<le> j"
  then have "i div cols * cols \<le> j div cols * cols" by (intro mult_le_mono1 div_le_mono)
  then show ?thesis unfolding rowEnd_def by (intro min.mono diff_le_mono add_le_mono order_refl)
qed

lemma rowEnd_same_row:
  assumes "0 < cols" "i < n"
  shows "rowEnd cols n i div cols = i div cols"
proof (rule antisym)
  have "i div cols * cols + cols - 1 < Suc (i div cols) * cols" using assms(1) by simp
  then have "rowEnd cols n i < Suc (i div cols) * cols"
    unfolding rowEnd_def by (rule min.strict_coboundedI2)
  then show "rowEnd cols n i div cols \<le> i div cols" by (simp add: less_mult_imp_div_less flip: less_Suc_eq_le)
  show "i div cols \<le> rowEnd cols n i div cols" by (rule div_le_mono [OF rowEnd_ge [OF assms]])
qed

section \<open>Placing several panels\<close>

definition park :: "nat \<Rightarrow> nat \<Rightarrow> nat \<Rightarrow> child list \<Rightarrow> child list" where
  "park cols n i ks = move_after (TileEl (rowEnd cols n i)) (PanelEl i) ks"

text \<open>Parking the panels of a strictly increasing list from its end, as every loop of the code does,
  leaves them in increasing order, each behind its row.\<close>

definition park_all :: "nat \<Rightarrow> nat \<Rightarrow> nat list \<Rightarrow> child list \<Rightarrow> child list" where
  "park_all cols n is ks = foldl (\<lambda>ks i. park cols n i ks) ks (rev is)"

lemma park_all_simps [simp]:
  "park_all cols n [] ks = ks"
  "park_all cols n (i # is) ks = park cols n i (park_all cols n is ks)"
  by (simp_all add: park_all_def)

lemma grid_wf_park_all:
  "grid_wf n ks \<Longrightarrow> \<forall>i \<in> set is. i < n \<Longrightarrow> grid_wf n (park_all cols n is ks)"
  by (induction "is") (simp_all add: park_def grid_wf_move rowEnd_less)

lemma tiles_before_park_all:
  "grid_wf n ks \<Longrightarrow> \<forall>i \<in> set is. i < n \<Longrightarrow> tiles_before (PanelEl j) (park_all cols n is ks) =
     (if j \<in> set is then Suc (rowEnd cols n j) else tiles_before (PanelEl j) ks)"
proof (induction "is")
  case (Cons i "is")
  have "grid_wf n (park_all cols n is ks)" "rowEnd cols n i < n"
    using Cons.prems by (simp_all add: grid_wf_park_all rowEnd_less)
  from tiles_before_move [OF this, of j i] Cons show ?case by (simp add: park_def)
qed simp

lemma tiles_before_in_prefix:
  assumes "PanelEl j \<in> set us"
  shows "tiles_before (PanelEl j) (us @ vs) \<le> length (tile_ids us)"
proof -
  from assms obtain xs ys where us: "us = xs @ PanelEl j # ys" "PanelEl j \<notin> set xs"
    by (metis split_list_first)
  then have "tiles_before (PanelEl j) (us @ vs) = length (tile_ids xs)"
    using tiles_before_split [of "PanelEl j" xs "ys @ vs"] by simp
  with us show ?thesis by simp
qed

lemma park_all_order:
  "grid_wf n ks \<Longrightarrow> sorted_wrt (<) is \<Longrightarrow> \<forall>i \<in> set is. i < n \<Longrightarrow>
     filter (\<lambda>j. j \<in> set is) (panel_ids (park_all cols n is ks)) = is"
proof (induction "is")
  case (Cons i "is")
  let ?k = "park_all cols n is ks" and ?a = "rowEnd cols n i"
  have wf: "grid_wf n ?k" and a: "?a < n" using Cons.prems by (simp_all add: grid_wf_park_all rowEnd_less)
  obtain us vs where r: "removeAll (PanelEl i) ?k = us @ TileEl ?a # vs"
    and m: "park cols n i ?k = us @ TileEl ?a # PanelEl i # vs"
    and t: "tile_ids us = [0..<?a]" and p: "panel_ids us @ panel_ids vs = removeAll i (panel_ids ?k)"
    using move_panel_split [OF wf a, of i] unfolding park_def by metis
  have us: "j \<notin> set is" if "j \<in> set (panel_ids us)" for j
  proof
    assume j: "j \<in> set is"
    with Cons.prems have "i < j" by simp
    have "tiles_before (PanelEl j) (us @ TileEl ?a # vs) \<le> ?a"
      using tiles_before_in_prefix [of j us "TileEl ?a # vs"] that t by (simp add: set_panel_ids)
    moreover have "tiles_before (PanelEl j) (us @ TileEl ?a # vs) = Suc (rowEnd cols n j)"
      using j \<open>i < j\<close> Cons.prems r tiles_before_remove [of "PanelEl j" i ?k]
      by (simp add: tiles_before_park_all)
    ultimately show False using rowEnd_mono [of i j cols n] \<open>i < j\<close> by simp
  qed
  have i: "i \<notin> set is" using Cons.prems by auto
  have "filter (\<lambda>j. j \<in> set is) (panel_ids us @ panel_ids vs) = filter (\<lambda>j. j \<in> set is) (panel_ids ?k)"
    using i unfolding p by (auto simp: removeAll_filter_not_eq intro!: filter_cong)
  also have "\<dots> = is" using Cons by simp
  finally have vs: "filter (\<lambda>j. j \<in> set is) (panel_ids vs) = is" using us by (simp add: filter_empty_conv)
  have ni: "i \<notin> set (panel_ids us) \<and> i \<notin> set (panel_ids vs)"
    using arg_cong [OF p, of set] by auto
  have "filter (\<lambda>j. j \<in> set (i # is)) (panel_ids us) = []"
    using us ni by (auto simp: filter_empty_conv)
  moreover have "filter (\<lambda>j. j \<in> set (i # is)) (panel_ids vs) = is"
    using vs ni by (metis (mono_tags, lifting) filter_cong set_ConsD list.set_intros(2))
  ultimately show ?case by (simp add: m)
qed simp

section \<open>The grid's invariant\<close>

text \<open>What a tile shows: its class, its button's \<open>aria-expanded\<close> and its panel agree.\<close>

definition face_ok :: "family \<Rightarrow> bool" where
  "face_ok t \<longleftrightarrow> (case (fam_btn t, fam_panel t) of
     (Some b, Some e) \<Rightarrow> el_attrs b (js ''aria-expanded'') = Some (js_bool (fam_open t)) \<and>
       el_hidden e = (\<not> fam_open t) \<and> has_class (js ''is-open'') e = fam_open t
   | _ \<Rightarrow> False)"

definition set_face :: "bool \<Rightarrow> family \<Rightarrow> family" where
  "set_face b t = t\<lparr>fam_open := b,
     fam_btn := map_option (set_attr (js ''aria-expanded'') (js_bool b)) (fam_btn t),
     fam_panel := map_option (\<lambda>e. class_toggle (js ''is-open'') b (set_hidden (\<not> b) e)) (fam_panel t)\<rparr>"

lemma face_set_face: "face_ok t \<Longrightarrow> face_ok (set_face b t)"
  by (auto simp: face_ok_def set_face_def page_defs split: option.splits)

lemma set_face_simps [simp]: "fam_open (set_face b t) = b" "fam_name (set_face b t) = fam_name t"
  by (simp_all add: set_face_def)

abbreviation columns :: "'a grid_page_scheme \<Rightarrow> nat" where
  "columns p \<equiv> familyGridColumnCount (grid_columns p)"

definition grid_ok :: "'a grid_page_scheme \<Rightarrow> bool" where
  "grid_ok p \<longleftrightarrow> grid_wf (length (fams p)) (grid_kids p) \<and> (\<forall>t \<in> set (fams p). face_ok t)"

text \<open>The tiles in front of a panel.  With \<open>cols\<close> columns the tile \<open>j\<close> is on row \<open>j div cols\<close>; an open
  panel is where it belongs if the tiles in front of it are those of its own row and of the rows
  above, none missing and none more.\<close>

definition tiles_above :: "nat \<Rightarrow> child list \<Rightarrow> nat list" where
  "tiles_above i ks = tile_ids (takeWhile (\<lambda>k. k \<noteq> PanelEl i) ks)"

definition placed :: "'a grid_page_scheme \<Rightarrow> bool" where
  "placed p \<longleftrightarrow> (\<forall>i < length (fams p). isFamilyOpen p i \<longrightarrow>
     tiles_above i (grid_kids p) = filter (\<lambda>j. j div columns p \<le> i div columns p) [0..<length (fams p)])"

text \<open>In the terms of the code: the last of these tiles is the one \<open>rowEnd\<close> computes.\<close>

definition parked :: "'a grid_page_scheme \<Rightarrow> bool" where
  "parked p \<longleftrightarrow> (\<forall>i < length (fams p). isFamilyOpen p i \<longrightarrow>
     tiles_before (PanelEl i) (grid_kids p) = Suc (rowEnd (columns p) (length (fams p)) i))"

lemma tiles_above_count:
  assumes "grid_wf n ks"
  shows "tiles_above i ks = [0..<tiles_before (PanelEl i) ks]"
proof -
  let ?us = "takeWhile (\<lambda>k. k \<noteq> PanelEl i) ks" and ?vs = "dropWhile (\<lambda>k. k \<noteq> PanelEl i) ks"
  have eq: "tile_ids ?us @ tile_ids ?vs = [0..<n]"
    using assms tile_ids_append [of ?us ?vs] by (simp add: grid_wf_def)
  then have le: "length (tile_ids ?us) \<le> n" by (metis diff_zero le_add1 length_append length_upt)
  have "tile_ids ?us = take (length (tile_ids ?us)) [0..<n]" using eq by (metis append_eq_conv_conj)
  also have "\<dots> = [0..<length (tile_ids ?us)]" using le by (simp add: take_upt)
  finally show ?thesis by (simp add: tiles_above_def tiles_before_def)
qed

lemma row_tiles:
  assumes "0 < cols" "i < n"
  shows "filter (\<lambda>j. j div cols \<le> i div cols) [0..<n] = [0..<Suc (rowEnd cols n i)]"
proof -
  have row: "j div cols \<le> i div cols \<longleftrightarrow> j \<le> rowEnd cols n i" if "j < n" for j
  proof
    assume "j div cols \<le> i div cols"
    then have "j div cols * cols \<le> i div cols * cols" by (rule mult_le_mono1)
    then have "j \<le> i div cols * cols + cols - 1" using row_bound [OF assms(1), of j] by linarith
    with that show "j \<le> rowEnd cols n i" by (simp add: rowEnd_def)
  next
    assume "j \<le> rowEnd cols n i"
    then have "j div cols \<le> rowEnd cols n i div cols" by (rule div_le_mono)
    with rowEnd_same_row [OF assms] show "j div cols \<le> i div cols" by simp
  qed
  have n: "Suc (rowEnd cols n i) \<le> n" using rowEnd_less [OF assms(2), of cols] by simp
  have "filter (\<lambda>j. j div cols \<le> i div cols) [0..<n] = filter (\<lambda>j. j < Suc (rowEnd cols n i)) [0..<n]"
    using row by (intro filter_cong) auto
  also have "\<dots> = filter (\<lambda>j. j < Suc (rowEnd cols n i)) ([0..<Suc (rowEnd cols n i)] @ [Suc (rowEnd cols n i)..<n])"
    using upt_add_eq_append [of 0 "Suc (rowEnd cols n i)" "n - Suc (rowEnd cols n i)"] n
    by (simp only: le0 le_add_diff_inverse)
  also have "\<dots> = [0..<Suc (rowEnd cols n i)]"
    by (simp add: filter_empty_conv filter_id_conv del: upt_Suc)
  finally show ?thesis .
qed

lemma placed_parked:
  assumes "grid_wf (length (fams p)) (grid_kids p)"
  shows "placed p \<longleftrightarrow> parked p"
proof -
  have "[0..<a] = [0..<b] \<longleftrightarrow> a = b" for a b :: nat by (metis diff_zero length_upt)
  then show ?thesis
    using row_tiles [OF familyGridColumnCount_pos] tiles_above_count [OF assms]
    by (simp add: placed_def parked_def del: upt_Suc)
qed

lemma grid_ok_models:
  assumes "grid_ok p" "i < length (fams p)"
  shows "familyModelsFor p i \<noteq> None"
proof -
  from assms have "face_ok (fams p ! i)" by (simp add: grid_ok_def)
  then show ?thesis by (auto simp: familyModelsFor_def face_ok_def split: option.splits)
qed

lemma grid_ok_tiles: "grid_ok p \<Longrightarrow> familyTiles p = [0..<length (fams p)]"
  by (simp add: grid_ok_def grid_wf_def familyTiles_def)

lemma index_from_upt: "i < m \<Longrightarrow> k \<le> i \<Longrightarrow> index_from ((=) i) k [k..<m] = Some i"
proof (induction "m - k" arbitrary: k)
  case (Suc d)
  then have "[k..<m] = k # [Suc k..<m]" by (simp add: upt_conv_Cons)
  with Suc show ?case by (cases "k = i") auto
qed simp

lemma place_after_wf:
  "grid_wf n ks \<Longrightarrow> a < n \<Longrightarrow> place_after (TileEl a) (PanelEl i) ks = move_after (TileEl a) (PanelEl i) ks"
  by (rule place_after_eq) (auto simp: grid_wf_tile grid_wf_def)

lemma placeModelsAfterRow_eq:
  assumes "grid_ok p" "i < length (fams p)"
  shows "placeModelsAfterRow i p =
    p\<lparr>grid_kids := park (columns p) (length (fams p)) i (grid_kids p)\<rparr>"
proof -
  have r: "rowEnd (columns p) (length (fams p)) i < length (fams p)" by (rule rowEnd_less [OF assms(2)])
  have "grid_wf (length (fams p)) (grid_kids p)" using assms(1) by (simp add: grid_ok_def)
  from place_after_wf [OF this r] r show ?thesis
    using grid_ok_models [OF assms] index_from_upt [OF assms(2), of 0]
    by (auto simp: placeModelsAfterRow_def Let_def grid_ok_tiles [OF assms(1)] park_def)
qed

definition face_step :: "nat \<Rightarrow> bool \<Rightarrow> 'a grid_page_scheme \<Rightarrow> 'a grid_page_scheme" where
  "face_step i b p = p\<lparr>fams := (fams p)[i := set_face b (fams p ! i)],
     grid_kids := (if b then park (columns p) (length (fams p)) i (grid_kids p)
       else move_after (TileEl i) (PanelEl i) (grid_kids p))\<rparr>"

lemma setFamilyOpen_eq:
  assumes ok: "grid_ok p" and i: "i < length (fams p)"
  shows "setFamilyOpen i b p = face_step i b p"
proof -
  have wf: "grid_wf (length (fams p)) (grid_kids p)" using ok by (simp add: grid_ok_def)
  obtain e where e: "familyModelsFor p i = Some e" using grid_ok_models [OF assms] by blast
  define p1 where "p1 = upd_fam i (\<lambda>t. t\<lparr>fam_open := b,
      fam_btn := map_option (set_attr (js ''aria-expanded'') (js_bool b)) (fam_btn t)\<rparr>) p"
  have m1: "familyModelsFor p1 i = Some e"
    using e i by (auto simp: p1_def familyModelsFor_def upd_fam_def split: option.splits)
  have r: "rowEnd (columns p) (length (fams p)) i < length (fams p)" by (rule rowEnd_less [OF i])
  show ?thesis
  proof (cases b)
    case True
    have "placeModelsAfterRow i p1 = p1\<lparr>grid_kids := park (columns p) (length (fams p)) i (grid_kids p)\<rparr>"
      using m1 wf place_after_wf [OF wf r] index_from_upt [OF i, of 0] r
      by (simp add: placeModelsAfterRow_def Let_def familyTiles_def p1_def upd_fam_def park_def grid_wf_def)
    with True e i show ?thesis
      by (simp add: setFamilyOpen_def p1_def [symmetric] face_step_def)
        (simp add: p1_def upd_fam_def upd_panel_def set_face_def class_toggle_def)
  next
    case False
    define p2 where "p2 = upd_fam i (upd_panel (\<lambda>e. class_remove (js ''is-open'') (set_hidden True e))) p1"
    have m2: "familyModelsFor p2 i \<noteq> None"
      using m1 i by (simp add: p2_def familyModelsFor_def upd_fam_def upd_panel_def p1_def split: option.splits)
    have k2: "grid_kids p2 = grid_kids p" by (simp add: p2_def p1_def upd_fam_def)
    have "setFamilyOpen i b p = restoreModelsAfterTile i p2"
      using False e by (simp add: setFamilyOpen_def Let_def p2_def p1_def)
    also have "\<dots> = p2\<lparr>grid_kids := move_after (TileEl i) (PanelEl i) (grid_kids p)\<rparr>"
      using m2 k2 place_after_wf [OF wf i] by (auto simp: restoreModelsAfterTile_def)
    finally have "setFamilyOpen i b p = p2\<lparr>grid_kids := move_after (TileEl i) (PanelEl i) (grid_kids p)\<rparr>" .
    with False i show ?thesis
      by (simp add: p2_def p1_def upd_fam_def upd_panel_def face_step_def set_face_def class_toggle_def)
  qed
qed

lemma face_step_frame [simp]:
  "length (fams (face_step i b p)) = length (fams p)" "grid_columns (face_step i b p) = grid_columns p"
  "get_el (face_step i b p) j = get_el p j" "open_saved (face_step i b p) = open_saved p"
  "scroll_saved (face_step i b p) = scroll_saved p" "frames (face_step i b p) = frames p"
  "fams (face_step i b p) = (fams p)[i := set_face b (fams p ! i)]"
  by (simp_all add: face_step_def get_el_def)

lemma grid_ok_face_step:
  assumes "grid_ok p" "i < length (fams p)"
  shows "grid_ok (face_step i b p)"
proof -
  have "grid_wf (length (fams p)) (grid_kids (face_step i b p))"
    using assms by (simp add: grid_ok_def face_step_def park_def grid_wf_move rowEnd_less)
  moreover have "\<forall>t \<in> set ((fams p)[i := set_face b (fams p ! i)]). face_ok t"
    using assms set_update_subset_insert [of "fams p" i "set_face b (fams p ! i)"]
    by (auto simp: grid_ok_def face_set_face)
  ultimately show ?thesis by (simp add: grid_ok_def)
qed

lemma placed_face_step:
  assumes "grid_ok p" "placed p" "i < length (fams p)"
  shows "placed (face_step i b p)"
proof -
  have wf: "grid_wf (length (fams p)) (grid_kids p)" using assms(1) by (simp add: grid_ok_def)
  note m = tiles_before_move [OF wf rowEnd_less [OF assms(3)]] tiles_before_move [OF wf assms(3)]
  have "parked p" using assms(2) placed_parked [OF wf] by simp
  then have "parked (face_step i b p)" using assms(3)
    by (auto simp: parked_def isFamilyOpen_def nth_list_update)
      (auto simp: face_step_def park_def m)
  moreover have "grid_ok (face_step i b p)" by (rule grid_ok_face_step [OF assms(1,3)])
  ultimately show ?thesis by (simp only: grid_ok_def placed_parked)
qed

section \<open>The loops\<close>

lemma open_all:
  assumes "grid_ok p"
  shows "distinct is \<Longrightarrow> \<forall>i \<in> set is. i < length (fams p) \<Longrightarrow>
    let q = foldl (\<lambda>q i. setFamilyOpen i True q) p (rev is) in
      grid_ok q \<and> length (fams q) = length (fams p) \<and>
      (\<forall>j < length (fams p). fams q ! j = (if j \<in> set is then set_face True (fams p ! j) else fams p ! j)) \<and>
      grid_kids q = park_all (columns p) (length (fams p)) is (grid_kids p) \<and>
      grid_columns q = grid_columns p"
proof (induction "is")
  case (Cons i "is")
  define q where "q = foldl (\<lambda>q i. setFamilyOpen i True q) p (rev is)"
  have q: "grid_ok q" "length (fams q) = length (fams p)"
    "\<forall>j < length (fams p). fams q ! j = (if j \<in> set is then set_face True (fams p ! j) else fams p ! j)"
    "grid_kids q = park_all (columns p) (length (fams p)) is (grid_kids p)"
    "grid_columns q = grid_columns p"
    using Cons by (simp_all add: q_def Let_def)
  have i: "i < length (fams q)" "i \<notin> set is" using Cons.prems q(2) by auto
  have e: "foldl (\<lambda>q i. setFamilyOpen i True q) p (rev (i # is)) = face_step i True q"
    using setFamilyOpen_eq [OF q(1) i(1)] by (simp add: q_def)
  have "grid_ok (face_step i True q)" by (rule grid_ok_face_step [OF q(1) i(1)])
  moreover have "grid_kids (face_step i True q) = park_all (columns p) (length (fams p)) (i # is) (grid_kids p)"
    by (simp add: face_step_def q)
  ultimately show ?case unfolding e Let_def using q i by (simp add: nth_list_update)
qed (simp add: assms)

text \<open>Any sequence of openings or closings.\<close>

lemma set_open_loop:
  "grid_ok p \<Longrightarrow> placed p \<Longrightarrow> \<forall>i \<in> set is. i < length (fams p) \<Longrightarrow>
    let q = foldl (\<lambda>q i. setFamilyOpen i b q) p is in
      grid_ok q \<and> placed q \<and> grid_columns q = grid_columns p \<and> length (fams q) = length (fams p) \<and>
      (\<forall>j < length (fams p). isFamilyOpen q j = (if j \<in> set is then b else isFamilyOpen p j))"
proof (induction "is" arbitrary: p)
  case (Cons i "is")
  then have i: "i < length (fams p)" by simp
  let ?q = "face_step i b p"
  have "let q = foldl (\<lambda>q i. setFamilyOpen i b q) ?q is in
      grid_ok q \<and> placed q \<and> grid_columns q = grid_columns ?q \<and> length (fams q) = length (fams ?q) \<and>
      (\<forall>j < length (fams ?q). isFamilyOpen q j = (if j \<in> set is then b else isFamilyOpen ?q j))"
    using Cons.prems i by (intro Cons.IH grid_ok_face_step placed_face_step) simp_all
  then show ?case
    using setFamilyOpen_eq [OF Cons.prems(1) i] i
    by (auto simp: Let_def isFamilyOpen_def nth_list_update)
qed simp

lemma relayout_loop:
  "grid_ok p \<Longrightarrow> \<forall>i \<in> set is. i < length (fams p) \<Longrightarrow>
    foldl (\<lambda>q i. placeModelsAfterRow i q) p (rev is) =
      p\<lparr>grid_kids := park_all (columns p) (length (fams p)) is (grid_kids p)\<rparr>"
proof (induction "is")
  case (Cons i "is")
  let ?q = "p\<lparr>grid_kids := park_all (columns p) (length (fams p)) is (grid_kids p)\<rparr>"
  have "grid_ok ?q" using Cons.prems by (simp add: grid_ok_def grid_wf_park_all)
  then have "placeModelsAfterRow i ?q =
      ?q\<lparr>grid_kids := park (columns ?q) (length (fams ?q)) i (grid_kids ?q)\<rparr>"
    using Cons.prems by (intro placeModelsAfterRow_eq) simp_all
  with Cons show ?case by simp
qed simp

text \<open>The order in which the panels that are open stand in the grid, and a grid laid out as it would
  be if every row were built afresh.\<close>

definition open_panels :: "'a grid_page_scheme \<Rightarrow> nat list" where
  "open_panels p = filter (isFamilyOpen p) (panel_ids (grid_kids p))"

definition laid_out :: "'a grid_page_scheme \<Rightarrow> bool" where
  "laid_out p \<longleftrightarrow> grid_ok p \<and> placed p \<and> open_panels p = filter (isFamilyOpen p) [0..<length (fams p)]"

lemma laid_out_park_all:
  assumes "grid_ok q" "grid_wf (length (fams q)) ks"
    and "grid_kids q = park_all (columns q) (length (fams q)) is ks"
    and "is = filter (isFamilyOpen q) [0..<length (fams q)]"
  shows "laid_out q"
proof -
  have "is": "sorted_wrt (<) is" "\<forall>i \<in> set is. i < length (fams q)"
    using assms(4) by (simp_all add: sorted_wrt_filter)
  have sub: "set (panel_ids (grid_kids q)) = {..<length (fams q)}"
    using assms(1) by (simp add: grid_ok_def grid_wf_def)
  have "filter (\<lambda>j. j \<in> set is) (panel_ids (grid_kids q)) = is"
    using park_all_order [OF assms(2) "is"] assms(3) by simp
  moreover have "filter (\<lambda>j. j \<in> set is) (panel_ids (grid_kids q)) = open_panels q"
    unfolding open_panels_def using sub assms(4) by (intro filter_cong) auto
  moreover have "parked q"
    using tiles_before_park_all [OF assms(2) "is"(2)] assms(3,4) by (simp add: parked_def)
  then have "placed q" using assms(1) by (simp add: grid_ok_def placed_parked)
  ultimately show ?thesis using assms(1,4) by (simp add: laid_out_def)
qed

lemma relayout_laid_out:
  assumes "grid_ok p"
  shows "laid_out (relayoutOpenFamilyPanels p) \<and> fams (relayoutOpenFamilyPanels p) = fams p \<and>
    grid_columns (relayoutOpenFamilyPanels p) = grid_columns p"
proof -
  let ?is = "filter (isFamilyOpen p) [0..<length (fams p)]"
  let ?q = "p\<lparr>grid_kids := park_all (columns p) (length (fams p)) ?is (grid_kids p)\<rparr>"
  have q: "relayoutOpenFamilyPanels p = ?q"
    using relayout_loop [OF assms, of ?is] by (simp add: relayoutOpenFamilyPanels_def grid_ok_tiles [OF assms])
  have "grid_ok ?q" using assms by (simp add: grid_ok_def grid_wf_park_all)
  moreover have "filter (isFamilyOpen p) [0..<length (fams p)] = filter (isFamilyOpen ?q) [0..<length (fams ?q)]"
    by simp
  ultimately have "laid_out ?q"
    using assms by (intro laid_out_park_all [of _ "grid_kids p" ?is]) (simp_all add: grid_ok_def)
  then show ?thesis by (simp add: q)
qed

section \<open>Restoring after a swap\<close>

lemma delivered_kids_Suc: "delivered_kids (Suc n) = delivered_kids n @ [TileEl n, PanelEl n]"
  by (simp add: delivered_kids_def)

lemma grid_wf_delivered: "grid_wf n (delivered_kids n)"
proof (induction n)
  case (Suc n)
  have "TileEl n \<notin> set (delivered_kids n)" "PanelEl n \<notin> set (delivered_kids n)"
    using grid_wf_tile [OF Suc] grid_wf_panel [OF Suc] by auto
  with Suc show ?case by (simp add: delivered_kids_Suc grid_wf_def lessThan_Suc)
qed (simp add: delivered_kids_def grid_wf_def)

lemma grid_ok_deliver: "grid_ok (deliver_list names p)"
proof -
  have "face_ok (delivered_tile n)" for n
    by (simp add: face_ok_def delivered_tile_def page_defs blank_def)
  then show ?thesis by (auto simp: grid_ok_def deliver_list_def grid_wf_delivered)
qed

text \<open>Opening the wanted families from the last to the first, the loop of \<open>restoreOpenFamilies\<close>.\<close>

lemma restore_loop:
  assumes "grid_ok p"
  shows "distinct is \<Longrightarrow> \<forall>i \<in> set is. i < length (fams p) \<Longrightarrow>
    foldl (\<lambda>q i. if fam_name (fams q ! i) \<in> W then setFamilyOpen i True q else q) p (rev is) =
    foldl (\<lambda>q i. setFamilyOpen i True q) p (rev (filter (\<lambda>i. fam_name (fams p ! i) \<in> W) is))"
proof (induction "is")
  case (Cons i "is")
  let ?js = "filter (\<lambda>i. fam_name (fams p ! i) \<in> W) is"
  define q where "q = foldl (\<lambda>q i. setFamilyOpen i True q) p (rev ?js)"
  have "fams q ! i = fams p ! i"
    using open_all [OF assms, of ?js] Cons.prems by (simp add: q_def Let_def)
  with Cons show ?case by (simp add: q_def [symmetric])
qed simp

lemma grid_frame_toggle [simp]:
  "fams (setExpandToggleState b p) = fams p" "grid_kids (setExpandToggleState b p) = grid_kids p"
  "grid_columns (setExpandToggleState b p) = grid_columns p"
  "frames (setExpandToggleState b p) = frames p" "scroll_saved (setExpandToggleState b p) = scroll_saved p"
  "resize_timer (setExpandToggleState b p) = resize_timer p" "timers (setExpandToggleState b p) = timers p"
  "next_timer (setExpandToggleState b p) = next_timer p"
  "open_saved (setExpandToggleState b p) = open_saved p"
  by (simp_all add: setExpandToggleState_def upd_el_def Let_def)

lemma grid_frame_sync [simp]:
  "fams (syncFamiliesExpandToggle p) = fams p" "grid_kids (syncFamiliesExpandToggle p) = grid_kids p"
  "grid_columns (syncFamiliesExpandToggle p) = grid_columns p"
  "frames (syncFamiliesExpandToggle p) = frames p"
  "scroll_saved (syncFamiliesExpandToggle p) = scroll_saved p"
  "resize_timer (syncFamiliesExpandToggle p) = resize_timer p"
  "timers (syncFamiliesExpandToggle p) = timers p" "next_timer (syncFamiliesExpandToggle p) = next_timer p"
  "open_saved (syncFamiliesExpandToggle p) = open_saved p"
  by (simp_all add: syncFamiliesExpandToggle_def Let_def)

lemma grid_cong:
  assumes "fams q = fams p" "grid_kids q = grid_kids p" "grid_columns q = grid_columns p"
  shows "grid_ok q = grid_ok p" "placed q = placed p" "laid_out q = laid_out p"
    "isFamilyOpen q = isFamilyOpen p"
proof -
  show o: "isFamilyOpen q = isFamilyOpen p" using assms by (simp add: fun_eq_iff isFamilyOpen_def)
  show "grid_ok q = grid_ok p" "placed q = placed p" "laid_out q = laid_out p"
    using assms o by (simp_all add: grid_ok_def placed_def laid_out_def open_panels_def)
qed

lemma grid_sync [simp]:
  "isFamilyOpen (syncFamiliesExpandToggle p) = isFamilyOpen p"
  "grid_ok (syncFamiliesExpandToggle p) = grid_ok p" "placed (syncFamiliesExpandToggle p) = placed p"
  "laid_out (syncFamiliesExpandToggle p) = laid_out p"
  by (rule grid_cong; simp)+

lemma restore_laid_out:
  fixes p :: "'a grid_page_scheme" and W :: "jsstring list"
  assumes "grid_ok p" "\<forall>i < length (fams p). \<not> isFamilyOpen p i"
  defines "q \<equiv> restoreOpenFamilies W p"
  shows "laid_out q \<and> length (fams q) = length (fams p) \<and> grid_columns q = grid_columns p \<and>
    (\<forall>j < length (fams p). isFamilyOpen q j \<longleftrightarrow> fam_name (fams p ! j) \<in> set W)"
proof (cases "W = []")
  case True
  have "set (panel_ids (grid_kids p)) = {..<length (fams p)}"
    using assms(1) by (simp add: grid_ok_def grid_wf_def)
  then have "open_panels p = []" using assms(2) by (auto simp: open_panels_def filter_empty_conv)
  moreover have "placed p" using assms(2) by (auto simp: placed_def)
  moreover have "filter (isFamilyOpen p) [0..<length (fams p)] = []"
    using assms(2) by (auto simp: filter_empty_conv)
  ultimately have "laid_out p" using assms(1) by (simp add: laid_out_def)
  moreover have "q = p" using True by (simp add: q_def restoreOpenFamilies_def)
  ultimately show ?thesis using True assms(2) by simp
next
  case False
  let ?n = "length (fams p)"
  let ?is = "filter (\<lambda>i. fam_name (fams p ! i) \<in> set W) [0..<?n]"
  define r where "r = foldl (\<lambda>q i. setFamilyOpen i True q) p (rev ?is)"
  have "distinct ?is" "\<forall>i \<in> set ?is. i < ?n" by simp_all
  note all = open_all [OF assms(1) this, unfolded Let_def, folded r_def]
  have r: "grid_ok r" "length (fams r) = ?n" "grid_columns r = grid_columns p"
    "\<forall>j < ?n. fams r ! j = (if j \<in> set ?is then set_face True (fams p ! j) else fams p ! j)"
    "grid_kids r = park_all (columns p) ?n ?is (grid_kids p)"
    using all by blast+
  have o: "\<forall>j < ?n. isFamilyOpen r j \<longleftrightarrow> fam_name (fams p ! j) \<in> set W"
    using r(4) assms(2) by (auto simp: isFamilyOpen_def)
  have "laid_out r"
  proof (rule laid_out_park_all [OF r(1)])
    show "grid_wf (length (fams r)) (grid_kids p)" using assms(1) r(2) by (simp add: grid_ok_def)
    show "grid_kids r = park_all (columns r) (length (fams r)) ?is (grid_kids p)" using r by simp
    show "?is = filter (isFamilyOpen r) [0..<length (fams r)]" using o r(2) by (auto intro!: filter_cong)
  qed
  moreover have "q = syncFamiliesExpandToggle r"
    using False restore_loop [OF assms(1), of "[0..<?n]" "set W"]
    by (simp add: q_def restoreOpenFamilies_def grid_ok_tiles [OF assms(1)] r_def)
  ultimately show ?thesis using r(2,3) o by simp
qed

section \<open>Runs\<close>

text \<open>What can happen to the grid: a click on a family or on the expand toggle, a change of the
  window's width (which changes the computed columns), a timer, and a swap of the list.\<close>

datatype grid_event =
    FamilyClick nat
  | ExpandClick
  | WidthChange jsstring
  | TimerFires nat
  | ListSwap "jsstring list"

fun grid_step :: "'a grid_page_scheme \<Rightarrow> grid_event \<Rightarrow> 'a grid_page_scheme" where
  "grid_step p (FamilyClick i) = (if i < length (fams p) then family_click i p else p)"
| "grid_step p ExpandClick = expand_click p"
| "grid_step p (WidthChange raw) = window_resize (p\<lparr>grid_columns := raw\<rparr>)"
| "grid_step p (TimerFires h) =
     (case timers p h of
        Some (RelayoutPanels, d) \<Rightarrow> relayoutOpenFamilyPanels (stop_timer (Some h) p)
      | _ \<Rightarrow> p)"
| "grid_step p (ListSwap names) = list_afterSwap (deliver_list names (list_beforeSwap p))"

definition relayout_pending :: "'a grid_page_scheme \<Rightarrow> bool" where
  "relayout_pending p \<longleftrightarrow> (\<exists>h d. timers p h = Some (RelayoutPanels, d))"

definition grid_inv :: "'a grid_page_scheme \<Rightarrow> bool" where
  "grid_inv p \<longleftrightarrow> grid_ok p \<and> (placed p \<or> relayout_pending p)"

text \<open>Opening and closing touches nothing but the families and the order of the children.\<close>

definition rest_eq :: "'a grid_page_scheme \<Rightarrow> 'a grid_page_scheme \<Rightarrow> bool" where
  "rest_eq q p \<longleftrightarrow> timers q = timers p \<and> frames q = frames p \<and> scroll_y q = scroll_y p \<and>
     scroll_saved q = scroll_saved p \<and> open_saved q = open_saved p \<and> els q = els p"

lemma rest_eq_refl [simp]: "rest_eq p p"
  by (simp add: rest_eq_def)

lemma rest_eq_trans: "rest_eq r q \<Longrightarrow> rest_eq q p \<Longrightarrow> rest_eq r p"
  by (simp add: rest_eq_def)

lemma rest_setFamilyOpen: "rest_eq (setFamilyOpen i b p) p"
  by (simp add: rest_eq_def setFamilyOpen_def Let_def upd_fam_def restoreModelsAfterTile_def
      placeModelsAfterRow_def split: option.split)

lemma rest_open_loop: "rest_eq (foldl (\<lambda>q i. if P q i then setFamilyOpen i b q else q) p is) p"
  by (induction "is" arbitrary: p) (auto intro: rest_eq_trans rest_setFamilyOpen)

lemma timers_open_loop [simp]: "timers (foldl (\<lambda>q i. setFamilyOpen i b q) p is) = timers p"
  using rest_open_loop [of "\<lambda>q i. True" b p "is"] by (simp add: rest_eq_def)

lemma relayout_pending_cong: "timers q = timers p \<Longrightarrow> relayout_pending q = relayout_pending p"
  by (simp add: relayout_pending_def)

lemma grid_ok_open_loop:
  "grid_ok p \<Longrightarrow> \<forall>i \<in> set is. i < length (fams p) \<Longrightarrow>
     grid_ok (foldl (\<lambda>q i. setFamilyOpen i b q) p is)"
proof (induction "is" arbitrary: p)
  case (Cons i "is")
  then have "grid_ok (setFamilyOpen i b p)" "length (fams (setFamilyOpen i b p)) = length (fams p)"
    by (simp_all add: setFamilyOpen_eq grid_ok_face_step)
  with Cons show ?case by simp
qed simp

lemma grid_inv_open_loop:
  assumes "grid_inv p" "\<forall>i \<in> set is. i < length (fams p)"
  shows "grid_inv (foldl (\<lambda>q i. setFamilyOpen i b q) p is)"
proof -
  have ok: "grid_ok p" and pl: "placed p \<or> relayout_pending p" using assms(1) by (simp_all add: grid_inv_def)
  have "relayout_pending (foldl (\<lambda>q i. setFamilyOpen i b q) p is) = relayout_pending p"
    by (rule relayout_pending_cong) simp
  with pl set_open_loop [OF ok _ assms(2), of b] grid_ok_open_loop [OF ok assms(2), of b]
  show ?thesis by (auto simp: grid_inv_def Let_def)
qed

lemma grid_inv_toggle [simp]: "grid_inv (setExpandToggleState b p) = grid_inv p"
  by (simp add: grid_inv_def grid_cong [of "setExpandToggleState b p" p] relayout_pending_def)

lemma grid_inv_sync [simp]: "grid_inv (syncFamiliesExpandToggle p) = grid_inv p"
  by (simp add: grid_inv_def relayout_pending_def)

lemma grid_inv_expanded: "grid_inv p \<Longrightarrow> grid_inv (setFamiliesExpanded b p)"
  using grid_inv_open_loop [of p "rev (familyTiles p)" b] grid_inv_open_loop [of p "familyTiles p" b]
  by (cases b) (auto simp: setFamiliesExpanded_def Let_def grid_inv_def [of p] grid_ok_tiles)

lemma restore_rest:
  "frames (restoreOpenFamilies W p) = frames p \<and> scroll_saved (restoreOpenFamilies W p) = scroll_saved p"
  using rest_open_loop [of "\<lambda>q i. fam_name (fams q ! i) \<in> set W" True p "rev (familyTiles p)"]
  by (simp add: restoreOpenFamilies_def rest_eq_def)

lemma list_swap_laid_out:
  fixes p :: "'a grid_page_scheme" and names :: "jsstring list"
  defines "q \<equiv> grid_step p (ListSwap names)"
  shows "laid_out q \<and> length (fams q) = length names \<and>
    (\<forall>j < length names. isFamilyOpen q j \<longleftrightarrow> names ! j \<in> set (openFamilyNames p)) \<and>
    frames q = frames p @ [RestoreScroll (scroll_y p) True]"
proof -
  let ?d = "deliver_list names (list_beforeSwap p)\<lparr>open_saved := None\<rparr>"
  let ?r = "restoreOpenFamilies (openFamilyNames p) ?d"
  have f: "fams ?d = map delivered_tile names" by (simp add: deliver_list_def)
  have "grid_ok ?d"
    using grid_ok_deliver [of names "list_beforeSwap p"]
    by (subst grid_cong [of _ "deliver_list names (list_beforeSwap p)"]) simp_all
  moreover have "\<forall>i < length (fams ?d). \<not> isFamilyOpen ?d i"
    by (simp add: isFamilyOpen_def f delivered_tile_def)
  ultimately have r: "laid_out ?r" "length (fams ?r) = length names"
      "\<forall>j < length names. isFamilyOpen ?r j \<longleftrightarrow> names ! j \<in> set (openFamilyNames p)"
    using restore_laid_out [of ?d "openFamilyNames p"] by (simp_all add: f delivered_tile_def)
  have s: "open_saved (deliver_list names (list_beforeSwap p)) = Some (openFamilyNames p)"
    "scroll_saved ?d = Some (scroll_y p)" "frames ?d = frames p"
    by (simp_all add: deliver_list_def list_beforeSwap_def)
  then have q: "q = ?r\<lparr>scroll_saved := None, frames := frames p @ [RestoreScroll (scroll_y p) True]\<rparr>"
    using restore_rest [of "openFamilyNames p" ?d] by (simp add: q_def list_afterSwap_def Let_def)
  have c: "fams q = fams ?r" "grid_kids q = grid_kids ?r" "grid_columns q = grid_columns ?r"
    by (simp_all add: q)
  have "laid_out q = laid_out ?r" "isFamilyOpen q = isFamilyOpen ?r" by (rule grid_cong [OF c])+
  moreover have "frames q = frames p @ [RestoreScroll (scroll_y p) True]" by (simp add: q)
  ultimately show ?thesis using r c(1) by simp
qed

lemma relayout_rest: "grid_ok p \<Longrightarrow> laid_out (relayoutOpenFamilyPanels p) \<and> placed (relayoutOpenFamilyPanels p)"
  using relayout_laid_out [of p] by (simp add: laid_out_def)

lemma window_resize_pending: "relayout_pending (window_resize p)"
  by (auto simp: window_resize_def restart_timer_eq relayout_pending_def)

lemma window_resize_grid:
  "fams (window_resize p) = fams p \<and> grid_kids (window_resize p) = grid_kids p \<and>
   grid_columns (window_resize p) = grid_columns p"
  by (simp add: window_resize_def restart_timer_eq stop_timer_def split: option.split)

lemma grid_inv_laid_out: "laid_out p \<Longrightarrow> grid_inv p"
  by (simp add: laid_out_def grid_inv_def)

lemma grid_step_inv: "grid_inv p \<Longrightarrow> grid_inv (grid_step p e)"
proof (cases e)
  case (FamilyClick i)
  then show "grid_inv p \<Longrightarrow> ?thesis"
    using grid_inv_open_loop [of p "[i]"] by (auto simp: family_click_def)
next
  case (WidthChange raw)
  assume "grid_inv p"
  then have "grid_ok (window_resize (p\<lparr>grid_columns := raw\<rparr>))"
    by (simp add: grid_inv_def grid_ok_def window_resize_grid)
  with WidthChange window_resize_pending [of "p\<lparr>grid_columns := raw\<rparr>"] show ?thesis
    by (simp add: grid_inv_def)
next
  case (TimerFires h)
  assume inv: "grid_inv p"
  have "grid_ok (stop_timer (Some h) p)" using inv by (simp add: grid_inv_def stop_timer_def grid_ok_def)
  then have "grid_inv (relayoutOpenFamilyPanels (stop_timer (Some h) p))"
    using relayout_laid_out grid_inv_laid_out by blast
  with inv TimerFires show ?thesis by (auto split: option.split callback.split)
next
  case (ListSwap names)
  then show ?thesis using list_swap_laid_out [of p names] grid_inv_laid_out by blast
qed (simp add: expand_click_def grid_inv_expanded split: option.split)

lemma grid_run_inv: "grid_inv p \<Longrightarrow> grid_inv (foldl grid_step p es)"
  by (induction es arbitrary: p) (simp_all add: grid_step_inv)

text \<open>C13.  In every run of family clicks, expand clicks, width changes, timers and refreshes that
  starts from a delivered grid: the grid keeps each tile and each panel once and the tiles in
  their order; a tile's class, its button's \<open>aria-expanded\<close> and its panel agree; and unless a
  relayout is still scheduled, the tiles in front of an open panel are exactly those of its own
  visual row and of the rows above, so no tile of its row is pushed below the panel and the
  next row starts under it.\<close>

theorem families_stay_in_rows:
  fixes p p0 :: "'a grid_page_scheme" and es :: "grid_event list"
  assumes "p = deliver_list names p0"
  defines "q \<equiv> foldl grid_step p es"
  shows "grid_wf (length (fams q)) (grid_kids q) \<and> (\<forall>t \<in> set (fams q). face_ok t) \<and>
    (\<not> relayout_pending q \<longrightarrow>
      (\<forall>i < length (fams q). isFamilyOpen q i \<longrightarrow>
         tiles_above i (grid_kids q) =
           filter (\<lambda>j. j div columns q \<le> i div columns q) [0..<length (fams q)]))"
proof -
  have "placed p" by (simp add: assms(1) placed_def isFamilyOpen_def deliver_list_def delivered_tile_def)
  with grid_ok_deliver have "grid_inv p" by (simp add: grid_inv_def assms(1))
  then have "grid_inv q" unfolding q_def by (rule grid_run_inv)
  then show ?thesis by (auto simp: grid_inv_def grid_ok_def placed_def)
qed

section \<open>The layout as rows\<close>

text \<open>What the operator sees of the grid (the tiles and the open panels, in their order), and the layout
  it should have: row by row, the tiles of the row and under them its open panels.\<close>

definition visible_kids :: "'a grid_page_scheme \<Rightarrow> child list" where
  "visible_kids p = filter (\<lambda>k. case k of TileEl i \<Rightarrow> True | PanelEl i \<Rightarrow> isFamilyOpen p i) (grid_kids p)"

definition row_of :: "nat \<Rightarrow> nat \<Rightarrow> nat \<Rightarrow> nat list" where
  "row_of cols n r = filter (\<lambda>j. j div cols = r) [0..<n]"

definition rows_layout :: "nat \<Rightarrow> nat \<Rightarrow> (nat \<Rightarrow> bool) \<Rightarrow> child list" where
  "rows_layout cols n opened =
     concat (map (\<lambda>r. map TileEl (row_of cols n r) @ map PanelEl (filter opened (row_of cols n r))) [0..<n])"

lemma ids_map [simp]:
  "tile_ids (map TileEl xs) = xs" "tile_ids (map PanelEl xs) = []"
  "panel_ids (map TileEl xs) = []" "panel_ids (map PanelEl xs) = xs"
  by (induction xs) simp_all

text \<open>Grouping a list by a number that grows along it and joining the groups gives the list back.\<close>

lemma split_at_level:
  "sorted (map f xs) \<Longrightarrow> \<forall>x \<in> set xs. f x < Suc m \<Longrightarrow>
     filter (\<lambda>x. f x < m) xs @ filter (\<lambda>x. f x = m) xs = xs" for f :: "'a \<Rightarrow> nat"
proof (induction xs)
  case (Cons x xs)
  show ?case
  proof (cases "f x < m")
    case False
    with Cons.prems have "\<forall>y \<in> set xs. f y = m" "f x = m" by fastforce+
    then have "filter (\<lambda>y. f y < m) xs = []" "filter (\<lambda>y. f y = m) xs = xs"
      by (simp_all add: filter_empty_conv filter_id_conv)
    with \<open>f x = m\<close> show ?thesis by simp
  qed (use Cons in simp)
qed simp

lemma concat_levels:
  "sorted (map f xs) \<Longrightarrow> \<forall>x \<in> set xs. f x < m \<Longrightarrow>
     concat (map (\<lambda>r. filter (\<lambda>x. f x = r) xs) [0..<m]) = xs" for f :: "'a \<Rightarrow> nat"
proof (induction m arbitrary: xs)
  case (Suc m)
  let ?ys = "filter (\<lambda>x. f x < m) xs"
  have "sorted (map f ?ys)" using Suc.prems(1) by (rule sorted_filter)
  then have "concat (map (\<lambda>r. filter (\<lambda>x. f x = r) ?ys) [0..<m]) = ?ys" by (intro Suc.IH) simp_all
  moreover have "map (\<lambda>r. filter (\<lambda>x. f x = r) ?ys) [0..<m] = map (\<lambda>r. filter (\<lambda>x. f x = r) xs) [0..<m]"
    by (auto simp: filter_filter intro!: filter_cong)
  ultimately have "concat (map (\<lambda>r. filter (\<lambda>x. f x = r) xs) [0..<m]) = ?ys" by metis
  with split_at_level [OF Suc.prems] show ?case by simp
qed simp

lemma sorted_rows: "sorted (map (\<lambda>j. j div cols) (filter P [0..<n]))" for cols :: nat
  by (rule sorted_filter) (simp add: sorted_map sorted_wrt_upt div_le_mono less_imp_le sorted_wrt_mono_rel [OF _ sorted_wrt_upt])

lemma rows_below:
  assumes "m \<le> n"
  shows "concat (map (row_of cols n) [0..<m]) = filter (\<lambda>j. j div cols < m) [0..<n]"
proof -
  let ?xs = "filter (\<lambda>j. j div cols < m) [0..<n]"
  have "concat (map (\<lambda>r. filter (\<lambda>j. j div cols = r) ?xs) [0..<m]) = ?xs"
    by (rule concat_levels [OF sorted_rows]) simp
  moreover have "map (\<lambda>r. filter (\<lambda>j. j div cols = r) ?xs) [0..<m] = map (row_of cols n) [0..<m]"
    by (auto simp: row_of_def filter_filter intro!: filter_cong)
  ultimately show ?thesis by metis
qed

lemma tile_ids_concat: "tile_ids (concat xss) = concat (map tile_ids xss)"
  by (induction xss) simp_all

lemma panel_ids_concat: "panel_ids (concat xss) = concat (map panel_ids xss)"
  by (induction xss) simp_all

lemma div_less_self: "j < n \<Longrightarrow> j div cols < n" for j :: nat
  using div_le_dividend [of j cols] by linarith

lemma tile_ids_rows: "tile_ids (rows_layout cols n opened) = [0..<n]"
proof -
  have "tile_ids (rows_layout cols n opened) = concat (map (row_of cols n) [0..<n])"
    by (simp add: rows_layout_def tile_ids_concat comp_def)
  also have "\<dots> = [0..<n]"
    by (simp add: rows_below filter_id_conv div_less_self)
  finally show ?thesis .
qed

lemma panel_ids_rows: "panel_ids (rows_layout cols n opened) = filter opened [0..<n]"
proof -
  have "panel_ids (rows_layout cols n opened) =
      concat (map (\<lambda>r. filter (\<lambda>j. j div cols = r) (filter opened [0..<n])) [0..<n])"
    by (simp add: rows_layout_def panel_ids_concat comp_def row_of_def conj_commute)
  also have "\<dots> = filter opened [0..<n]"
    by (rule concat_levels [OF sorted_rows]) (simp add: div_less_self)
  finally show ?thesis .
qed

lemma tiles_above_rows:
  assumes "opened i" "i < n"
  shows "tiles_above i (rows_layout cols n opened) = filter (\<lambda>j. j div cols \<le> i div cols) [0..<n]"
proof -
  let ?r = "i div cols"
  let ?R = "\<lambda>r. map TileEl (row_of cols n r) @ map PanelEl (filter opened (row_of cols n r))"
  let ?A = "concat (map ?R [0..<?r])" and ?C = "concat (map ?R [Suc ?r..<n])"
  have r: "?r < n" using assms(2) by (rule div_less_self)
  then have "[0..<n] = [0..<?r] @ ?r # [Suc ?r..<n]"
    by (metis le0 less_imp_le_nat le_add_diff_inverse upt_add_eq_append upt_conv_Cons)
  then have l: "rows_layout cols n opened = ?A @ ?R ?r @ ?C"
    unfolding rows_layout_def by simp
  have A: "\<forall>k \<in> set ?A. k \<noteq> PanelEl i" by (auto simp: row_of_def)
  have T: "tile_ids (takeWhile (\<lambda>k. k \<noteq> PanelEl i) (map TileEl xs @ ks)) = xs @ tile_ids (takeWhile (\<lambda>k. k \<noteq> PanelEl i) ks)"
    for xs ks by (induction xs) auto
  have i: "i \<in> set (filter opened (row_of cols n ?r))" using assms by (simp add: row_of_def)
  have P: "tile_ids (takeWhile (\<lambda>k. k \<noteq> PanelEl i) (map PanelEl xs @ ks)) = []" if "i \<in> set xs" for xs ks
    using that by (induction xs) auto
  have "tiles_above i (rows_layout cols n opened) = tile_ids ?A @ row_of cols n ?r"
    using P [OF i, of ?C] A unfolding tiles_above_def l by (simp add: takeWhile_append2 T del: set_concat)
  also have "tile_ids ?A = filter (\<lambda>j. j div cols < ?r) [0..<n]"
    using rows_below [of ?r n cols] r by (simp add: tile_ids_concat comp_def)
  also have "\<dots> @ row_of cols n ?r = filter (\<lambda>j. j div cols \<le> ?r) [0..<n]"
  proof -
    have "filter (\<lambda>j. j div cols < ?r) (filter (\<lambda>j. j div cols \<le> ?r) [0..<n]) @
        filter (\<lambda>j. j div cols = ?r) (filter (\<lambda>j. j div cols \<le> ?r) [0..<n]) = filter (\<lambda>j. j div cols \<le> ?r) [0..<n]"
      by (rule split_at_level [OF sorted_rows]) simp
    moreover have "filter (\<lambda>j. j div cols < ?r) (filter (\<lambda>j. j div cols \<le> ?r) [0..<n]) = filter (\<lambda>j. j div cols < ?r) [0..<n]"
      "filter (\<lambda>j. j div cols = ?r) (filter (\<lambda>j. j div cols \<le> ?r) [0..<n]) = row_of cols n ?r"
      by (auto simp: row_of_def filter_filter intro!: filter_cong)
    ultimately show ?thesis by simp
  qed
  finally show ?thesis .
qed

text \<open>The order of the tiles, the order of the panels and the tiles in front of each panel determine a grid.\<close>

lemma grid_eqI:
  "tile_ids xs = tile_ids ys \<Longrightarrow> panel_ids xs = panel_ids ys \<Longrightarrow>
     (\<forall>i \<in> set (panel_ids xs). tiles_above i xs = tiles_above i ys) \<Longrightarrow> distinct (panel_ids xs) \<Longrightarrow> xs = ys"
proof (induction xs arbitrary: ys rule: tile_ids.induct)
  case 1
  then show ?case by (cases ys rule: tile_ids.cases) auto
next
  case (2 a xs)
  then show ?case by (cases ys rule: tile_ids.cases) (auto simp: tiles_above_def)
next
  case (3 i xs)
  note p = "3.prems"
  show ?case
  proof (cases ys rule: tile_ids.cases)
    case (2 j ks)
    have "tiles_above i (PanelEl i # xs) = tiles_above i ys" using p(3) by simp
    with 2 show ?thesis by (simp add: tiles_above_def)
  next
    case (3 j ks)
    have "\<forall>k \<in> set (panel_ids xs). tiles_above k xs = tiles_above k ks"
      using p 3 by (auto simp: tiles_above_def split: if_splits)
    with p 3 "3.IH" [of ks] show ?thesis by auto
  qed (use p in \<open>auto simp: tiles_above_def\<close>)
qed

lemma visible_ids:
  "tile_ids (visible_kids p) = tile_ids (grid_kids p)" "panel_ids (visible_kids p) = open_panels p"
proof -
  have "tile_ids (filter (\<lambda>k. case k of TileEl i \<Rightarrow> True | PanelEl i \<Rightarrow> P i) ks) = tile_ids ks"
    "panel_ids (filter (\<lambda>k. case k of TileEl i \<Rightarrow> True | PanelEl i \<Rightarrow> P i) ks) = filter P (panel_ids ks)" for P ks
    by (induction ks rule: tile_ids.induct) auto
  then show "tile_ids (visible_kids p) = tile_ids (grid_kids p)" "panel_ids (visible_kids p) = open_panels p"
    by (simp_all add: visible_kids_def open_panels_def)
qed

lemma visible_above: "isFamilyOpen p i \<Longrightarrow> tiles_above i (visible_kids p) = tiles_above i (grid_kids p)"
proof -
  assume o: "isFamilyOpen p i"
  have "tile_ids (takeWhile (\<lambda>k. k \<noteq> PanelEl i) (filter (\<lambda>k. case k of TileEl i \<Rightarrow> True | PanelEl i \<Rightarrow> isFamilyOpen p i) ks)) =
      tile_ids (takeWhile (\<lambda>k. k \<noteq> PanelEl i) ks)" for ks
    using o by (induction ks rule: tile_ids.induct) auto
  then show ?thesis by (simp add: tiles_above_def visible_kids_def)
qed

lemma laid_out_rows:
  assumes "laid_out p"
  shows "visible_kids p = rows_layout (columns p) (length (fams p)) (isFamilyOpen p)"
proof (rule grid_eqI)
  have l: "grid_wf (length (fams p)) (grid_kids p)" "placed p"
    "open_panels p = filter (isFamilyOpen p) [0..<length (fams p)]"
    using assms by (simp_all add: laid_out_def grid_ok_def)
  show "tile_ids (visible_kids p) = tile_ids (rows_layout (columns p) (length (fams p)) (isFamilyOpen p))"
    using l(1) by (simp add: visible_ids tile_ids_rows grid_wf_def)
  show "panel_ids (visible_kids p) = panel_ids (rows_layout (columns p) (length (fams p)) (isFamilyOpen p))"
    using l(3) by (simp add: visible_ids panel_ids_rows)
  show "\<forall>i \<in> set (panel_ids (visible_kids p)). tiles_above i (visible_kids p) =
      tiles_above i (rows_layout (columns p) (length (fams p)) (isFamilyOpen p))"
    using l(2) by (auto simp: visible_ids l(3) visible_above tiles_above_rows placed_def)
  show "distinct (panel_ids (visible_kids p))" by (simp add: visible_ids l(3))
qed

text \<open>C14.  The scheduled relayout repairs any well-formed grid for the columns it finds, wherever its
  panels stand: what the operator sees afterwards is, row by row, the tiles of the row and under
  them its open panels in the order of their families; no family is opened or closed by it.\<close>

theorem relayout_repairs:
  fixes p :: "'a grid_page_scheme" and h :: nat
  assumes "grid_ok p" "timers p h = Some (RelayoutPanels, d)"
  defines "q \<equiv> grid_step p (TimerFires h)"
  shows "visible_kids q = rows_layout (columns p) (length (fams p)) (isFamilyOpen p) \<and>
    fams q = fams p \<and> grid_columns q = grid_columns p"
proof -
  have k: "fams (stop_timer (Some h) p) = fams p" "grid_columns (stop_timer (Some h) p) = grid_columns p"
    "grid_kids (stop_timer (Some h) p) = grid_kids p" by (simp_all add: stop_timer_def)
  have "grid_ok (stop_timer (Some h) p)" using assms(1) by (simp add: grid_ok_def k)
  note r = relayout_laid_out [OF this]
  have "q = relayoutOpenFamilyPanels (stop_timer (Some h) p)" using assms(2) by (simp add: q_def)
  with r have q: "laid_out q" "fams q = fams p" "grid_columns q = grid_columns p" by (simp_all add: k)
  moreover have "isFamilyOpen q = isFamilyOpen p" using q(2) by (simp add: fun_eq_iff isFamilyOpen_def)
  ultimately show ?thesis using laid_out_rows [OF q(1)] by simp
qed

text \<open>C15.  A refresh of the list (the swap handlers around a newly delivered list) reopens exactly the
  families that were open under the same name, lays them out as a fresh page would, and two
  frames later the window is scrolled where it was.\<close>

theorem refresh_keeps_families:
  fixes p :: "'a grid_page_scheme" and names :: "jsstring list"
  assumes "frames p = []"
  defines "q \<equiv> grid_step p (ListSwap names)"
  shows "(\<forall>j < length names. isFamilyOpen q j \<longleftrightarrow>
      names ! j \<noteq> [] \<and> (\<exists>i \<in> set (familyTiles p). isFamilyOpen p i \<and> fam_name (fams p ! i) = names ! j)) \<and>
    laid_out q \<and> scroll_y (run_frame ((run_frame q)\<lparr>scroll_y := y\<rparr>)) = scroll_y p"
proof -
  have l: "laid_out q" "frames q = [RestoreScroll (scroll_y p) True]"
    "\<forall>j < length names. isFamilyOpen q j \<longleftrightarrow> names ! j \<in> set (openFamilyNames p)"
    using list_swap_laid_out [of p names] assms(1) by (simp_all add: q_def)
  have "scroll_y (run_frame ((run_frame q)\<lparr>scroll_y := y\<rparr>)) = scroll_y p"
    using l(2) by (simp add: run_frame_def)
  with l(1,3) show ?thesis by (auto simp: openFamilyNames_def image_iff)
qed

definition grid_start :: grid_page where
  "grid_start = view_page.extend view_start
     \<lparr>fams = [], grid_kids = [], grid_columns = js ''300px 300px'', resize_timer = None,
      open_saved = None, scroll_y = 0, scroll_saved = None, frames = []\<rparr>"

lemma grid_start_simps [simp]:
  "grid_columns grid_start = js ''300px 300px''" "frames grid_start = []" "fams grid_start = []"
  "timers grid_start = (\<lambda>_. None)" "scroll_y grid_start = 0" "next_timer grid_start = 0"
  "resize_timer grid_start = None" "els grid_start = (\<lambda>_. Some blank)"
  by (simp_all add: grid_start_def view_page.defs view_start_def shell_page.defs)

definition three_families :: grid_page where
  "three_families = deliver_list [js ''A'', js ''B'', js ''C''] grid_start"

lemma grid_inv_three: "grid_inv three_families"
  by (simp add: three_families_def grid_inv_def grid_ok_deliver)
    (simp add: placed_def isFamilyOpen_def deliver_list_def delivered_tile_def less_Suc_eq numeral_3_eq_3)

theorem families_stay_in_rows_witness:
  "isFamilyOpen (foldl grid_step three_families [FamilyClick 0]) 0 \<and>
   tiles_above 0 (grid_kids (foldl grid_step three_families [FamilyClick 0])) = [0, 1]"
proof -
  define q where "q = foldl grid_step three_families [FamilyClick 0]"
  have ok: "grid_ok three_families" by (simp add: three_families_def grid_ok_deliver)
  have n: "length (fams three_families) = 3" by (simp add: three_families_def deliver_list_def)
  have c: "\<not> isFamilyOpen three_families 0"
    by (simp add: three_families_def deliver_list_def isFamilyOpen_def delivered_tile_def)
  have q: "q = syncFamiliesExpandToggle (face_step 0 True three_families)"
    using c by (simp add: q_def n family_click_def setFamilyOpen_eq [OF ok])
  have "isFamilyOpen q 0" using n by (simp add: q isFamilyOpen_def set_face_def)
  moreover have "length (fams q) = 3" "columns q = 2" using n
    by (simp_all add: q three_families_def deliver_list_def grid_start_def view_page.defs view_start_def
        familyGridColumnCount_def js_defs)
  moreover have "timers q = (\<lambda>_. None)"
    by (simp add: q face_step_def three_families_def deliver_list_def)
  then have "\<not> relayout_pending q" by (simp add: relayout_pending_def)
  ultimately show ?thesis
    using families_stay_in_rows [OF three_families_def, of "[FamilyClick 0]", folded q_def]
    unfolding q_def [symmetric] by (simp add: upt_rec)
qed

text \<open>Two families open on two columns, then one column: each panel goes under its own tile.\<close>

theorem relayout_repairs_witness:
  "let p = grid_step (foldl grid_step three_families [FamilyClick 0, FamilyClick 2]) (WidthChange (js ''900px''));
       q = grid_step p (TimerFires 0)
   in visible_kids q = [TileEl 0, PanelEl 0, TileEl 1, TileEl 2, PanelEl 2]"
proof -
  define r where "r = foldl grid_step three_families [FamilyClick 0, FamilyClick 2]"
  define p where "p = grid_step r (WidthChange (js ''900px''))"
  have ok: "grid_ok three_families" by (simp add: three_families_def grid_ok_deliver)
  have n: "length (fams three_families) = 3" by (simp add: three_families_def deliver_list_def)
  have c: "\<not> isFamilyOpen three_families i" if "i < 3" for i
    using that by (auto simp: three_families_def deliver_list_def isFamilyOpen_def delivered_tile_def less_Suc_eq numeral_3_eq_3)
  define r1 where "r1 = syncFamiliesExpandToggle (face_step 0 True three_families)"
  have r1: "grid_step three_families (FamilyClick 0) = r1"
    using c [of 0] by (simp add: r1_def n family_click_def setFamilyOpen_eq [OF ok])
  have ok1: "grid_ok r1" "length (fams r1) = 3" using grid_ok_face_step [OF ok, of 0 True] n by (simp_all add: r1_def)
  have o1: "\<not> isFamilyOpen r1 2" using c [of 2] by (simp add: r1_def isFamilyOpen_def)
  have r: "r = syncFamiliesExpandToggle (face_step 2 True r1)"
    unfolding r_def foldl.simps r1 using o1 ok1 by (simp add: family_click_def setFamilyOpen_eq [OF ok1(1)])
  have okr: "grid_ok r" "length (fams r) = 3" using grid_ok_face_step [OF ok1(1), of 2 True] ok1(2) by (simp_all add: r)
  have or: "isFamilyOpen r 0" "\<not> isFamilyOpen r (Suc 0)" "isFamilyOpen r (Suc (Suc 0))"
    using c [of "Suc 0"] n by (simp_all add: r r1_def isFamilyOpen_def set_face_def numeral_2_eq_2)
  have t: "timers r = (\<lambda>_. None)" "next_timer r = 0" "resize_timer r = None"
    by (simp_all add: r r1_def face_step_def three_families_def deliver_list_def)
  have "timers p 0 = Some (RelayoutPanels, 100)"
    by (simp add: p_def window_resize_def restart_timer_eq t)
  moreover have fp: "fams p = fams r" "grid_columns p = js ''900px''" "grid_kids p = grid_kids r"
    by (simp_all add: p_def window_resize_grid)
  moreover have "grid_ok p" using okr(1) by (simp add: grid_ok_def fp)
  ultimately have "visible_kids (grid_step p (TimerFires 0)) = rows_layout (columns p) (length (fams p)) (isFamilyOpen p)"
    using relayout_repairs [of p 0 100] by blast
  moreover have "columns p = 1" by (simp add: fp familyGridColumnCount_def js_defs)
  moreover have "isFamilyOpen p = isFamilyOpen r" using fp(1) by (simp add: fun_eq_iff isFamilyOpen_def)
  ultimately show ?thesis using okr(2) or
    unfolding Let_def r_def [symmetric] p_def [symmetric]
    by (simp add: fp rows_layout_def row_of_def upt_rec)
qed

theorem refresh_keeps_families_witness:
  "let p = grid_step three_families (FamilyClick 1);
       q = grid_step p (ListSwap [js ''B'', js ''D''])
   in isFamilyOpen q 0 \<and> \<not> isFamilyOpen q 1 \<and> laid_out q"
proof -
  define p where "p = grid_step three_families (FamilyClick 1)"
  have ok: "grid_ok three_families" by (simp add: three_families_def grid_ok_deliver)
  have n: "length (fams three_families) = 3" by (simp add: three_families_def deliver_list_def)
  have c: "\<not> isFamilyOpen three_families 1"
    by (simp add: three_families_def deliver_list_def isFamilyOpen_def delivered_tile_def)
  have p: "p = syncFamiliesExpandToggle (face_step 1 True three_families)"
    using c by (simp add: p_def n family_click_def setFamilyOpen_eq [OF ok])
  have fr: "frames p = []" by (simp add: p three_families_def deliver_list_def)
  have t: "familyTiles p = [0, 1, 2]"
    using grid_ok_tiles [of p] grid_ok_face_step [OF ok, of 1 True] n by (simp add: p upt_rec)
  have f: "fam_name (fams p ! 1) = js ''B''" "isFamilyOpen p 1" "\<not> isFamilyOpen p 0" "\<not> isFamilyOpen p 2"
    by (simp_all add: p isFamilyOpen_def) (simp_all add: three_families_def deliver_list_def delivered_tile_def)
  from refresh_keeps_families [OF fr, of "[js ''B'', js ''D'']"] f t show ?thesis
    unfolding Let_def p_def [symmetric] by (simp add: js_eq_iff less_Suc_eq numeral_2_eq_2)
qed

end
