(* ===== verification/ModelFilters.thy ===== *)
theory ModelFilters
  imports FamilyGrid
begin

text \<open>
  The filters of the Models tab (\<open>app/webui/app.js\<close>): the filter object sent with a list request,
  the collapsible rail and its stored state, the count badge, the three quick views, clearing,
  the search over long checkbox lists, and \<open>initModelFilters\<close>, which attaches the listeners once.
\<close>

section \<open>State\<close>

text \<open>A row of a checkbox list: the list's id, the checkbox, the row's text and its \<open>hidden\<close>.\<close>

record check =
  ck_list :: jsstring
  ck_name :: jsstring
  ck_value :: jsstring
  ck_label :: jsstring
  ck_checked :: bool
  ck_hidden :: bool

record search_box =
  sb_list :: "jsstring option"
  sb_value :: jsstring
  sb_bound :: bool
  sb_listeners :: nat

record filter_data =
  ff_checks :: "check list"
  ff_size :: "jsstring option"
  ff_searches :: "search_box list"

text \<open>\<open>listeners\<close> counts the listeners attached to the element with an id; \<open>views\<close> are the buttons
  with \<open>data-model-view\<close>.  The toggles \<open>installed_only\<close> and \<open>recommended_only\<close> are the
  checkboxes with the ids \<open>installed-only-toggle\<close> and \<open>recommended-only-toggle\<close> of the form;
  \<open>rail_label\<close> is the label inside the rail's toggle (\<open>None\<close> without the toggle).\<close>

record filter_page = grid_page +
  filter_form :: "filter_data option"
  views :: "(jsstring \<times> elem) list"
  rail_label :: "elem option"
  listeners :: "jsstring \<Rightarrow> nat"
  resize_bound :: bool

definition upd_form :: "(filter_data \<Rightarrow> filter_data) \<Rightarrow> 'a filter_page_scheme \<Rightarrow> 'a filter_page_scheme" where
  [page_defs]: "upd_form f p = p\<lparr>filter_form := map_option f (filter_form p)\<rparr>"

section \<open>The filters in force\<close>

definition checkedFilterValues :: "jsstring \<Rightarrow> filter_data \<Rightarrow> jsstring list" where
  "checkedFilterValues name f =
     filter (\<lambda>v. v \<noteq> []) (map ck_value (filter (\<lambda>c. ck_name c = name \<and> ck_checked c) (ff_checks f)))"

definition is_checked :: "'a page_scheme \<Rightarrow> jsstring \<Rightarrow> bool" where
  "is_checked p i = (case get_el p i of None \<Rightarrow> False | Some e \<Rightarrow> el_checked e)"

definition currentModelFilters :: "'a filter_page_scheme \<Rightarrow> (jsstring \<times> jsstring list) list" where
  "currentModelFilters p =
     (case filter_form p of
        None \<Rightarrow> [(js ''family'', []), (js ''language'', []), (js ''engine'', [])]
      | Some f \<Rightarrow>
          [(js ''family'', checkedFilterValues (js ''family'') f),
           (js ''language'', checkedFilterValues (js ''language'') f),
           (js ''engine'', checkedFilterValues (js ''engine'') f)]
          @ (case ff_size f of
               Some v \<Rightarrow> if v \<noteq> [] then [(js ''max_size'', [v])] else []
             | None \<Rightarrow> [])
          @ (if is_checked p (js ''installed-only-toggle'') then [(js ''installed_only'', [js ''true''])] else [])
          @ (if is_checked p (js ''recommended-only-toggle'') then [(js ''recommended_only'', [js ''true''])]
             else []))"

definition updateFilterChrome :: "'a filter_page_scheme \<Rightarrow> 'a filter_page_scheme" where
  "updateFilterChrome p =
     (if get_el p (js ''filter-active-count'') = None then p
      else
        let count = length (filter (\<lambda>(k, vs). vs \<noteq> []) (currentModelFilters p))
        in upd_el (js ''filter-active-count'')
             (\<lambda>e. class_toggle (js ''hidden'') (count = 0) (set_text (if count = 0 then [] else js_nat count) e))
             (upd_el (js ''filter-rail-toggle'') (class_toggle (js ''has-active'') (0 < count))
               (upd_el (js ''models-filter'') (class_toggle (js ''has-active'') (0 < count)) p)))"

section \<open>The rail\<close>

definition FILTER_RAIL_KEY :: jsstring where
  "FILTER_RAIL_KEY = js ''vocagateway.models-filter-collapsed''"

definition isFilterRailCollapsed :: "'a page_scheme \<Rightarrow> bool" where
  "isFilterRailCollapsed p \<longleftrightarrow> \<not> store_blocked p \<and> get_item p FILTER_RAIL_KEY \<noteq> Some (js ''0'')"

definition rail_attrs :: "bool \<Rightarrow> elem \<Rightarrow> elem" where
  [page_defs]: "rail_attrs collapsed e =
     set_attr (js ''title'') (if collapsed then js ''Show filters'' else js ''Hide filters'')
       (set_attr (js ''aria-expanded'') (js_bool (\<not> collapsed)) e)"

definition side_attrs :: "bool \<Rightarrow> elem \<Rightarrow> elem" where
  [page_defs]: "side_attrs collapsed e =
     (let label = (if collapsed then js ''Expand filters'' else js ''Collapse filters'')
      in set_attr (js ''title'') label
           (set_attr (js ''aria-label'') label (set_attr (js ''aria-expanded'') (js_bool (\<not> collapsed)) e)))"

definition store_rail :: "bool \<Rightarrow> 'a page_scheme \<Rightarrow> 'a page_scheme" where
  "store_rail collapsed p =
     (if store_blocked p then p
      else set_item FILTER_RAIL_KEY (if collapsed then js ''1'' else js ''0'') p)"

definition setFilterRailCollapsed :: "bool \<Rightarrow> 'a filter_page_scheme \<Rightarrow> 'a filter_page_scheme" where
  "setFilterRailCollapsed collapsed p =
     (let p1 = upd_el (js ''models-layout'') (class_toggle (js ''is-filter-collapsed'') collapsed) p;
          p2 = upd_el (js ''filter-rail-toggle'') (rail_attrs collapsed)
                 (p1\<lparr>rail_label := map_option (set_text (js ''Filters'')) (rail_label p1)\<rparr>);
          p3 = upd_el (js ''filter-side-collapse'') (side_attrs collapsed) p2;
          p4 = upd_el (js ''models-filter'') (set_attr (js ''aria-hidden'') (js_bool collapsed)) p3
      in store_rail collapsed p4)"

definition request_relayout :: "'a grid_page_scheme \<Rightarrow> 'a grid_page_scheme" where
  "request_relayout p = p\<lparr>frames := frames p @ [RelayoutFrame]\<rparr>"

definition rail_toggle_click :: "'a filter_page_scheme \<Rightarrow> 'a filter_page_scheme" where
  "rail_toggle_click p =
     (case get_el p (js ''models-layout'') of
        None \<Rightarrow> p
      | Some layout \<Rightarrow>
          request_relayout (setFilterRailCollapsed (\<not> has_class (js ''is-filter-collapsed'') layout) p))"

definition side_collapse_click :: "'a filter_page_scheme \<Rightarrow> 'a filter_page_scheme" where
  "side_collapse_click p = request_relayout (setFilterRailCollapsed True p)"

section \<open>The quick views\<close>

text \<open>\<open>String(a && !b)\<close> where \<open>a\<close> and \<open>b\<close> are booleans or \<open>undefined\<close>.\<close>

definition and_not :: "bool option \<Rightarrow> bool option \<Rightarrow> jsstring" where
  "and_not a b =
     (case a of None \<Rightarrow> js ''undefined'' | Some x \<Rightarrow> js_bool (x \<and> b \<noteq> Some True))"

definition pressed_text :: "jsstring \<Rightarrow> bool option \<Rightarrow> bool option \<Rightarrow> jsstring" where
  "pressed_text view installed recommended =
     (if view = js ''all'' then js_bool (installed \<noteq> Some True \<and> recommended \<noteq> Some True)
      else if view = js ''installed'' then and_not installed recommended
      else and_not recommended installed)"

definition toggle_state :: "'a page_scheme \<Rightarrow> jsstring \<Rightarrow> bool option" where
  "toggle_state p i = map_option el_checked (get_el p i)"

definition syncModelViews :: "'a filter_page_scheme \<Rightarrow> 'a filter_page_scheme" where
  "syncModelViews p =
     (let installed = toggle_state p (js ''installed-only-toggle'');
          recommended = toggle_state p (js ''recommended-only-toggle'')
      in p\<lparr>views := map (\<lambda>(view, e).
              (view, set_attr (js ''aria-pressed'') (pressed_text view installed recommended) e)) (views p)\<rparr>)"

text \<open>The click on a view.  The \<open>change\<close> event it dispatches reaches the form's own listener; the
  request for the list is the form's \<open>hx-trigger\<close>, which htmx handles.\<close>

definition model_view_click :: "jsstring \<Rightarrow> 'a filter_page_scheme \<Rightarrow> 'a filter_page_scheme" where
  "model_view_click view p =
     (if filter_form p = None then p
      else case (toggle_state p (js ''installed-only-toggle''), toggle_state p (js ''recommended-only-toggle'')) of
        (Some installed, Some recommended) \<Rightarrow>
          if installed = (view = js ''installed'') \<and> recommended = (view = js ''recommended'') then p
          else
            let p1 = upd_el (js ''recommended-only-toggle'') (set_checked (view = js ''recommended''))
                       (upd_el (js ''installed-only-toggle'') (set_checked (view = js ''installed'')) p);
                p2 = (if 0 < listeners p1 (js ''models-filter-form'') then updateFilterChrome p1 else p1)
            in syncModelViews p2
      | _ \<Rightarrow> p)"

section \<open>Clearing and searching\<close>

definition clear_form :: "filter_data \<Rightarrow> filter_data" where
  "clear_form f =
     (let lists = {l. \<exists>s \<in> set (ff_searches f). sb_list s = Some l}
      in f\<lparr>ff_checks := map (\<lambda>c. c\<lparr>ck_checked := False,
             ck_hidden := (ck_hidden c \<and> \<not> (ck_list c \<noteq> [] \<and> ck_list c \<in> lists))\<rparr>) (ff_checks f),
           ff_size := map_option (\<lambda>_. []) (ff_size f),
           ff_searches := map (\<lambda>s. s\<lparr>sb_value := []\<rparr>) (ff_searches f)\<rparr>)"

definition filter_clear_click :: "'a filter_page_scheme \<Rightarrow> 'a filter_page_scheme" where
  "filter_clear_click p =
     (let p1 = (if filter_form p = None then p
                else upd_el (js ''installed-only-toggle'') (set_checked False)
                  (upd_el (js ''recommended-only-toggle'') (set_checked False) (upd_form clear_form p)));
          p2 = updateFilterChrome p1
      in send (Ajax (js ''GET'') (js ''/ui/partials/models-list'') (js ''#models-list'') (js ''innerHTML'')
           (currentModelFilters p2)) p2)"

text \<open>The \<open>input\<close> listener of the k-th search field; \<open>lower\<close> is \<open>toLowerCase\<close>, whose Unicode tables
  the engine brings.\<close>

definition search_rows :: "(jsstring \<Rightarrow> jsstring) \<Rightarrow> jsstring \<Rightarrow> jsstring \<Rightarrow> check list \<Rightarrow> check list" where
  "search_rows lower q list_id =
     map (\<lambda>c. if ck_list c = list_id
              then c\<lparr>ck_hidden := (q \<noteq> [] \<and> \<not> js_includes (lower (ck_label c)) q)\<rparr> else c)"

definition search_input :: "(jsstring \<Rightarrow> jsstring) \<Rightarrow> nat \<Rightarrow> 'a filter_page_scheme \<Rightarrow> 'a filter_page_scheme" where
  "search_input lower k p =
     (case filter_form p of
        None \<Rightarrow> p
      | Some f \<Rightarrow>
          if length (ff_searches f) \<le> k then p
          else
            let s = ff_searches f ! k; q = lower (trim (sb_value s)); list_id = opt_or (sb_list s) []
            in if get_el p list_id = None then p
               else p\<lparr>filter_form := Some (f\<lparr>ff_checks := search_rows lower q list_id (ff_checks f)\<rparr>)\<rparr>)"

section \<open>Attaching the listeners\<close>

text \<open>\<open>if (el && !el.dataset.x) { el.dataset.x = "1"; el.addEventListener(...); }\<close>\<close>

definition bind_once :: "jsstring \<Rightarrow> jsstring \<Rightarrow> 'a filter_page_scheme \<Rightarrow> 'a filter_page_scheme" where
  "bind_once i attr p =
     (case get_el p i of
        None \<Rightarrow> p
      | Some e \<Rightarrow>
          if opt_or (el_attrs e attr) [] \<noteq> [] then p
          else (upd_el i (set_attr attr (js ''1'')) p)\<lparr>listeners := (listeners p)(i := Suc (listeners p i))\<rparr>)"

definition bind_search :: "search_box \<Rightarrow> search_box" where
  "bind_search s = (if sb_bound s then s else s\<lparr>sb_bound := True, sb_listeners := Suc (sb_listeners s)\<rparr>)"

definition initModelFilters :: "'a filter_page_scheme \<Rightarrow> 'a filter_page_scheme" where
  "initModelFilters p =
     (let p1 = bind_once (js ''filter-clear'') (js ''data-bound'') (syncModelViews p);
          p2 = bind_once (js ''models-filter-form'') (js ''data-filter-bound'') p1;
          p3 = upd_form (\<lambda>f. f\<lparr>ff_searches := map bind_search (ff_searches f)\<rparr>) p2;
          p4 = bind_once (js ''filter-rail-toggle'') (js ''data-bound'') p3;
          p5 = bind_once (js ''filter-side-collapse'') (js ''data-bound'') p4;
          p6 = bind_once (js ''families-expand-toggle'') (js ''data-bound'') p5;
          p7 = bind_once (js ''models-list'') (js ''data-expand-listen'') p6;
          p8 = (if resize_bound p7 then p7
                else p7\<lparr>resize_bound := True, listeners := (listeners p7)(js ''window'' := Suc (listeners p7 (js ''window'')))\<rparr>);
          p9 = (if get_el p8 (js ''models-layout'') = None then p8
                else setFilterRailCollapsed (isFilterRailCollapsed p8) p8)
      in syncFamiliesExpandToggle (updateFilterChrome p9))"

section \<open>Frames\<close>

lemma filter_frame_upd_el [simp]:
  "filter_form (upd_el i f p) = filter_form p" "views (upd_el i f p) = views p"
  "listeners (upd_el i f p) = listeners p" "resize_bound (upd_el i f p) = resize_bound p"
  "filter_form (set_item k v p) = filter_form p" "views (set_item k v p) = views p"
  "listeners (set_item k v p) = listeners p" "resize_bound (set_item k v p) = resize_bound p"
  "filter_form (send r p) = filter_form p" "views (send r p) = views p"
  by (simp_all add: upd_el_def set_item_def send_def)

lemma filter_frame_chrome [simp]:
  "filter_form (updateFilterChrome p) = filter_form p" "views (updateFilterChrome p) = views p"
  "listeners (updateFilterChrome p) = listeners p" "resize_bound (updateFilterChrome p) = resize_bound p"
  "store_blocked (updateFilterChrome p) = store_blocked p" "get_item (updateFilterChrome p) k = get_item p k"
  by (simp_all add: updateFilterChrome_def Let_def)

lemma filter_frame_toggle [simp]:
  "filter_form (syncFamiliesExpandToggle p) = filter_form p" "views (syncFamiliesExpandToggle p) = views p"
  "listeners (syncFamiliesExpandToggle p) = listeners p"
  "resize_bound (syncFamiliesExpandToggle p) = resize_bound p"
  "store_blocked (syncFamiliesExpandToggle p) = store_blocked p"
  "get_item (syncFamiliesExpandToggle p) k = get_item p k"
  by (simp_all add: syncFamiliesExpandToggle_def setExpandToggleState_def Let_def)

lemma store_rail_frame [simp]:
  "filter_form (store_rail c p) = filter_form p" "views (store_rail c p) = views p"
  "listeners (store_rail c p) = listeners p" "resize_bound (store_rail c p) = resize_bound p"
  "store_blocked (store_rail c p) = store_blocked p" "get_el (store_rail c p) i = get_el p i"
  by (auto simp: store_rail_def)

lemma rail_label_frame [simp]:
  "filter_form (p\<lparr>rail_label := l\<rparr>) = filter_form p" "views (p\<lparr>rail_label := l\<rparr>) = views p"
  "listeners (p\<lparr>rail_label := l\<rparr>) = listeners p" "resize_bound (p\<lparr>rail_label := l\<rparr>) = resize_bound p"
  "store_blocked (p\<lparr>rail_label := l\<rparr>) = store_blocked p"
  by simp_all

lemma get_el_rail_label [simp]: "get_el (p\<lparr>rail_label := l\<rparr>) i = get_el p i"
  by (simp add: get_el_def)

lemma filter_frame_rail [simp]:
  "filter_form (setFilterRailCollapsed c p) = filter_form p" "views (setFilterRailCollapsed c p) = views p"
  "listeners (setFilterRailCollapsed c p) = listeners p"
  "resize_bound (setFilterRailCollapsed c p) = resize_bound p"
  "store_blocked (setFilterRailCollapsed c p) = store_blocked p"
  unfolding setFilterRailCollapsed_def Let_def
  by (simp_all only: store_rail_frame filter_frame_upd_el rail_label_frame upd_el_frame)

section \<open>The rail\<close>

text \<open>The class and the \<open>aria\<close> attributes of the rail and of its two buttons for a state.\<close>

definition rail_face :: "elem \<Rightarrow> bool \<times> (jsstring \<Rightarrow> jsstring option)" where
  "rail_face e = (has_class (js ''is-filter-collapsed'') e, el_attrs e)"

definition face_at :: "'a page_scheme \<Rightarrow> string \<Rightarrow> (bool \<times> (jsstring \<Rightarrow> jsstring option)) option" where
  "face_at p i = map_option rail_face (get_el p (js i))"

definition rail_shows :: "bool \<Rightarrow> 'a page_scheme \<Rightarrow> bool" where
  "rail_shows c p \<longleftrightarrow>
     (case face_at p ''models-layout'' of Some f \<Rightarrow> fst f = c | None \<Rightarrow> True) \<and>
     (case face_at p ''filter-rail-toggle'' of
        Some f \<Rightarrow> snd f (js ''aria-expanded'') = Some (js_bool (\<not> c)) | None \<Rightarrow> True) \<and>
     (case face_at p ''filter-side-collapse'' of
        Some f \<Rightarrow> snd f (js ''aria-expanded'') = Some (js_bool (\<not> c)) | None \<Rightarrow> True) \<and>
     (case face_at p ''models-filter'' of
        Some f \<Rightarrow> snd f (js ''aria-hidden'') = Some (js_bool c) | None \<Rightarrow> True)"

lemma rail_face_simps [simp]:
  "rail_face (set_attr n v e) = (fst (rail_face e), (snd (rail_face e))(n \<mapsto> v))"
  "rail_face (set_text t e) = rail_face e"
  "rail_face (class_toggle c b e) =
     (if c = js ''is-filter-collapsed'' then b else fst (rail_face e), snd (rail_face e))"
  by (auto simp: rail_face_def set_attr_def set_text_def class_toggle_def class_add_def class_remove_def
      has_class_def)

lemma face_at_upd:
  "face_at (upd_el i f p) j = (if js j = i then map_option (rail_face \<circ> f) (get_el p i) else face_at p j)"
  by (simp add: face_at_def option.map_comp)

lemma rail_shows_cong: "(\<And>i. face_at q i = face_at p i) \<Longrightarrow> rail_shows c q = rail_shows c p"
  by (simp add: rail_shows_def)

lemma face_at_keep:
  "(\<And>e. rail_face (f e) = rail_face e) \<Longrightarrow> face_at (upd_el i f p) j = face_at p j"
  by (simp add: face_at_upd comp_def) (simp add: face_at_def)

lemma rail_shows_set: "rail_shows c (setFilterRailCollapsed c p)"
proof -
  have s: "face_at (store_rail c q) i = face_at q i" for q :: "'a filter_page_scheme" and i
    by (simp add: face_at_def)
  have l: "face_at (q\<lparr>rail_label := x\<rparr>) i = face_at q i" for q :: "'a filter_page_scheme" and i x
    by (simp add: face_at_def)
  show ?thesis
    unfolding rail_shows_def setFilterRailCollapsed_def Let_def s
    by (simp add: face_at_upd l js_eq_iff comp_def rail_attrs_def side_attrs_def Let_def split: option.split)
qed

lemma collapsed_set: "\<not> store_blocked p \<Longrightarrow> isFilterRailCollapsed (setFilterRailCollapsed c p) = c"
  by (simp add: isFilterRailCollapsed_def setFilterRailCollapsed_def store_rail_def Let_def get_item_def
      set_item_def js_eq_iff)

lemma rail_shows_chrome [simp]: "rail_shows c (updateFilterChrome p) = rail_shows c p"
proof (rule rail_shows_cong)
  show "face_at (updateFilterChrome p) i = face_at p i" for i
    by (simp add: updateFilterChrome_def Let_def face_at_keep js_eq_iff)
qed

lemma rail_shows_sync [simp]: "rail_shows c (syncFamiliesExpandToggle p) = rail_shows c p"
  by (simp add: rail_shows_def syncFamiliesExpandToggle_def setExpandToggleState_def Let_def face_at_upd js_eq_iff)

lemma rail_shows_request [simp]: "rail_shows c (request_relayout p) = rail_shows c p"
  by (simp add: rail_shows_def request_relayout_def face_at_def get_el_def)

text \<open>What attaching the listeners leaves alone.\<close>

lemma bind_once_frame [simp]:
  "get_el (bind_once i a p) j = None \<longleftrightarrow> get_el p j = None"
  "store_blocked (bind_once i a p) = store_blocked p" "get_item (bind_once i a p) k = get_item p k"
  "filter_form (bind_once i a p) = filter_form p" "views (bind_once i a p) = views p"
  "resize_bound (bind_once i a p) = resize_bound p"
  by (auto simp: bind_once_def get_el_def get_item_def upd_el_def split: option.split)

text \<open>\<open>initModelFilters\<close> up to the rail: a page with the same elements and storage.\<close>

definition init_bind :: "'a filter_page_scheme \<Rightarrow> 'a filter_page_scheme" where
  "init_bind p =
     (let p3 = upd_form (\<lambda>f. f\<lparr>ff_searches := map bind_search (ff_searches f)\<rparr>)
                 (bind_once (js ''models-filter-form'') (js ''data-filter-bound'')
                   (bind_once (js ''filter-clear'') (js ''data-bound'') (syncModelViews p)));
          p7 = bind_once (js ''models-list'') (js ''data-expand-listen'')
                 (bind_once (js ''families-expand-toggle'') (js ''data-bound'')
                   (bind_once (js ''filter-side-collapse'') (js ''data-bound'')
                     (bind_once (js ''filter-rail-toggle'') (js ''data-bound'') p3)))
      in if resize_bound p7 then p7
         else p7\<lparr>resize_bound := True, listeners := (listeners p7)(js ''window'' := Suc (listeners p7 (js ''window'')))\<rparr>)"

lemma initModelFilters_eq:
  "initModelFilters p = syncFamiliesExpandToggle (updateFilterChrome
     (if get_el (init_bind p) (js ''models-layout'') = None then init_bind p
      else setFilterRailCollapsed (isFilterRailCollapsed (init_bind p)) (init_bind p)))"
  by (simp only: initModelFilters_def init_bind_def Let_def)

lemma syncModelViews_frame [simp]:
  "get_el (syncModelViews p) i = get_el p i" "get_item (syncModelViews p) k = get_item p k"
  "store_blocked (syncModelViews p) = store_blocked p" "filter_form (syncModelViews p) = filter_form p"
  "listeners (syncModelViews p) = listeners p" "resize_bound (syncModelViews p) = resize_bound p"
  by (simp_all add: syncModelViews_def Let_def get_el_def get_item_def)

lemma upd_form_frame [simp]:
  "get_el (upd_form f p) i = get_el p i" "get_item (upd_form f p) k = get_item p k"
  "store_blocked (upd_form f p) = store_blocked p" "listeners (upd_form f p) = listeners p"
  "views (upd_form f p) = views p" "resize_bound (upd_form f p) = resize_bound p"
  by (simp_all add: upd_form_def get_el_def get_item_def)

lemma resize_frame [simp]:
  "get_el (p\<lparr>resize_bound := b, listeners := l\<rparr>) i = get_el p i"
  "get_item (p\<lparr>resize_bound := b, listeners := l\<rparr>) k = get_item p k"
  by (simp_all add: get_el_def get_item_def)

lemma init_bind_frame [simp]:
  "get_el (init_bind p) i = None \<longleftrightarrow> get_el p i = None" "get_item (init_bind p) k = get_item p k"
  "store_blocked (init_bind p) = store_blocked p"
  by (simp_all add: init_bind_def Let_def)

lemma isFilterRailCollapsed_cong:
  "store_blocked q = store_blocked p \<Longrightarrow> get_item q FILTER_RAIL_KEY = get_item p FILTER_RAIL_KEY \<Longrightarrow>
     isFilterRailCollapsed q = isFilterRailCollapsed p"
  by (simp add: isFilterRailCollapsed_def)

lemma present_ops:
  "get_el (updateFilterChrome p) i = None \<longleftrightarrow> get_el p i = None"
  "get_el (syncFamiliesExpandToggle g) i = None \<longleftrightarrow> get_el g i = None"
  "get_el (setFilterRailCollapsed c p) i = None \<longleftrightarrow> get_el p i = None"
  "get_el (init_bind p) i = None \<longleftrightarrow> get_el p i = None"
  by (simp_all add: updateFilterChrome_def syncFamiliesExpandToggle_def setExpandToggleState_def
      setFilterRailCollapsed_def Let_def el.look_change)

lemma init_rail:
  assumes "get_el p (js ''models-layout'') \<noteq> None"
  shows "rail_shows (isFilterRailCollapsed p) (initModelFilters p) \<and>
    (\<not> store_blocked p \<longrightarrow> isFilterRailCollapsed (initModelFilters p) = isFilterRailCollapsed p) \<and>
    store_blocked (initModelFilters p) = store_blocked p \<and>
    (get_el (initModelFilters p) (js ''models-layout'') \<noteq> None)"
proof -
  have c: "isFilterRailCollapsed (init_bind p) = isFilterRailCollapsed p"
    by (rule isFilterRailCollapsed_cong) simp_all
  let ?r = "setFilterRailCollapsed (isFilterRailCollapsed p) (init_bind p)"
  have i: "initModelFilters p = syncFamiliesExpandToggle (updateFilterChrome ?r)"
    using assms by (auto simp: initModelFilters_eq c)
  have "isFilterRailCollapsed (initModelFilters p) = isFilterRailCollapsed ?r"
    unfolding i by (rule isFilterRailCollapsed_cong) simp_all
  moreover have "get_el (initModelFilters p) (js ''models-layout'') \<noteq> None"
    using assms unfolding i by (simp only: present_ops not_False_eq_True)
  ultimately show ?thesis by (simp add: i rail_shows_set collapsed_set)
qed

text \<open>C26.  The filter rail: attaching the listeners shows the stored state, collapsed when nothing is
  stored; a click on the toggle flips the state, and afterwards the layout's class, the \<open>aria\<close>
  attributes of both buttons and of the rail and the stored value agree; a page delivered
  later with the same storage shows it again.\<close>

theorem rail_persists:
  assumes "get_el p (js ''models-layout'') \<noteq> None" "\<not> store_blocked p"
    and "q = rail_toggle_click (initModelFilters p)"
    and "get_el r (js ''models-layout'') \<noteq> None" "\<not> store_blocked r"
    and "get_item r FILTER_RAIL_KEY = get_item q FILTER_RAIL_KEY"
  shows "rail_shows (isFilterRailCollapsed p) (initModelFilters p) \<and>
    (get_item p FILTER_RAIL_KEY = None \<longrightarrow> isFilterRailCollapsed p) \<and>
    isFilterRailCollapsed q = (\<not> isFilterRailCollapsed p) \<and>
    rail_shows (isFilterRailCollapsed q) q \<and> rail_shows (isFilterRailCollapsed q) (initModelFilters r)"
proof -
  note i = init_rail [OF assms(1)]
  then obtain layout where l: "get_el (initModelFilters p) (js ''models-layout'') = Some layout" by blast
  with i have "has_class (js ''is-filter-collapsed'') layout = isFilterRailCollapsed p"
    by (simp add: rail_shows_def face_at_def rail_face_def)
  with l assms(3) have q: "q = request_relayout (setFilterRailCollapsed (\<not> isFilterRailCollapsed p) (initModelFilters p))"
    by (simp add: rail_toggle_click_def)
  have "isFilterRailCollapsed q = isFilterRailCollapsed (setFilterRailCollapsed (\<not> isFilterRailCollapsed p) (initModelFilters p))"
    by (rule isFilterRailCollapsed_cong) (simp_all add: q request_relayout_def get_item_def)
  then have qc: "isFilterRailCollapsed q = (\<not> isFilterRailCollapsed p)"
    using i assms(2) by (simp add: collapsed_set)
  have "isFilterRailCollapsed r = isFilterRailCollapsed q"
    by (rule isFilterRailCollapsed_cong)
      (use assms(5,6) i assms(2) in \<open>simp_all add: q request_relayout_def\<close>)
  with init_rail [OF assms(4)] have "rail_shows (isFilterRailCollapsed q) (initModelFilters r)" by simp
  moreover have "rail_shows (isFilterRailCollapsed q) q" by (simp add: q qc [unfolded q] rail_shows_set)
  ultimately show ?thesis using i qc assms(2) by (simp add: isFilterRailCollapsed_def)
qed

section \<open>Badge and clearing\<close>

definition active_groups :: "'a filter_page_scheme \<Rightarrow> nat" where
  "active_groups p = length (filter (\<lambda>(k, vs). vs \<noteq> []) (currentModelFilters p))"

lemma currentModelFilters_cong:
  "filter_form q = filter_form p \<Longrightarrow>
   is_checked q (js ''installed-only-toggle'') = is_checked p (js ''installed-only-toggle'') \<Longrightarrow>
   is_checked q (js ''recommended-only-toggle'') = is_checked p (js ''recommended-only-toggle'') \<Longrightarrow>
   currentModelFilters q = currentModelFilters p"
  by (simp add: currentModelFilters_def)

lemma is_checked_upd:
  "is_checked (upd_el j f p) i = (if i = j then (case get_el p i of None \<Rightarrow> False | Some e \<Rightarrow> el_checked (f e))
     else is_checked p i)"
  by (simp add: is_checked_def split: option.split)

lemma currentModelFilters_chrome [simp]: "currentModelFilters (updateFilterChrome p) = currentModelFilters p"
  by (rule currentModelFilters_cong) (simp_all add: updateFilterChrome_def Let_def is_checked_upd js_eq_iff)

lemma checked_clear [simp]: "checkedFilterValues name (clear_form f) = []"
  by (simp add: checkedFilterValues_def clear_form_def Let_def filter_empty_conv)

lemma active_groups_le: "active_groups p \<le> 6"
  unfolding active_groups_def
  by (rule order_trans [OF length_filter_le])
    (simp add: currentModelFilters_def split: option.split)

text \<open>C27.  The badge counts the groups of filters that narrow the list (at most six), and is hidden
  when there is none; clearing sends a request for the list without any filter, leaves no group
  active, empties the badge and shows every row that a search had hidden.\<close>

theorem clear_resets_filters:
  assumes "get_el p (js ''filter-active-count'') \<noteq> None" "filter_form p = Some f"
    and "\<forall>c \<in> set (ff_checks f). ck_hidden c \<longrightarrow>
      ck_list c \<noteq> [] \<and> (\<exists>s \<in> set (ff_searches f). sb_list s = Some (ck_list c))"
  defines "q \<equiv> filter_clear_click p"
  shows "(\<exists>b. get_el (updateFilterChrome p) (js ''filter-active-count'') = Some b \<and>
      el_text b = (if active_groups p = 0 then [] else js_nat (active_groups p)) \<and>
      has_class (js ''hidden'') b = (active_groups p = 0) \<and> active_groups p \<le> 6) \<and>
    active_groups q = 0 \<and>
    (\<exists>b. get_el q (js ''filter-active-count'') = Some b \<and> el_text b = [] \<and> has_class (js ''hidden'') b) \<and>
    last (sent q) = Ajax (js ''GET'') (js ''/ui/partials/models-list'') (js ''#models-list'') (js ''innerHTML'')
      [(js ''family'', []), (js ''language'', []), (js ''engine'', [])] \<and>
    (\<forall>g. filter_form q = Some g \<longrightarrow> (\<forall>c \<in> set (ff_checks g). \<not> ck_hidden c \<and> \<not> ck_checked c))"
proof -
  define p1 where "p1 = upd_el (js ''installed-only-toggle'') (set_checked False)
    (upd_el (js ''recommended-only-toggle'') (set_checked False) (upd_form clear_form p))"
  have form: "filter_form p1 = Some (clear_form f)" by (simp add: p1_def upd_form_def assms(2))
  have "\<not> is_checked p1 (js ''installed-only-toggle'')" "\<not> is_checked p1 (js ''recommended-only-toggle'')"
    by (simp_all add: p1_def is_checked_upd set_checked_def js_eq_iff split: option.split)
  moreover have "ff_size (clear_form f) = None \<or> ff_size (clear_form f) = Some []"
    by (cases "ff_size f") (simp_all add: clear_form_def Let_def)
  ultimately have none: "currentModelFilters p1 = [(js ''family'', []), (js ''language'', []), (js ''engine'', [])]"
    by (auto simp: currentModelFilters_def form)
  have q: "q = send (Ajax (js ''GET'') (js ''/ui/partials/models-list'') (js ''#models-list'') (js ''innerHTML'')
      (currentModelFilters p1)) (updateFilterChrome p1)"
    by (simp add: q_def filter_clear_click_def Let_def assms(2) p1_def)
  have cq: "currentModelFilters q = currentModelFilters p1"
    unfolding q by (subst currentModelFilters_cong [of _ "updateFilterChrome p1"]) (simp_all add: is_checked_def)
  have badge: "\<exists>b. get_el (updateFilterChrome r) (js ''filter-active-count'') = Some b \<and>
      el_text b = (if active_groups r = 0 then [] else js_nat (active_groups r)) \<and>
      has_class (js ''hidden'') b = (active_groups r = 0)"
    if "get_el r (js ''filter-active-count'') \<noteq> None" for r :: "'a filter_page_scheme"
    using that by (auto simp: updateFilterChrome_def Let_def active_groups_def set_text_def class_toggle_def
        class_add_def class_remove_def has_class_def js_eq_iff)
  have ag: "active_groups p1 = 0" "active_groups q = 0"
    by (simp_all add: active_groups_def cq none)
  have "get_el p1 (js ''filter-active-count'') \<noteq> None" using assms(1) by (simp add: p1_def js_eq_iff)
  note badge [OF this]
  moreover have "\<forall>c \<in> set (ff_checks (clear_form f)). \<not> ck_hidden c \<and> \<not> ck_checked c"
    using assms(3) by (auto simp: clear_form_def Let_def)
  ultimately show ?thesis
    using badge [OF assms(1)] active_groups_le [of p] ag form by (simp add: q none)
qed

section \<open>Quick views\<close>

definition VIEWS :: "jsstring set" where
  "VIEWS = {js ''all'', js ''recommended'', js ''installed''}"

definition pressed :: "jsstring \<Rightarrow> 'a filter_page_scheme \<Rightarrow> bool" where
  "pressed v p \<longleftrightarrow> (\<forall>(w, e) \<in> set (views p). w \<in> VIEWS \<longrightarrow>
     (el_attrs e (js ''aria-pressed'') = Some (js ''true'') \<longleftrightarrow> w = v))"

text \<open>The view the two toggles stand for.\<close>

definition current_view :: "'a page_scheme \<Rightarrow> jsstring" where
  "current_view p =
     (if is_checked p (js ''installed-only-toggle'') then js ''installed''
      else if is_checked p (js ''recommended-only-toggle'') then js ''recommended'' else js ''all'')"

definition one_view :: "'a page_scheme \<Rightarrow> bool" where
  "one_view p \<longleftrightarrow> \<not> (is_checked p (js ''installed-only-toggle'') \<and> is_checked p (js ''recommended-only-toggle''))"

lemma toggle_state_sync: "toggle_state (syncModelViews p) i = toggle_state p i"
  by (simp add: toggle_state_def)

lemma toggle_state_is_checked: "toggle_state p i = Some b \<Longrightarrow> is_checked p i = b"
  by (auto simp: toggle_state_def is_checked_def)

lemma pressed_text_view:
  assumes "w \<in> VIEWS" "\<not> (a \<and> b)"
  shows "pressed_text w (Some a) (Some b) = js ''true'' \<longleftrightarrow>
     w = (if a then js ''installed'' else if b then js ''recommended'' else js ''all'')"
  using assms by (auto simp: VIEWS_def pressed_text_def and_not_def js_eq_iff)

lemma pressed_sync:
  assumes "toggle_state p (js ''installed-only-toggle'') = Some a"
    "toggle_state p (js ''recommended-only-toggle'') = Some b" "\<not> (a \<and> b)"
  shows "pressed (if a then js ''installed'' else if b then js ''recommended'' else js ''all'') (syncModelViews p)"
  using assms by (auto simp: pressed_def syncModelViews_def Let_def set_attr_def pressed_text_view)

text \<open>Clicking a quick view selects it alone: the two hidden toggles of the form are set to it, the
  filters sent with the next request follow, and of the three buttons exactly its own is
  pressed.  A click on the current view changes nothing, so it refetches nothing.\<close>

theorem quick_view_exclusive:
  assumes "v \<in> VIEWS" "filter_form p \<noteq> None"
    and "toggle_state p (js ''installed-only-toggle'') = Some a"
    and "toggle_state p (js ''recommended-only-toggle'') = Some b"
    and "one_view p" "pressed (current_view p) p"
  defines "q \<equiv> model_view_click v p"
  shows "current_view q = v \<and> one_view q \<and> pressed v q \<and> (v = current_view p \<longrightarrow> q = p) \<and>
    (js ''installed_only'' \<in> fst ` set (currentModelFilters q) \<longleftrightarrow> v = js ''installed'') \<and>
    (js ''recommended_only'' \<in> fst ` set (currentModelFilters q) \<longleftrightarrow> v = js ''recommended'')"
proof -
  let ?i = "v = js ''installed''" and ?r = "v = js ''recommended''"
  have v: "(if ?i then js ''installed'' else if ?r then js ''recommended'' else js ''all'') = v"
    using assms(1) by (auto simp: VIEWS_def)
  have ab: "is_checked p (js ''installed-only-toggle'') = a" "is_checked p (js ''recommended-only-toggle'') = b"
    using assms(3,4) by (simp_all add: toggle_state_is_checked)
  have same: "v = current_view p \<longleftrightarrow> a = ?i \<and> b = ?r"
    using assms(1,5) ab by (auto simp: current_view_def one_view_def VIEWS_def js_eq_iff)
  obtain r where q: "q = (if a = ?i \<and> b = ?r then p else syncModelViews r)"
    and r: "toggle_state r (js ''installed-only-toggle'') = Some ?i"
      "toggle_state r (js ''recommended-only-toggle'') = Some ?r" "filter_form r = filter_form p"
  proof
    let ?p1 = "upd_el (js ''recommended-only-toggle'') (set_checked ?r)
        (upd_el (js ''installed-only-toggle'') (set_checked ?i) p)"
    let ?p2 = "if 0 < listeners ?p1 (js ''models-filter-form'') then updateFilterChrome ?p1 else ?p1"
    show "q = (if a = ?i \<and> b = ?r then p else syncModelViews ?p2)"
      using assms(2-4) by (auto simp: q_def model_view_click_def Let_def)
    have t: "toggle_state ?p1 (js ''installed-only-toggle'') = Some ?i"
      "toggle_state ?p1 (js ''recommended-only-toggle'') = Some ?r"
      using assms(3,4) by (auto simp: toggle_state_def set_checked_def js_eq_iff)
    then show "toggle_state ?p2 (js ''installed-only-toggle'') = Some ?i"
      "toggle_state ?p2 (js ''recommended-only-toggle'') = Some ?r" "filter_form ?p2 = filter_form p"
      by (simp_all add: toggle_state_def updateFilterChrome_def Let_def js_eq_iff)
  qed
  have tq: "toggle_state q (js ''installed-only-toggle'') = Some ?i"
    "toggle_state q (js ''recommended-only-toggle'') = Some ?r" "filter_form q = filter_form p"
    using q r assms(3,4) by (auto simp: toggle_state_sync)
  note cq = tq(1,2) [THEN toggle_state_is_checked]
  have "pressed v q"
    using pressed_sync [OF r(1,2)] v same assms(6) q by (auto simp: js_eq_iff)
  moreover have "current_view q = v" unfolding current_view_def cq by (rule v)
  moreover have "one_view q" by (simp add: one_view_def cq js_eq_iff)
  ultimately show ?thesis
    using same q assms(2) cq tq(3) by (auto simp: currentModelFilters_def js_eq_iff split: option.splits if_splits)
qed

section \<open>Listeners\<close>

text \<open>Where \<open>initModelFilters\<close> attaches a listener: the element's id and the \<open>data\<close> flag it sets.\<close>

definition bind_points :: "(jsstring \<times> jsstring) list" where
  "bind_points =
    [(js ''filter-clear'', js ''data-bound''), (js ''models-filter-form'', js ''data-filter-bound''),
     (js ''filter-rail-toggle'', js ''data-bound''), (js ''filter-side-collapse'', js ''data-bound''),
     (js ''families-expand-toggle'', js ''data-bound''), (js ''models-list'', js ''data-expand-listen'')]"

definition flagged :: "'a page_scheme \<Rightarrow> jsstring \<Rightarrow> jsstring \<Rightarrow> bool" where
  "flagged p i a = (case get_el p i of None \<Rightarrow> False | Some e \<Rightarrow> opt_or (el_attrs e a) [] \<noteq> [])"

text \<open>Flags and listener counts agree, at every point.\<close>

definition points_once :: "'a filter_page_scheme \<Rightarrow> bool" where
  "points_once p \<longleftrightarrow> (\<forall>(i, a) \<in> set bind_points. listeners p i = (if flagged p i a then 1 else 0))"

definition searches_once :: "filter_data option \<Rightarrow> bool" where
  "searches_once fo \<longleftrightarrow> (\<forall>f s. fo = Some f \<and> s \<in> set (ff_searches f) \<longrightarrow>
     sb_listeners s = (if sb_bound s then 1 else 0))"

definition once :: "'a filter_page_scheme \<Rightarrow> bool" where
  "once p \<longleftrightarrow> points_once p \<and> searches_once (filter_form p) \<and>
     listeners p (js ''window'') = (if resize_bound p then 1 else 0)"

definition data_flag :: "jsstring \<Rightarrow> bool" where
  "data_flag a \<longleftrightarrow> a \<in> {js ''data-bound'', js ''data-filter-bound'', js ''data-expand-listen''}"

lemma flagged_upd:
  "(\<And>e. el_attrs (f e) a = el_attrs e a) \<Longrightarrow> flagged (upd_el j f p) i a = flagged p i a"
  by (simp add: flagged_def el.look_change split: option.split)

lemma flagged_cong: "get_el q i = get_el p i \<Longrightarrow> flagged q i a = flagged p i a"
  by (simp add: flagged_def)

lemma flag_attrs [simp]:
  "el_attrs (set_text t e) = el_attrs e" "el_attrs (class_toggle c b e) = el_attrs e"
  "el_attrs (set_attr n v e) = (el_attrs e)(n \<mapsto> v)"
  by (simp_all add: set_text_def class_toggle_def class_add_def class_remove_def set_attr_def)

lemma flagged_ops:
  assumes "data_flag a"
  shows "flagged (updateFilterChrome p) i a = flagged p i a"
    "flagged (setFilterRailCollapsed c p) i a = flagged p i a"
    "flagged (syncFamiliesExpandToggle g) i a = flagged g i a"
    "flagged (syncModelViews p) i a = flagged p i a" "flagged (upd_form u p) i a = flagged p i a"
    "flagged (p\<lparr>resize_bound := b, listeners := l\<rparr>) i a = flagged p i a"
proof -
  have n: "a \<noteq> js ''title''" "a \<noteq> js ''aria-expanded''" "a \<noteq> js ''aria-label''" "a \<noteq> js ''aria-hidden''"
    "a \<noteq> js ''data-expanded''"
    using assms by (auto simp: data_flag_def js_eq_iff)
  show "flagged (updateFilterChrome p) i a = flagged p i a"
    by (simp add: updateFilterChrome_def Let_def flagged_upd)
  have "flagged (store_rail c q) i a = flagged q i a" "flagged (q\<lparr>rail_label := x\<rparr>) i a = flagged q i a"
    for q :: "'a filter_page_scheme" and x
    by (simp_all add: flagged_def)
  then show "flagged (setFilterRailCollapsed c p) i a = flagged p i a"
    by (simp add: setFilterRailCollapsed_def Let_def flagged_upd rail_attrs_def side_attrs_def n)
  show "flagged (syncFamiliesExpandToggle g) i a = flagged g i a"
    by (simp add: syncFamiliesExpandToggle_def setExpandToggleState_def Let_def flagged_upd n)
  show "flagged (syncModelViews p) i a = flagged p i a" "flagged (upd_form u p) i a = flagged p i a"
    "flagged (p\<lparr>resize_bound := b, listeners := l\<rparr>) i a = flagged p i a"
    by (simp_all add: flagged_def)
qed

lemma get_el_listeners [simp]: "get_el (p\<lparr>listeners := l\<rparr>) i = get_el p i"
  by (simp add: get_el_def)

lemma bind_once_if:
  "bind_once i a p =
     (if get_el p i = None \<or> flagged p i a then p
      else (upd_el i (set_attr a (js ''1'')) p)\<lparr>listeners := (listeners p)(i := Suc (listeners p i))\<rparr>)"
  by (simp add: bind_once_def flagged_def split: option.split)

lemma flagged_set:
  "flagged (upd_el i (set_attr a (js ''1'')) p) j c =
     (if j = i \<and> c = a then get_el p i \<noteq> None else flagged p j c)"
  by (simp add: flagged_def el.look_change str_or_def js_eq_iff split: option.split)

lemma flagged_present: "flagged p i a \<Longrightarrow> get_el p i \<noteq> None"
  by (auto simp: flagged_def split: option.splits)

lemma bind_once_counts:
  "flagged (bind_once i a p) j c = (if j = i \<and> c = a then get_el p i \<noteq> None else flagged p j c)"
  "listeners (bind_once i a p) j = listeners p j + (if j = i \<and> get_el p i \<noteq> None \<and> \<not> flagged p i a then 1 else 0)"
proof -
  have "flagged (q\<lparr>listeners := l\<rparr>) k d = flagged q k d" for q :: "'a filter_page_scheme" and l k d
    by (simp add: flagged_def)
  then show "flagged (bind_once i a p) j c = (if j = i \<and> c = a then get_el p i \<noteq> None else flagged p j c)"
    using flagged_present [of p i a] by (auto simp: bind_once_if flagged_set)
  show "listeners (bind_once i a p) j = listeners p j + (if j = i \<and> get_el p i \<noteq> None \<and> \<not> flagged p i a then 1 else 0)"
    by (simp add: bind_once_if)
qed

lemma once_bind:
  assumes "once p" "(i, a) \<in> set bind_points"
  shows "once (bind_once i a p)"
proof -
  have u: "\<forall>(j, c) \<in> set bind_points. j = i \<longrightarrow> c = a" "i \<noteq> js ''window''"
    using assms(2) by (auto simp: bind_points_def js_eq_iff)
  have "points_once (bind_once i a p)"
    unfolding points_once_def
  proof (clarify)
    fix j c assume "(j, c) \<in> set bind_points"
    with u assms flagged_present [of p i a]
    show "listeners (bind_once i a p) j = (if flagged (bind_once i a p) j c then 1 else 0)"
      by (auto simp: bind_once_counts once_def points_once_def)
  qed
  with assms(1) u(2) show ?thesis by (simp add: once_def bind_once_counts(2))
qed

lemma points_once_same:
  "points_once p \<Longrightarrow> (\<And>i a. data_flag a \<Longrightarrow> flagged q i a = flagged p i a) \<Longrightarrow>
     (\<And>i. i \<noteq> js ''window'' \<Longrightarrow> listeners q i = listeners p i) \<Longrightarrow> points_once q"
  by (auto simp: points_once_def bind_points_def data_flag_def js_eq_iff)

lemma once_same:
  "once p \<Longrightarrow> (\<And>i a. data_flag a \<Longrightarrow> flagged q i a = flagged p i a) \<Longrightarrow>
     filter_form q = filter_form p \<Longrightarrow> listeners q = listeners p \<Longrightarrow> resize_bound q = resize_bound p \<Longrightarrow>
     once q"
  by (simp add: once_def points_once_same [of p q])

lemma searches_once_bind:
  "searches_once fo \<Longrightarrow> searches_once (map_option (\<lambda>f. f\<lparr>ff_searches := map bind_search (ff_searches f)\<rparr>) fo)"
  by (auto simp: searches_once_def bind_search_def)

lemma once_init_bind: "once p \<Longrightarrow> once (init_bind p)"
proof -
  assume p: "once p"
  note b = once_bind [unfolded bind_points_def list.set insert_iff]
  define p2 where "p2 = bind_once (js ''models-filter-form'') (js ''data-filter-bound'')
    (bind_once (js ''filter-clear'') (js ''data-bound'') (syncModelViews p))"
  have "once (syncModelViews p)" using p by (rule once_same) (simp_all add: flagged_ops)
  then have "once p2" unfolding p2_def by (intro b) simp_all
  then have "once (upd_form (\<lambda>f. f\<lparr>ff_searches := map bind_search (ff_searches f)\<rparr>) p2)" (is "once ?p3")
    using points_once_same [of p2 ?p3] searches_once_bind [of "filter_form p2"]
    by (simp add: once_def flagged_ops) (simp add: upd_form_def)
  define p7 where "p7 = bind_once (js ''models-list'') (js ''data-expand-listen'')
    (bind_once (js ''families-expand-toggle'') (js ''data-bound'')
      (bind_once (js ''filter-side-collapse'') (js ''data-bound'')
        (bind_once (js ''filter-rail-toggle'') (js ''data-bound'') ?p3)))"
  from \<open>once ?p3\<close> have p7: "once p7" unfolding p7_def by (intro b) simp_all
  have "once (p7\<lparr>resize_bound := True, listeners := (listeners p7)(js ''window'' := Suc (listeners p7 (js ''window'')))\<rparr>)"
    (is "once ?p8") if "\<not> resize_bound p7"
    using p7 that points_once_same [of p7 ?p8] by (simp add: once_def flagged_ops)
  then show ?thesis using p7 by (simp add: init_bind_def Let_def p7_def p2_def)
qed

lemma once_init: "once p \<Longrightarrow> once (initModelFilters p)"
proof -
  assume "once p"
  then have "once (init_bind p)" by (rule once_init_bind)
  then have "once (setFilterRailCollapsed c (init_bind p))" for c
    by (rule once_same) (simp_all add: flagged_ops)
  with \<open>once (init_bind p)\<close> show ?thesis
    unfolding initModelFilters_eq by (auto intro: once_same simp: flagged_ops)
qed

lemma init_present: "get_el (initModelFilters p) i = None \<longleftrightarrow> get_el p i = None"
  unfolding initModelFilters_eq by (simp add: present_ops)

lemma init_flagged:
  assumes "(i, a) \<in> set bind_points"
  shows "flagged (initModelFilters p) i a \<longleftrightarrow> get_el p i \<noteq> None"
proof -
  have "data_flag a" using assms by (auto simp: bind_points_def data_flag_def)
  note f = flagged_ops [OF this]
  have "flagged (init_bind p) i a \<longleftrightarrow> get_el p i \<noteq> None"
    using assms by (auto simp: init_bind_def Let_def f bind_once_counts bind_points_def js_eq_iff)
  then show ?thesis unfolding initModelFilters_eq by (simp add: f)
qed

lemma init_form: "filter_form (initModelFilters p) =
    map_option (\<lambda>f. f\<lparr>ff_searches := map bind_search (ff_searches f)\<rparr>) (filter_form p)"
proof -
  have "filter_form (init_bind p) =
      map_option (\<lambda>f. f\<lparr>ff_searches := map bind_search (ff_searches f)\<rparr>) (filter_form p)"
    by (simp add: init_bind_def Let_def) (simp add: upd_form_def)
  then show ?thesis unfolding initModelFilters_eq by simp
qed

lemma init_resize: "resize_bound (initModelFilters p)"
proof -
  have "resize_bound (init_bind p)" by (simp add: init_bind_def Let_def)
  then show ?thesis unfolding initModelFilters_eq by simp
qed

text \<open>C28.  \<open>initModelFilters\<close> runs after every swap of the panel or of the list, and still each control
  has exactly one listener: however often it runs on a page whose flags and listeners agree (a
  panel as delivered has neither), every control that is present, every search field and the
  window have one listener each, so no click toggles twice.\<close>

theorem listeners_attached_once:
  fixes p :: "'a filter_page_scheme" and n :: nat
  assumes "once p"
  defines "q \<equiv> (initModelFilters ^^ Suc n) p"
  shows "(\<forall>(i, a) \<in> set bind_points. listeners q i = (if get_el p i = None then 0 else 1)) \<and>
    (\<forall>f s. filter_form q = Some f \<and> s \<in> set (ff_searches f) \<longrightarrow> sb_listeners s = 1) \<and>
    listeners q (js ''window'') = 1"
proof -
  define r where "r = (initModelFilters ^^ n) p"
  have o: "once ((initModelFilters ^^ m) p)" for m
    by (induction m) (use assms(1) in \<open>simp_all add: once_init\<close>)
  have g: "get_el ((initModelFilters ^^ m) p) i = None \<longleftrightarrow> get_el p i = None" for i m
    by (induction m) (simp_all add: init_present)
  have q: "q = initModelFilters r" "once q" "get_el r i = None \<longleftrightarrow> get_el p i = None" for i
    using o [of "Suc n"] g [of n i] by (simp_all add: q_def r_def)
  have "listeners q i = (if get_el p i = None then 0 else 1)" if "(i, a) \<in> set bind_points" for i a
    using that q init_flagged [OF that, of r] by (auto simp: once_def points_once_def)
  moreover have "sb_listeners s = 1" if "filter_form q = Some f" "s \<in> set (ff_searches f)" for f s
  proof -
    have "sb_bound s" using that by (auto simp: q(1) init_form bind_search_def)
    then show ?thesis using that q(2) by (auto simp: once_def searches_once_def)
  qed
  moreover have "listeners q (js ''window'') = 1"
    using q(2) init_resize [of r] by (simp add: once_def q(1))
  ultimately show ?thesis by blast
qed

section \<open>A delivered page\<close>

definition models_form :: filter_data where
  "models_form = \<lparr>ff_checks =
      [\<lparr>ck_list = js ''language-filter-list'', ck_name = js ''language'', ck_value = js ''en'',
        ck_label = js ''English'', ck_checked = True, ck_hidden = True\<rparr>],
     ff_size = Some [],
     ff_searches = [\<lparr>sb_list = Some (js ''language-filter-list''), sb_value = js '' ger '',
        sb_bound = False, sb_listeners = 0\<rparr>]\<rparr>"

definition filter_start :: filter_page where
  "filter_start = grid_page.extend grid_start
     \<lparr>filter_form = Some models_form,
      views = [(js ''all'', set_attr (js ''aria-pressed'') (js ''true'') blank),
               (js ''recommended'', set_attr (js ''aria-pressed'') (js ''false'') blank),
               (js ''installed'', set_attr (js ''aria-pressed'') (js ''false'') blank)],
      rail_label = Some blank, listeners = (\<lambda>_. 0), resize_bound = False\<rparr>"

lemma filter_start_simps [simp]:
  "get_el filter_start i = Some blank" "store_blocked filter_start = False"
  "get_item filter_start k = None" "filter_form filter_start = Some models_form"
  "listeners filter_start = (\<lambda>_. 0)" "resize_bound filter_start = False"
  by (simp_all add: filter_start_def grid_page.defs grid_start_def view_page.defs view_start_def
      shell_page.defs get_el_def get_item_def shell_start_def tabs_page.defs tabs_start_def
      banner_page.defs banner_start_def)

theorem rail_persists_witness:
  "\<not> isFilterRailCollapsed (rail_toggle_click (initModelFilters filter_start))"
proof -
  let ?q = "rail_toggle_click (initModelFilters filter_start)"
  let ?r = "filter_start\<lparr>store := store ?q\<rparr>"
  have e: "get_el filter_start (js ''models-layout'') \<noteq> None" "\<not> store_blocked filter_start" by simp_all
  have r: "get_el ?r (js ''models-layout'') \<noteq> None" "\<not> store_blocked ?r"
    "get_item ?r FILTER_RAIL_KEY = get_item ?q FILTER_RAIL_KEY"
    using e(1) by (simp_all add: get_el_def get_item_def)
  from rail_persists [OF e refl r] show ?thesis by (simp add: isFilterRailCollapsed_def)
qed

theorem clear_resets_filters_witness:
  "active_groups filter_start = 1 \<and> active_groups (filter_clear_click filter_start) = 0"
proof -
  have "active_groups filter_start = 1"
    by (simp add: active_groups_def currentModelFilters_def models_form_def checkedFilterValues_def
        is_checked_def blank_def js_eq_iff)
  moreover have "active_groups (filter_clear_click filter_start) = 0"
    using clear_resets_filters [of filter_start models_form] by (simp add: models_form_def js_eq_iff)
  ultimately show ?thesis by blast
qed

theorem quick_view_exclusive_witness:
  "pressed (js ''installed'') (model_view_click (js ''installed'') filter_start)"
proof -
  have c: "is_checked filter_start i = False" "toggle_state filter_start i = Some False" for i
    by (simp_all add: is_checked_def toggle_state_def blank_def)
  have "pressed (current_view filter_start) filter_start" "one_view filter_start"
    by (simp_all add: current_view_def one_view_def c)
      (simp add: pressed_def filter_start_def grid_page.defs set_attr_def blank_def js_eq_iff VIEWS_def)
  then show ?thesis
    using quick_view_exclusive [of "js ''installed''" filter_start False False] by (simp add: VIEWS_def c)
qed

theorem listeners_attached_once_witness:
  "listeners ((initModelFilters ^^ 3) filter_start) (js ''filter-rail-toggle'') = 1"
proof -
  have "once filter_start"
    by (simp add: once_def points_once_def searches_once_def flagged_def blank_def models_form_def)
  from listeners_attached_once [OF this, of 2] show ?thesis by (simp add: bind_points_def numeral_3_eq_3 numeral_2_eq_2)
qed

end
