(* ===== verification/Dialogs.thy ===== *)
theory Dialogs
  imports ModelFilters
begin

text \<open>
  The modal dialogs of \<open>app/webui/app.js\<close>: \<open>openDialog\<close> and \<open>closeDialog\<close> with the map from a dialog
  to the control that opened it, every path that closes one, the model detail dialog that opens
  once its content has been swapped in, and the enlarged QR code.
\<close>

section \<open>State\<close>

text \<open>A \<open><dialog>\<close>: its \<open>open\<close>, its \<open>data-bound\<close> flag and the number of its Escape listeners, whether
  it holds a control with \<open>data-dialog-close\<close>, its entry in \<open>dialogOpener\<close> (an absent entry, an
  entry \<open>null\<close>, or a control), and the element the browser remembers when it opens it.\<close>

record dialog =
  dl_open :: bool
  dl_bound :: bool
  dl_listeners :: nat
  dl_closer :: bool
  dl_opener :: "focus_ref option option"
  dl_before :: "focus_ref option"

record dialog_page = filter_page +
  dialogs :: "jsstring \<Rightarrow> dialog option"
  detailOpener :: "focus_ref option"
  zoom_figure :: "nat option option"

definition upd_dialog :: "jsstring \<Rightarrow> (dialog \<Rightarrow> dialog) \<Rightarrow> 'a dialog_page_scheme \<Rightarrow> 'a dialog_page_scheme" where
  "upd_dialog d f p = p\<lparr>dialogs := (dialogs p)(d := map_option f (dialogs p d))\<rparr>"

definition get_dialog :: "'a dialog_page_scheme \<Rightarrow> jsstring \<Rightarrow> dialog option" where
  "get_dialog p d = dialogs p d"

text \<open>The store of dialogs has the same laws as that of the elements.\<close>

interpretation dl: element_store get_dialog upd_dialog
  by unfold_locales (simp add: get_dialog_def upd_dialog_def)

section \<open>The browser's methods\<close>

definition focus_opt :: "focus_ref option \<Rightarrow> 'a page_scheme \<Rightarrow> 'a page_scheme" where
  "focus_opt r p = (case r of None \<Rightarrow> p | Some x \<Rightarrow> set_focus x p)"

text \<open>\<open>close()\<close> gives the focus back to the element that had it when the dialog opened;
  \<open>showModal()\<close> remembers that element and moves the focus into the dialog.\<close>

definition native_close :: "jsstring \<Rightarrow> 'a dialog_page_scheme \<Rightarrow> 'a dialog_page_scheme" where
  "native_close d p =
     (case get_dialog p d of
        None \<Rightarrow> p
      | Some x \<Rightarrow> focus_opt (dl_before x) (upd_dialog d (\<lambda>x. x\<lparr>dl_open := False\<rparr>) p))"

definition showModal :: "jsstring \<Rightarrow> 'a dialog_page_scheme \<Rightarrow> 'a dialog_page_scheme" where
  "showModal d p =
     set_focus (ById d) (upd_dialog d (\<lambda>x. x\<lparr>dl_open := True, dl_before := focused p\<rparr>) p)"

definition closer_ref :: "jsstring \<Rightarrow> focus_ref" where
  "closer_ref d = Nth (d @ js '' [data-dialog-close]'') 0"

section \<open>Opening and closing\<close>

definition closeDialog :: "jsstring \<Rightarrow> 'a dialog_page_scheme \<Rightarrow> 'a dialog_page_scheme" where
  "closeDialog d p =
     (case get_dialog p d of
        None \<Rightarrow> p
      | Some x \<Rightarrow>
          if \<not> dl_open x then p
          else
            let p1 = native_close d p;
                p2 = focus_opt (case dl_opener x of Some r \<Rightarrow> r | None \<Rightarrow> None) p1
            in upd_dialog d (\<lambda>x. x\<lparr>dl_opener := None\<rparr>) p2)"

definition openDialog :: "jsstring \<Rightarrow> focus_ref option \<Rightarrow> 'a dialog_page_scheme \<Rightarrow> 'a dialog_page_scheme" where
  "openDialog d opener p =
     (case get_dialog p d of
        None \<Rightarrow> p
      | Some x \<Rightarrow>
          if dl_open x then p
          else
            let p1 = upd_dialog d (\<lambda>x. x\<lparr>dl_opener := Some opener\<rparr>) p;
                p2 = (if dl_bound x then p1
                      else upd_dialog d (\<lambda>x. x\<lparr>dl_bound := True, dl_listeners := Suc (dl_listeners x)\<rparr>) p1);
                p3 = showModal d p2
            in if dl_closer x then set_focus (closer_ref d) p3 else p3)"

definition MODEL_DETAIL :: jsstring where
  "MODEL_DETAIL = js ''model-detail''"

definition QR_ZOOM :: jsstring where
  "QR_ZOOM = js ''qr-zoom''"

text \<open>The body's click listener: the target is inside a closer (of the dialog given, if it is in one),
  else maybe inside a detail button.\<close>

definition detail_click ::
    "jsstring option option \<Rightarrow> focus_ref option \<Rightarrow> 'a dialog_page_scheme \<Rightarrow> 'a dialog_page_scheme" where
  "detail_click closer trigger p =
     (case closer of
        Some od \<Rightarrow> (case od of None \<Rightarrow> p | Some d \<Rightarrow> closeDialog d p)
      | None \<Rightarrow> (case trigger of None \<Rightarrow> p | Some t \<Rightarrow> p\<lparr>detailOpener := Some t\<rparr>))"

definition detail_afterSwap :: "jsstring option \<Rightarrow> 'a dialog_page_scheme \<Rightarrow> 'a dialog_page_scheme" where
  "detail_afterSwap target p =
     (if target \<noteq> Some (js ''model-detail-body'') then p else openDialog MODEL_DETAIL (detailOpener p) p)"

definition request_closes :: "bool \<Rightarrow> 'a dialog_page_scheme \<Rightarrow> 'a dialog_page_scheme" where
  "request_closes from_action p = (if from_action then closeDialog MODEL_DETAIL p else p)"

definition backdrop_click :: "jsstring option \<Rightarrow> 'a dialog_page_scheme \<Rightarrow> 'a dialog_page_scheme" where
  "backdrop_click target p =
     (case target of
        None \<Rightarrow> p
      | Some d \<Rightarrow>
          (case get_dialog p d of None \<Rightarrow> p | Some x \<Rightarrow> if dl_open x then closeDialog d p else p))"

definition escape_key :: "jsstring \<Rightarrow> jsstring \<Rightarrow> 'a dialog_page_scheme \<Rightarrow> 'a dialog_page_scheme" where
  "escape_key key d p =
     (case get_dialog p d of
        None \<Rightarrow> p
      | Some x \<Rightarrow>
          if dl_listeners x = 0 \<or> key \<noteq> js ''Escape'' then p
          else (closeDialog d ^^ dl_listeners x) p)"

text \<open>The click on a QR code: \<open>source\<close> is the drawing inside the control that was clicked.\<close>

definition enlarge_click :: "focus_ref \<Rightarrow> nat option \<Rightarrow> 'a dialog_page_scheme \<Rightarrow> 'a dialog_page_scheme" where
  "enlarge_click trigger source p =
     (case (get_dialog p QR_ZOOM, zoom_figure p, source) of
        (Some x, Some fig, Some drawing) \<Rightarrow>
          openDialog QR_ZOOM (Some trigger) (p\<lparr>zoom_figure := Some (Some drawing)\<rparr>)
      | _ \<Rightarrow> p)"

section \<open>Runs\<close>

datatype dialog_event =
    DetailClick "jsstring option option" "focus_ref option"
  | DetailSwap "jsstring option"
  | ActionRequest bool
  | BackdropClick "jsstring option"
  | DialogKey jsstring jsstring
  | EnlargeClick focus_ref "nat option"

fun dialog_step :: "'a dialog_page_scheme \<Rightarrow> dialog_event \<Rightarrow> 'a dialog_page_scheme" where
  "dialog_step p (DetailClick c t) = detail_click c t p"
| "dialog_step p (DetailSwap t) = detail_afterSwap t p"
| "dialog_step p (ActionRequest a) = request_closes a p"
| "dialog_step p (BackdropClick t) = backdrop_click t p"
| "dialog_step p (DialogKey k d) = escape_key k d p"
| "dialog_step p (EnlargeClick t s) = enlarge_click t s p"

text \<open>The map of openers has an entry exactly for the open dialogs, an open dialog listens to Escape,
  and no dialog ever gets a second listener.\<close>

definition dialog_ok :: "dialog \<Rightarrow> bool" where
  "dialog_ok x \<longleftrightarrow> (dl_opener x \<noteq> None \<longleftrightarrow> dl_open x) \<and> (dl_open x \<longrightarrow> dl_bound x) \<and>
     dl_listeners x = (if dl_bound x then 1 else 0)"

definition dialogs_ok :: "'a dialog_page_scheme \<Rightarrow> bool" where
  "dialogs_ok p \<longleftrightarrow> (\<forall>d x. get_dialog p d = Some x \<longrightarrow> dialog_ok x)"

lemma get_dialog_focus [simp]:
  "get_dialog (set_focus r p) d = get_dialog p d" "get_dialog (focus_opt o1 p) d = get_dialog p d"
  by (simp_all add: get_dialog_def focus_opt_def set_focus_def split: option.split)

lemma get_dialog_close:
  "get_dialog (closeDialog d p) c =
     (if c = d then map_option (\<lambda>x. if dl_open x then x\<lparr>dl_open := False, dl_opener := None\<rparr> else x) (get_dialog p d)
      else get_dialog p c)"
  by (auto simp: closeDialog_def native_close_def Let_def dl.look_change split: option.split)

lemma get_dialog_open:
  "get_dialog (openDialog d r p) c =
     (if c = d then map_option (\<lambda>x. if dl_open x then x
         else x\<lparr>dl_opener := Some r, dl_bound := True,
                dl_listeners := (if dl_bound x then dl_listeners x else Suc (dl_listeners x)),
                dl_open := True, dl_before := focused p\<rparr>) (get_dialog p d)
      else get_dialog p c)"
proof -
  have f: "focused (upd_dialog e g q) = focused q" for e g and q :: "'a dialog_page_scheme"
    by (simp add: upd_dialog_def)
  show ?thesis
    by (auto simp: openDialog_def showModal_def Let_def dl.look_change f split: option.split)
qed

lemma focused_close:
  "get_dialog p d = Some x \<Longrightarrow> dl_open x \<Longrightarrow> dl_opener x = Some (Some r) \<Longrightarrow>
     focused (closeDialog d p) = Some r"
  by (simp add: closeDialog_def focus_opt_def Let_def) (simp add: upd_dialog_def)

lemma dialogs_ok_map:
  assumes "dialogs_ok p" "\<And>x. dialog_ok x \<Longrightarrow> dialog_ok (g x)"
    and "\<And>c. get_dialog q c = (if c = d then map_option g (get_dialog p d) else get_dialog p c)"
  shows "dialogs_ok q"
  unfolding dialogs_ok_def
proof (intro allI impI)
  fix c x assume x: "get_dialog q c = Some x"
  show "dialog_ok x"
  proof (cases "c = d")
    case True
    with x assms(3) [of c] obtain z where "get_dialog p d = Some z" "x = g z"
      by (metis map_option_eq_Some)
    with assms(1,2) show ?thesis by (auto simp: dialogs_ok_def)
  next
    case False
    with x assms(1,3) show ?thesis by (simp add: dialogs_ok_def)
  qed
qed

lemma ok_close: "dialogs_ok p \<Longrightarrow> dialogs_ok (closeDialog d p)"
  by (erule dialogs_ok_map [OF _ _ get_dialog_close]) (simp add: dialog_ok_def)

lemma ok_open: "dialogs_ok p \<Longrightarrow> dialogs_ok (openDialog d r p)"
  by (erule dialogs_ok_map [OF _ _ get_dialog_open]) (simp add: dialog_ok_def)

lemma ok_close_power: "dialogs_ok p \<Longrightarrow> dialogs_ok ((closeDialog d ^^ n) p)"
  by (induction n) (simp_all add: ok_close)

lemma ok_update [simp]:
  "dialogs_ok (p\<lparr>detailOpener := r\<rparr>) = dialogs_ok p" "dialogs_ok (p\<lparr>zoom_figure := z\<rparr>) = dialogs_ok p"
  by (simp_all add: dialogs_ok_def get_dialog_def)

lemma dialog_step_ok: "dialogs_ok p \<Longrightarrow> dialogs_ok (dialog_step p e)"
  by (cases e)
    (auto simp: detail_click_def detail_afterSwap_def request_closes_def backdrop_click_def
      escape_key_def enlarge_click_def ok_close ok_open ok_close_power split: option.split)

text \<open>In every run of clicks, swaps, requests and keys, each dialog has an opener recorded exactly
  while it is open, listens to Escape while it is open, and has at most one Escape listener
  however often it is opened.\<close>

theorem openers_match_open_dialogs:
  assumes "dialogs_ok p"
  shows "\<forall>d x. get_dialog (foldl dialog_step p es) d = Some x \<longrightarrow>
    (dl_opener x \<noteq> None \<longleftrightarrow> dl_open x) \<and> (dl_open x \<longrightarrow> dl_listeners x = 1) \<and> dl_listeners x \<le> 1"
proof -
  have "dialogs_ok (foldl dialog_step p es)"
    using assms by (induction es arbitrary: p) (simp_all add: dialog_step_ok)
  then show ?thesis by (fastforce simp: dialogs_ok_def dialog_ok_def)
qed

text \<open>C25.  Whichever way an open dialog is closed (its close control, Escape, a click on the backdrop, or
  for the detail dialog an action's request), it ends up closed, its opener is forgotten, and the
  focus is back on the control that opened it, not inside the hidden dialog.\<close>

theorem close_returns_focus:
  assumes "dialogs_ok p" "get_dialog p d = Some x" "\<not> dl_open x"
    and "q = openDialog d (Some r) p"
    and "e \<in> {DetailClick (Some (Some d)) t, DialogKey (js ''Escape'') d, BackdropClick (Some d)} \<union>
      (if d = MODEL_DETAIL then {ActionRequest True} else {})"
  shows "focused q = Some (if dl_closer x then closer_ref d else ById d) \<and>
    focused (dialog_step q e) = Some r \<and>
    (\<exists>y. get_dialog (dialog_step q e) d = Some y \<and> \<not> dl_open y \<and> dl_opener y = None)"
proof -
  obtain y where y: "get_dialog q d = Some y" "dl_open y" "dl_opener y = Some (Some r)"
    using assms(2-4) by (auto simp: get_dialog_open)
  have "dialogs_ok q" unfolding assms(4) by (rule ok_open [OF assms(1)])
  with y have l: "dl_listeners y = 1" by (auto simp: dialogs_ok_def dialog_ok_def)
  have "dialog_step q e = closeDialog d q"
    using assms(5) y l
    by (auto simp: detail_click_def escape_key_def backdrop_click_def request_closes_def split: if_splits)
  moreover have "focused q = Some (if dl_closer x then closer_ref d else ById d)"
    using assms(2-4) by (simp add: openDialog_def showModal_def Let_def)
  ultimately show ?thesis using y focused_close [OF y] by (simp add: get_dialog_close)
qed

definition closed_dialog :: dialog where
  "closed_dialog = \<lparr>dl_open = False, dl_bound = False, dl_listeners = 0, dl_closer = True,
     dl_opener = None, dl_before = None\<rparr>"

definition dialog_start :: dialog_page where
  "dialog_start = filter_page.extend filter_start
     \<lparr>dialogs = [MODEL_DETAIL \<mapsto> closed_dialog, QR_ZOOM \<mapsto> closed_dialog], detailOpener = None,
      zoom_figure = Some None\<rparr>"

lemma dialog_start_simps [simp]:
  "get_dialog dialog_start MODEL_DETAIL = Some closed_dialog"
  "get_dialog dialog_start QR_ZOOM = Some closed_dialog" "dialogs_ok dialog_start"
  by (auto simp: dialog_start_def filter_page.defs get_dialog_def MODEL_DETAIL_def QR_ZOOM_def js_eq_iff
      dialogs_ok_def dialog_ok_def closed_dialog_def split: if_splits)

theorem openers_match_open_dialogs_witness:
  "\<exists>x. get_dialog (foldl dialog_step dialog_start
      [DetailClick None (Some (Node 1)), DetailSwap (Some (js ''model-detail-body''))]) MODEL_DETAIL = Some x \<and>
    dl_open x \<and> dl_opener x \<noteq> None \<and> dl_listeners x = 1"
proof -
  let ?q = "foldl dialog_step dialog_start [DetailClick None (Some (Node 1)), DetailSwap (Some (js ''model-detail-body''))]"
  have "\<exists>x. get_dialog ?q MODEL_DETAIL = Some x \<and> dl_open x"
  proof -
    have "get_dialog (dialog_start\<lparr>detailOpener := r\<rparr>) MODEL_DETAIL = Some closed_dialog" for r
      using dialog_start_simps(1) by (simp add: get_dialog_def)
    then show ?thesis by (simp add: detail_click_def detail_afterSwap_def get_dialog_open closed_dialog_def)
  qed
  then obtain x where "get_dialog ?q MODEL_DETAIL = Some x" "dl_open x" by blast
  moreover from this openers_match_open_dialogs [of dialog_start
      "[DetailClick None (Some (Node 1)), DetailSwap (Some (js ''model-detail-body''))]"]
  have "dl_opener x \<noteq> None \<and> dl_listeners x = 1" by simp
  ultimately show ?thesis by blast
qed

theorem close_returns_focus_witness:
  "focused (dialog_step (openDialog MODEL_DETAIL (Some (Node 3)) dialog_start) (ActionRequest True)) = Some (Node 3)"
  using close_returns_focus [of dialog_start MODEL_DETAIL closed_dialog _ "Node 3" "ActionRequest True" None]
  by (simp add: closed_dialog_def)

end
