(* ===== verification/Polling.thy ===== *)
theory Polling
  imports Dialogs
begin

text \<open>
  Download progress (\<open>app/webui/app.js\<close>): \<open>formatBytes\<close>, the one timer of \<open>scheduleModelPoll\<close>, and
  \<open>pollModelProgress\<close>, split at its \<open>await\<close>: several requests can be in flight, and the cards a
  request was made for may have been replaced when its reply arrives.
\<close>

section \<open>Sizes\<close>

text \<open>The comparisons convert the size to a number; the last line prints it as it is.\<close>

definition formatBytes :: "jsval \<Rightarrow> jsstring" where
  "formatBytes sz =
     (case to_numeric sz of
        Fin q \<Rightarrow>
          if 1000000000 \<le> q then num_fixed 1 (num_over (Fin q) 1000000000) @ js '' GB''
          else if 1000000 \<le> q then js_int (math_round (rnd (q / 1000000))) @ js '' MB''
          else if 1000 \<le> q then js_int (math_round (rnd (q / 1000))) @ js '' KB''
          else to_text sz @ js '' B''
      | Infinity \<Rightarrow> js ''Infinity GB''
      | _ \<Rightarrow> to_text sz @ js '' B'')"

section \<open>State\<close>

text \<open>A model card of the list: the node, its \<open>data-model-id\<close> and \<open>data-state\<close>, its progress bar with
  \<open>aria-valuenow\<close>, the width of the bar inside, and the line of text.\<close>

record card =
  cd_node :: nat
  cd_model :: jsstring
  cd_state :: jsstring
  cd_progress :: "elem option"
  cd_width :: "jsstring option"
  cd_copy :: "elem option"

text \<open>\<open>polls\<close> are the requests in flight, each with the cards it was made for.\<close>

record poll_page = dialog_page +
  cards :: "card list"
  visible :: bool
  poll_timer :: "nat option"
  polls :: "card list list"

definition downloading :: "card list \<Rightarrow> card list" where
  "downloading cs = filter (\<lambda>c. cd_state c = js ''downloading'') cs"

section \<open>Scheduling\<close>

definition scheduleModelPoll :: "nat \<Rightarrow> 'a poll_page_scheme \<Rightarrow> 'a poll_page_scheme" where
  "scheduleModelPoll delay p =
     (let p1 = (stop_timer (poll_timer p) p)\<lparr>poll_timer := None\<rparr>
      in if downloading (cards p1) = [] \<or> \<not> visible p1 then p1
         else case start_timer (PollModels, delay) p1 of (p2, h) \<Rightarrow> p2\<lparr>poll_timer := Some h\<rparr>)"

definition visibilitychange :: "bool \<Rightarrow> 'a poll_page_scheme \<Rightarrow> 'a poll_page_scheme" where
  "visibilitychange v p = scheduleModelPoll 400 (p\<lparr>visible := v\<rparr>)"

section \<open>Polling\<close>

definition models_request :: "'a page_scheme \<Rightarrow> request" where
  "models_request p = Fetch (js ''GET'') (js ''/v1/admin/models'') [(js ''Authorization'', bearer p)] None"

definition pollModelProgress_start :: "'a poll_page_scheme \<Rightarrow> 'a poll_page_scheme" where
  "pollModelProgress_start p =
     (let cs = downloading (cards p)
      in if cs = [] \<or> \<not> visible p then p
         else send (models_request p) (p\<lparr>polls := polls p @ [cs]\<rparr>))"

text \<open>\<open>entries.map((entry) => [entry.id, entry])\<close> throws unless the payload is an array of values
  that have properties.  In a \<open>Map\<close> the last entry with an id wins.\<close>

definition entries_of :: "jsval \<Rightarrow> jsval list result" where
  "entries_of payload =
     (case payload of
        Arr es \<Rightarrow> if \<exists>e \<in> set es. nullish e then Inl TypeError else Inr es
      | _ \<Rightarrow> Inl TypeError)"

definition entry_for :: "jsval list \<Rightarrow> jsstring \<Rightarrow> jsval option" where
  "entry_for es m =
     (case filter (\<lambda>e. own e (js ''id'') = Str m) es of [] \<Rightarrow> None | fs \<Rightarrow> Some (last fs))"

text \<open>\<open>Math.max(0, Math.min(1, entry.progress || 0))\<close> and \<open>Math.round(ratio * 100)\<close>: NaN where the
  reported progress is no number.\<close>

definition ratio_of :: "jsval \<Rightarrow> jsnum" where
  "ratio_of e = js_max (Fin 0) (js_min (Fin 1) (to_numeric (or_zero e ''progress'')))"

definition percent_of :: "jsval \<Rightarrow> jsnum" where
  "percent_of e = num_round (num_times (ratio_of e) 100)"

definition paint_card :: "jsval \<Rightarrow> card \<Rightarrow> card" where
  "paint_card e c =
     c\<lparr>cd_progress := map_option (set_attr (js ''aria-valuenow'') (jsnum_text (percent_of e))) (cd_progress c),
       cd_width := map_option (\<lambda>_. num_fixed 2 (num_times (ratio_of e) 100) @ js ''%'') (cd_width c),
       cd_copy := map_option (set_text (jsnum_text (percent_of e) @ js ''% '' @ [0xB7] @ js '' ''
         @ formatBytes (or_zero e ''downloaded_bytes'') @ js '' / ''
         @ formatBytes (or_zero e ''total_bytes''))) (cd_copy c)\<rparr>"

definition live_entry :: "jsval list \<Rightarrow> jsstring \<Rightarrow> jsval option" where
  "live_entry es m =
     (case entry_for es m of
        Some e \<Rightarrow> if truthy e \<and> own e (js ''state'') = Str (js ''downloading'') then Some e else None
      | None \<Rightarrow> None)"

text \<open>The loop over the cards: those still downloading are painted, if their node is still on the
  page; any other asks for a refresh.\<close>

definition paint_cards :: "jsval list \<Rightarrow> card list \<Rightarrow> card list \<Rightarrow> card list" where
  "paint_cards es asked cs =
     map (\<lambda>c. if cd_node c \<in> cd_node ` set asked then
                (case live_entry es (cd_model c) of Some e \<Rightarrow> paint_card e c | None \<Rightarrow> c)
              else c) cs"

definition needs_refresh :: "jsval list \<Rightarrow> card list \<Rightarrow> bool" where
  "needs_refresh es asked \<longleftrightarrow> (\<exists>c \<in> set asked. live_entry es (cd_model c) = None)"

definition list_request :: "'a filter_page_scheme \<Rightarrow> request" where
  "list_request p =
     Ajax (js ''GET'') (js ''/ui/partials/models-list'') (js ''#models-list'') (js ''innerHTML'')
       (currentModelFilters p)"

definition pollModelProgress_finish ::
    "card list \<Rightarrow> reply result \<Rightarrow> 'a poll_page_scheme \<Rightarrow> 'a poll_page_scheme" where
  "pollModelProgress_finish asked outcome p =
     (case outcome of
        Inl e \<Rightarrow> scheduleModelPoll 2500 p
      | Inr r \<Rightarrow>
          if rp_status r = 401 then
            showOverlay (js ''Session expired. Paste the current token.'') (remove_item TOKEN_KEY p)
          else if \<not> rp_ok r then scheduleModelPoll 2500 p
          else case bind_result (rp_json r) entries_of of
            Inl e \<Rightarrow> scheduleModelPoll 2500 p
          | Inr es \<Rightarrow>
              let p1 = p\<lparr>cards := paint_cards es asked (cards p)\<rparr>
              in if needs_refresh es asked \<and> get_el p1 (js ''models-list'') \<noteq> None
                 then send (list_request p1) p1
                 else scheduleModelPoll 400 p1)"

section \<open>Runs\<close>

text \<open>Swaps bring new cards and end in \<open>scheduleModelPoll\<close>; the timer's callback starts a request;
  replies to the requests in flight arrive in any order.\<close>

datatype poll_event =
    CardsSwapped "card list"
  | VisibilityChange bool
  | PollTimer nat
  | PollReply nat "reply result"

fun poll_step :: "'a poll_page_scheme \<Rightarrow> poll_event \<Rightarrow> 'a poll_page_scheme" where
  "poll_step p (CardsSwapped cs) = scheduleModelPoll 400 (p\<lparr>cards := cs\<rparr>)"
| "poll_step p (VisibilityChange v) = visibilitychange v p"
| "poll_step p (PollTimer h) =
     (case timers p h of
        Some (PollModels, d) \<Rightarrow> pollModelProgress_start (stop_timer (Some h) p)
      | _ \<Rightarrow> p)"
| "poll_step p (PollReply k outcome) =
     (if k < length (polls p)
      then pollModelProgress_finish (polls p ! k) outcome
        (p\<lparr>polls := take k (polls p) @ drop (Suc k) (polls p)\<rparr>)
      else p)"

section \<open>Sizes in words\<close>

lemma rnd_div_bounds:
  assumes "c * lo \<le> q" "q \<le> c * of_nat hi" "0 < c" "lo = of_nat l" "l \<le> 2 ^ 53" "hi \<le> 2 ^ 53"
  shows "lo \<le> rnd (q / c) \<and> rnd (q / c) \<le> of_nat hi"
proof -
  have "of_nat l \<le> q / c" "q / c \<le> of_nat hi"
    using assms by (simp_all add: pos_le_divide_eq pos_divide_le_eq mult.commute)
  then show ?thesis using rnd_ge_of_nat rnd_le_of_nat assms(4-6) by blast
qed

lemma math_round_bounds:
  "of_nat l \<le> x \<Longrightarrow> x \<le> of_nat h \<Longrightarrow> int l \<le> math_round x \<and> math_round x \<le> int h"
  using math_round_mono [of "of_nat l" x] math_round_mono [of x "of_nat h"]
    math_round_of_int [of "int l"] math_round_of_int [of "int h"] by simp

lemma round_unit:
  assumes "c \<le> q" "q < c * 1000" "(0::rat) < c"
  shows "1 \<le> math_round (rnd (q / c)) \<and> math_round (rnd (q / c)) \<le> 1000"
proof -
  have "1 \<le> rnd (q / c) \<and> rnd (q / c) \<le> of_nat 1000"
    using assms by (intro rnd_div_bounds [of c 1 q 1000 1]) simp_all
  then show ?thesis using math_round_bounds [of 1 "rnd (q / c)" 1000] by simp
qed

lemma expo_one_half: "expo (1999 / 2) = 9"
  by (rule expo_unique) (simp_all add: pow2_def)

lemma rnd_half: "rnd (1999 / 2) = 1999 / 2"
proof -
  have "1999 / 2 = of_int (1999 * 2 ^ 42) * pow2 (ulp_exp (1999 / 2))"
    by (simp add: ulp_exp_def pow2_def expo_one_half)
  then have "rnd_pos (1999 / 2) = 1999 / 2" by (rule rnd_pos_grid)
  then show ?thesis by (simp add: rnd_def)
qed

lemma round_999999: "math_round (rnd (999999 / 1000)) = 1000"
proof -
  have "1999 / 2 \<le> rnd (999999 / 1000)"
    using rnd_mono [of "1999 / 2" "999999 / 1000"] by (simp add: rnd_half)
  then have "1000 \<le> math_round (rnd (999999 / 1000))" by (simp add: math_round_def le_floor_iff)
  then show ?thesis using round_unit [of 1000 999999] by simp
qed

text \<open>C21.  The unit of a printed size follows its magnitude and the number before MB and KB is between
  1 and 1000; 1000 is possible, since the unit is chosen before rounding: 999999 bytes are
  printed as "1000 KB" and not as "1 MB".\<close>

theorem formatBytes_units:
  fixes n :: nat
  defines "sz \<equiv> Num (Fin (of_nat n))"
  shows "(n < 1000 \<longrightarrow> formatBytes sz = num_text (of_nat n) @ js '' B'') \<and>
   (1000 \<le> n \<and> n < 1000000 \<longrightarrow> (\<exists>k. 1 \<le> k \<and> k \<le> 1000 \<and> formatBytes sz = js_int k @ js '' KB'')) \<and>
   (1000000 \<le> n \<and> n < 1000000000 \<longrightarrow> (\<exists>k. 1 \<le> k \<and> k \<le> 1000 \<and> formatBytes sz = js_int k @ js '' MB'')) \<and>
   (1000000000 \<le> n \<longrightarrow> (\<exists>t. formatBytes sz = t @ js '' GB'')) \<and>
   formatBytes (Num (Fin 999999)) = js ''1000 KB''"
proof -
  have le: "(numeral m :: rat) \<le> of_nat n \<longleftrightarrow> numeral m \<le> n" for m
    by (metis of_nat_le_iff of_nat_numeral)
  have less: "(of_nat n :: rat) < numeral m \<longleftrightarrow> n < numeral m" for m
    by (metis of_nat_less_iff of_nat_numeral)
  have kb: "\<exists>k. 1 \<le> k \<and> k \<le> 1000 \<and> formatBytes sz = js_int k @ js '' KB''"
    if "1000 \<le> n" "n < 1000000"
  proof -
    have "1 \<le> math_round (rnd (of_nat n / 1000)) \<and> math_round (rnd (of_nat n / 1000)) \<le> 1000"
      using that by (intro round_unit) (simp_all add: le less)
    with that show ?thesis
      by (intro exI [of _ "math_round (rnd (of_nat n / 1000))"]) (simp add: formatBytes_def sz_def le)
  qed
  have mb: "\<exists>k. 1 \<le> k \<and> k \<le> 1000 \<and> formatBytes sz = js_int k @ js '' MB''"
    if "1000000 \<le> n" "n < 1000000000"
  proof -
    have "1 \<le> math_round (rnd (of_nat n / 1000000)) \<and> math_round (rnd (of_nat n / 1000000)) \<le> 1000"
      using that by (intro round_unit) (simp_all add: le less)
    with that show ?thesis
      by (intro exI [of _ "math_round (rnd (of_nat n / 1000000))"]) (simp add: formatBytes_def sz_def le)
  qed
  have "formatBytes (Num (Fin 999999)) = js ''1000 KB''"
    by (simp add: formatBytes_def round_999999) (simp add: js_defs)
  moreover have "\<exists>t. formatBytes sz = t @ js '' GB''" if "1000000000 \<le> n"
    using that by (simp add: formatBytes_def sz_def le)
  moreover have "formatBytes sz = num_text (of_nat n) @ js '' B''" if "n < 1000"
    using that by (simp add: formatBytes_def sz_def less le)
  ultimately show ?thesis using kb mb by blast
qed

section \<open>Progress\<close>

abbreviation reported :: "jsval \<Rightarrow> jsnum" where
  "reported e \<equiv> to_numeric (or_zero e ''progress'')"

lemma ratio_cases:
  obtains "reported e = NaN" "ratio_of e = NaN"
  | r where "reported e \<noteq> NaN" "ratio_of e = Fin r" "0 \<le> r" "r \<le> 1"
proof (cases "reported e")
  case NaN
  then show thesis by (intro that(1)) (simp_all add: ratio_of_def js_max_def js_min_def)
next
  case Infinity
  then show thesis by (intro that(2) [of 1]) (simp_all add: ratio_of_def js_max_def js_min_def)
next
  case NegInfinity
  then show thesis by (intro that(2) [of 0]) (simp_all add: ratio_of_def js_max_def js_min_def)
next
  case (Fin x)
  then show thesis
    by (intro that(2) [of "max 0 (min 1 x)"]) (auto simp: ratio_of_def js_max_def js_min_def)
qed

lemma num_times_percent: "0 \<le> r \<Longrightarrow> r \<le> 1 \<Longrightarrow> num_times (Fin r) 100 = Fin (rnd (r * 100))"
  using to_num_small [of "r * 100" 100] by simp

lemma percent_bounds:
  assumes "reported e \<noteq> NaN"
  shows "\<exists>k. percent_of e = Fin (of_int k) \<and> 0 \<le> k \<and> k \<le> 100"
proof -
  obtain r where r: "ratio_of e = Fin r" "0 \<le> r" "r \<le> 1" using ratio_cases [of e] assms by metis
  have "0 \<le> rnd (r * 100)" using r(2) by simp
  moreover have "rnd (r * 100) \<le> of_nat 100" using r(3) by (intro rnd_le_of_nat) simp_all
  ultimately have "0 \<le> math_round (rnd (r * 100)) \<and> math_round (rnd (r * 100)) \<le> 100"
    using math_round_bounds [of 0 "rnd (r * 100)" 100] by simp
  moreover have "percent_of e = Fin (of_int (math_round (rnd (r * 100))))"
    using r by (simp add: percent_of_def num_times_percent del: num_times.simps)
  ultimately show ?thesis by blast
qed

lemma percent_mono:
  assumes "num_le (reported e) (reported e')"
  shows "num_le (percent_of e) (percent_of e')"
proof -
  have n: "reported e \<noteq> NaN" "reported e' \<noteq> NaN" using assms by (cases "reported e"; cases "reported e'"; simp)+
  obtain r where r: "ratio_of e = Fin r" "0 \<le> r" "r \<le> 1" using ratio_cases [of e] n(1) by metis
  obtain r' where r': "ratio_of e' = Fin r'" "0 \<le> r'" "r' \<le> 1" using ratio_cases [of e'] n(2) by metis
  have "num_le (ratio_of e) (ratio_of e')"
    unfolding ratio_of_def by (intro js_max_mono js_min_mono assms) simp_all
  then have "r \<le> r'" by (simp add: r r')
  then have "rnd (r * 100) \<le> rnd (r' * 100)" by (intro rnd_mono) simp
  then have "math_round (rnd (r * 100)) \<le> math_round (rnd (r' * 100))" by (rule math_round_mono)
  then show ?thesis using r r' by (simp add: percent_of_def num_times_percent del: num_times.simps)
qed

lemma rnd_100: "rnd 100 = 100"
  using rnd_of_nat [of 100] by simp

lemma percent_ends:
  "num_le (Fin 1) (reported e) \<Longrightarrow> percent_of e = Fin 100" "num_le (reported e) (Fin 0) \<Longrightarrow> percent_of e = Fin 0"
proof -
  have h: "num_round (num_times (Fin 1) 100) = Fin 100" "num_round (num_times (Fin 0) 100) = Fin 0"
    using num_times_percent [of 1] num_times_percent [of 0] math_round_of_int [of 100] math_round_of_int [of 0]
    by (simp_all add: rnd_100 del: num_times.simps math_round_of_int)
  show "percent_of e = Fin 100" if "num_le (Fin 1) (reported e)"
  proof -
    have "ratio_of e = Fin 1"
      using that by (cases "reported e") (auto simp: ratio_of_def js_max_def js_min_def)
    with h show ?thesis by (simp add: percent_of_def del: num_times.simps)
  qed
  show "percent_of e = Fin 0" if "num_le (reported e) (Fin 0)"
  proof -
    have "ratio_of e = Fin 0"
      using that by (cases "reported e") (auto simp: ratio_of_def js_max_def js_min_def)
    with h show ?thesis by (simp add: percent_of_def del: num_times.simps)
  qed
qed

text \<open>C20.  Progress is painted safely.  Whatever value the gateway reports that converts to a number
  (beyond 1, negative, infinite, \<open>null\<close> or missing included), the percentage on a card is a whole number
  between 0 and 100, it is 100 from 1 on and 0 up to 0, and it never falls when the reported
  progress rises; only a value that is no number paints NaN.  The card shows the percentage, and
  painting changes neither which cards there are nor their states.\<close>

theorem progress_bounded:
  assumes "asked = downloading (cards p)" "c \<in> set asked"
    and "rp_json r = Inr (Arr es)" "\<forall>x \<in> set es. \<not> nullish x" "rp_status r = 200"
    and "cd_progress c = Some b" "live_entry es (cd_model c) = Some e"
  defines "q \<equiv> pollModelProgress_finish asked (Inr r) p"
  shows "(to_numeric (or_zero e ''progress'') \<noteq> NaN \<longrightarrow>
      (\<exists>k. percent_of e = Fin (of_int k) \<and> 0 \<le> k \<and> k \<le> 100)) \<and>
    (num_le (Fin 1) (to_numeric (or_zero e ''progress'')) \<longrightarrow> percent_of e = Fin 100) \<and>
    (num_le (to_numeric (or_zero e ''progress'')) (Fin 0) \<longrightarrow> percent_of e = Fin 0) \<and>
    (\<forall>e'. num_le (to_numeric (or_zero e ''progress'')) (to_numeric (or_zero e' ''progress'')) \<longrightarrow>
       num_le (percent_of e) (percent_of e')) \<and>
    (\<exists>d \<in> set (cards q). cd_node d = cd_node c \<and>
       map_option (\<lambda>x. el_attrs x (js ''aria-valuenow'')) (cd_progress d) = Some (Some (jsnum_text (percent_of e)))) \<and>
    map (\<lambda>x. (cd_node x, cd_model x, cd_state x)) (cards q) =
    map (\<lambda>x. (cd_node x, cd_model x, cd_state x)) (cards p)"
proof -
  have sched: "cards (scheduleModelPoll d p') = cards p'" for d and p' :: "'a poll_page_scheme"
    by (simp add: scheduleModelPoll_def Let_def stop_timer_def start_timer_def split: option.split)
  have snd: "cards (send x p') = cards p'" for x and p' :: "'a poll_page_scheme" by (simp add: send_def)
  have "\<not> (\<exists>x \<in> set es. nullish x)" using assms(4) by blast
  then have q: "cards q = paint_cards es asked (cards p)"
    using assms(3,5) by (simp add: q_def pollModelProgress_finish_def rp_ok_def bind_result_def entries_of_def
        Let_def sched snd)
  have "paint_card e c \<in> set (cards q)"
    using assms(1,2,7) by (force simp: q paint_cards_def downloading_def)
  moreover have "cd_node (paint_card e c) = cd_node c"
    "map_option (\<lambda>x. el_attrs x (js ''aria-valuenow'')) (cd_progress (paint_card e c)) =
       Some (Some (jsnum_text (percent_of e)))"
    using assms(6) by (simp_all add: paint_card_def set_attr_def)
  moreover have "map (\<lambda>x. (cd_node x, cd_model x, cd_state x)) (cards q) =
      map (\<lambda>x. (cd_node x, cd_model x, cd_state x)) (cards p)"
    by (simp add: q paint_cards_def paint_card_def split: option.split)
  ultimately show ?thesis using percent_bounds percent_ends percent_mono by blast
qed

section \<open>One timer\<close>

definition is_poll :: "callback \<times> nat \<Rightarrow> bool" where
  "is_poll c \<longleftrightarrow> fst c = PollModels"

text \<open>A pending poll is the one in the slot, and there is something to poll for.\<close>

definition poll_inv :: "'a poll_page_scheme \<Rightarrow> bool" where
  "poll_inv p \<longleftrightarrow> timers_ok p \<and> slot_ok (timers p) is_poll (poll_timer p) \<and>
     (\<forall>h d. timers p h = Some (PollModels, d) \<longrightarrow> visible p \<and> downloading (cards p) \<noteq> [])"

lemma poll_inv_cong:
  "timers q = timers p \<Longrightarrow> next_timer q = next_timer p \<Longrightarrow> poll_timer q = poll_timer p \<Longrightarrow>
   visible q = visible p \<Longrightarrow> (downloading (cards q) = [] \<longleftrightarrow> downloading (cards p) = []) \<Longrightarrow>
   poll_inv q = poll_inv p"
  by (simp add: poll_inv_def timers_ok_def)

text \<open>Scheduling needs only the slot, not that the pending poll still has a reason.\<close>

lemma poll_inv_schedule:
  assumes "timers_ok p" "slot_ok (timers p) is_poll (poll_timer p)"
  shows "poll_inv (scheduleModelPoll d p)"
proof -
  define p1 where "p1 = (stop_timer (poll_timer p) p)\<lparr>poll_timer := None\<rparr>"
  have t: "timers_ok p1" "slot_ok (timers p1) is_poll None"
    using timers_ok_stop [OF assms(1)] tm.slot_stop_empty [OF assms(2)]
    by (simp_all add: p1_def timers_ok_def)
  show ?thesis
  proof (cases "downloading (cards p1) = [] \<or> \<not> visible p1")
    case True
    then have "scheduleModelPoll d p = p1" by (simp add: scheduleModelPoll_def Let_def flip: p1_def)
    with t show ?thesis by (auto simp: poll_inv_def slot_ok_def is_poll_def p1_def)
  next
    case False
    obtain p2 h where p2: "start_timer (PollModels, d) p1 = (p2, h)" by (cases "start_timer (PollModels, d) p1")
    have s: "scheduleModelPoll d p = p2\<lparr>poll_timer := Some h\<rparr>"
      using False p2 by (simp add: scheduleModelPoll_def Let_def flip: p1_def)
    have "timers p2 = (timers p1)(h \<mapsto> (PollModels, d))" by (rule tm.start_pending [OF p2])
    then have "slot_ok (timers p2) is_poll (Some h)" using t(2) by (auto simp: slot_ok_def)
    moreover have "timers_ok p2" by (rule timers_ok_start [OF t(1) p2])
    moreover have "visible p2 = visible p1" "cards p2 = cards p1" using p2 by (auto simp: start_timer_def)
    ultimately show ?thesis using False by (simp add: s poll_inv_def timers_ok_def)
  qed
qed

lemma downloading_paint: "downloading (paint_cards es asked cs) = [] \<longleftrightarrow> downloading cs = []"
proof -
  have "cd_state (paint_card e c) = cd_state c" for e c by (simp add: paint_card_def)
  then have "map cd_state (paint_cards es asked cs) = map cd_state cs"
    by (simp add: paint_cards_def split: option.split)
  moreover have "downloading xs = [] \<longleftrightarrow> js ''downloading'' \<notin> set (map cd_state xs)" for xs
    by (force simp: downloading_def filter_empty_conv)
  ultimately show ?thesis by metis
qed

lemma poll_inv_finish: "poll_inv p \<Longrightarrow> poll_inv (pollModelProgress_finish asked outcome p)"
proof -
  assume inv: "poll_inv p"
  have sch: "poll_inv (scheduleModelPoll d p)" for d
    using inv by (intro poll_inv_schedule) (simp_all add: poll_inv_def)
  have paint: "poll_inv (p\<lparr>cards := paint_cards es asked (cards p)\<rparr>)" for es
    using inv by (subst poll_inv_cong [of _ p]) (simp_all add: downloading_paint)
  have sch1: "poll_inv (scheduleModelPoll d (p\<lparr>cards := paint_cards es asked (cards p)\<rparr>))" for d es
    using paint [of es] by (intro poll_inv_schedule) (simp_all add: poll_inv_def)
  have snd: "poll_inv (send x (p\<lparr>cards := paint_cards es asked (cards p)\<rparr>))" for x es
    using paint [of es] by (subst poll_inv_cong [of _ "p\<lparr>cards := paint_cards es asked (cards p)\<rparr>"])
      (simp_all add: send_def)
  have ov: "poll_inv (showOverlay m (remove_item TOKEN_KEY p))" for m
    using inv by (subst poll_inv_cong [of _ p])
      (simp_all add: showOverlay_def setBackgroundInert_def set_focus_def remove_item_def Let_def upd_el_def)
  show ?thesis
    by (auto simp: pollModelProgress_finish_def Let_def sch sch1 snd ov split: sum.split)
qed

lemma poll_step_inv: "poll_inv p \<Longrightarrow> poll_inv (poll_step p e)"
proof (cases e)
  case (CardsSwapped cs)
  assume "poll_inv p"
  then have "poll_inv (scheduleModelPoll 400 (p\<lparr>cards := cs\<rparr>))"
    by (intro poll_inv_schedule) (simp_all add: poll_inv_def timers_ok_def)
  with CardsSwapped show ?thesis by simp
next
  case (VisibilityChange v)
  assume "poll_inv p"
  then have "poll_inv (scheduleModelPoll 400 (p\<lparr>visible := v\<rparr>))"
    by (intro poll_inv_schedule) (simp_all add: poll_inv_def timers_ok_def)
  with VisibilityChange show ?thesis by (simp add: visibilitychange_def)
next
  case (PollTimer h)
  assume inv: "poll_inv p"
  have "poll_inv (stop_timer (Some h) p)"
    using inv timers_ok_stop [of p "Some h"] tm.slot_stop_other [of p is_poll "poll_timer p" "Some h"]
    by (auto simp: poll_inv_def stop_timer_def)
  moreover have "poll_inv (pollModelProgress_start q) = poll_inv q" for q :: "'a poll_page_scheme"
    by (rule poll_inv_cong) (simp_all add: pollModelProgress_start_def Let_def send_def)
  ultimately show ?thesis using inv PollTimer by (auto split: option.split callback.split)
next
  case (PollReply k outcome)
  assume inv: "poll_inv p"
  have "poll_inv (p\<lparr>polls := ps\<rparr>)" for ps
    using inv by (subst poll_inv_cong [of _ p]) simp_all
  with inv PollReply show ?thesis by (simp add: poll_inv_finish)
qed

text \<open>C18.  In every run of swaps, visibility changes, timers and replies (whatever they hold and in
  whatever order they arrive, several requests in flight included) at most one poll is
  scheduled, and one is scheduled only while the page is visible and a card is downloading.\<close>

theorem one_poll_pending:
  fixes p :: "'a poll_page_scheme" and es :: "poll_event list"
  assumes "poll_inv p"
  defines "q \<equiv> foldl poll_step p es"
  shows "(\<forall>h h' d d'. timers q h = Some (PollModels, d) \<and> timers q h' = Some (PollModels, d') \<longrightarrow> h = h') \<and>
    (\<forall>h d. timers q h = Some (PollModels, d) \<longrightarrow> visible q \<and> downloading (cards q) \<noteq> [])"
proof -
  have "poll_inv q" unfolding q_def using assms(1) by (induction es arbitrary: p) (simp_all add: poll_step_inv)
  then have "slot_ok (timers q) is_poll (poll_timer q)"
    and v: "\<forall>h d. timers q h = Some (PollModels, d) \<longrightarrow> visible q \<and> downloading (cards q) \<noteq> []"
    by (simp_all add: poll_inv_def)
  then have "poll_timer q = Some h" if "timers q h = Some (PollModels, d)" for h d
    using that by (simp add: slot_ok_def is_poll_def)
  with v show ?thesis by (metis option.inject)
qed





section \<open>A page with a download\<close>

definition card_start :: card where
  "card_start = \<lparr>cd_node = 7, cd_model = js ''whisper'', cd_state = js ''downloading'',
     cd_progress = Some blank, cd_width = Some [], cd_copy = Some blank\<rparr>"

definition poll_start :: poll_page where
  "poll_start = dialog_page.extend dialog_start
     \<lparr>cards = [card_start], visible = True, poll_timer = None, polls = []\<rparr>"

lemma poll_start_simps [simp]:
  "cards poll_start = [card_start]" "visible poll_start" "poll_timer poll_start = None" "downloading [card_start] = [card_start]"
  by (simp_all add: poll_start_def dialog_page.defs downloading_def card_start_def)

lemma poll_inv_start: "poll_inv poll_start"
  by (simp add: poll_inv_def timers_ok_def slot_ok_def poll_start_def dialog_page.defs dialog_start_def
      filter_page.defs filter_start_def grid_page.defs grid_start_def view_page.defs view_start_def
      shell_page.defs)

definition half_reply :: reply where
  "half_reply = \<lparr>rp_status = 200, rp_json = Inr (Arr
     [Obj [(js ''id'', Str (js ''whisper'')), (js ''state'', Str (js ''downloading'')),
       (js ''progress'', Num (Fin (1 / 2)))]])\<rparr>"

theorem progress_bounded_witness:
  "\<exists>k e. percent_of e = Fin (of_int k) \<and> 0 \<le> k \<and> k \<le> 100 \<and>
     live_entry [Obj [(js ''id'', Str (js ''whisper'')), (js ''state'', Str (js ''downloading'')),
       (js ''progress'', Num (Fin (1 / 2)))]] (js ''whisper'') = Some e"
proof -
  let ?e = "Obj [(js ''id'', Str (js ''whisper'')), (js ''state'', Str (js ''downloading'')),
       (js ''progress'', Num (Fin (1 / 2)))]"
  have l: "live_entry [?e] (cd_model card_start) = Some ?e"
    by (simp add: live_entry_def entry_for_def card_start_def js_eq_iff)
  have n: "to_numeric (or_zero ?e ''progress'') \<noteq> NaN" by (simp add: or_zero_def js_or_def js_eq_iff)
  have "cd_progress card_start = Some blank" by (simp add: card_start_def)
  from progress_bounded [of "[card_start]" poll_start card_start half_reply "[?e]", OF _ _ _ _ _ this l] n
  have "\<exists>k. percent_of ?e = Fin (of_int k) \<and> 0 \<le> k \<and> k \<le> 100" by (simp add: half_reply_def nullish_def)
  with l show ?thesis by (auto simp: card_start_def)
qed

theorem formatBytes_units_witness:
  "\<exists>k. 1 \<le> k \<and> k \<le> 1000 \<and> formatBytes (Num (Fin 1500)) = js_int k @ js '' KB''"
  using formatBytes_units [of 1500] by simp

theorem one_poll_pending_witness:
  "\<exists>h. {h. \<exists>d. timers (foldl poll_step poll_start [VisibilityChange True, CardsSwapped [card_start]]) h =
      Some (PollModels, d)} = {h}"
proof -
  let ?q = "foldl poll_step poll_start [VisibilityChange True, CardsSwapped [card_start]]"
  have "timers ?q (Suc (next_timer poll_start)) = Some (PollModels, 400)"
    by (simp add: visibilitychange_def scheduleModelPoll_def Let_def start_timer_def stop_timer_def)
  then obtain h d where h: "timers ?q h = Some (PollModels, d)" by blast
  have "\<forall>h' d'. timers ?q h' = Some (PollModels, d') \<longrightarrow> h' = h"
    using one_poll_pending [OF poll_inv_start, of "[VisibilityChange True, CardsSwapped [card_start]]"] h by blast
  with h show ?thesis by blast
qed


end
