(* ===== verification/TestPanel.thy ===== *)
theory TestPanel
  imports Polling
begin

text \<open>
  The test panel's controls (\<open>app/webui/app.js\<close>): \<open>syncTestLanguages\<close> and \<open>syncTestCleanup\<close>, each
  split at its request, and \<open>syncTestCleanupWarning\<close>.  A reply can find the panel replaced; the
  flag \<open>attached\<close> of a finish says whether the elements it looked up are still on the page.
\<close>

section \<open>State\<close>

text \<open>An option of the language picker: its value, whether it has \<open>data-auto-language\<close>, its
  \<open>hidden\<close> and \<open>disabled\<close>.  The picker's \<open>value\<close> is that of the element \<open>test-language\<close>.\<close>

record lang_option =
  op_value :: jsstring
  op_auto :: bool
  op_hidden :: bool
  op_disabled :: bool

record test_page = poll_page +
  lang_options :: "lang_option list"
  cleanupCapability :: jsval

definition field_value :: "'a page_scheme \<Rightarrow> string \<Rightarrow> jsstring" where
  "field_value p i = (case get_el p (js i) of Some e \<Rightarrow> el_value e | None \<Rightarrow> [])"

section \<open>Languages\<close>

definition syncTestLanguages_start :: "'a test_page_scheme \<Rightarrow> bool \<times> 'a test_page_scheme" where
  "syncTestLanguages_start p =
     (if get_el p (js ''test-language'') = None \<or> get_el p (js ''test-language-note'') = None then (False, p)
      else (True, send (Fetch (js ''GET'') (js ''/health'') [] None) p))"

text \<open>Whether an option cannot be used with the active model.\<close>

definition option_unsupported :: "jsval \<Rightarrow> lang_option \<Rightarrow> bool" where
  "option_unsupported health op =
     (let supported = (case own health (js ''languages'') of Arr vs \<Rightarrow> vs | _ \<Rightarrow> []);
          detects = truthy (own health (js ''detects_language_automatically''));
          mustChoose = truthy (own health (js ''requires_explicit_language''))
      in if op_auto op then mustChoose
         else supported \<noteq> [] \<and> \<not> detects \<and> Str (op_value op) \<notin> set supported)"

definition mark_option :: "jsval \<Rightarrow> lang_option \<Rightarrow> lang_option" where
  "mark_option health op =
     op\<lparr>op_hidden := option_unsupported health op, op_disabled := option_unsupported health op\<rparr>"

text \<open>\<open>select.selectedOptions[0]\<close>: the first option with the picker's value.\<close>

definition selected_option :: "jsstring \<Rightarrow> lang_option list \<Rightarrow> lang_option option" where
  "selected_option v ops = find (\<lambda>op. op_value op = v) ops"

definition MUST_CHOOSE :: jsstring where
  "MUST_CHOOSE = js ''This model cannot detect the language '' @ [0x2014] @ js '' pick the one you will speak.''"

definition apply_languages :: "jsval \<Rightarrow> 'a test_page_scheme \<Rightarrow> 'a test_page_scheme" where
  "apply_languages health p =
     (let mustChoose = truthy (own health (js ''requires_explicit_language''));
          ops = map (mark_option health) (lang_options p);
          p1 = p\<lparr>lang_options := ops\<rparr>;
          p2 = (case selected_option (field_value p1 ''test-language'') ops of
                  None \<Rightarrow> p1
                | Some op \<Rightarrow>
                    if \<not> op_disabled op then p1
                    else case find (\<lambda>op. \<not> op_disabled op) ops of
                      None \<Rightarrow> p1
                    | Some fallback \<Rightarrow> upd_el (js ''test-language'') (set_value (op_value fallback)) p1)
      in upd_el (js ''test-language-note'')
           (\<lambda>e. class_toggle (js ''hidden'') (\<not> mustChoose) (set_text (if mustChoose then MUST_CHOOSE else []) e)) p2)"

text \<open>From the reply on.  A reply without a usable document leaves the picker alone; \<open>null\<close> makes
  the access to its fields throw, which rejects the promise and changes nothing either.\<close>

definition syncTestLanguages_finish ::
    "bool \<Rightarrow> reply result \<Rightarrow> 'a test_page_scheme \<Rightarrow> 'a test_page_scheme" where
  "syncTestLanguages_finish attached outcome p =
     (case outcome of
        Inl e \<Rightarrow> p
      | Inr r \<Rightarrow>
          if \<not> rp_ok r then p
          else case rp_json r of
            Inl e \<Rightarrow> p
          | Inr health \<Rightarrow> if nullish health \<or> \<not> attached then p else apply_languages health p)"

section \<open>Cleanup\<close>

definition CLEANUP_STRANDED :: jsstring where
  "CLEANUP_STRANDED =
     js ''Cleanup cannot run on '' @ [0x201C] @ js ''Detect language'' @ [0x201D]
     @ js '': nothing reports which language was spoken. Pick a language above, or set one on the Cleanup tab under ''
     @ [0x201C] @ js ''When language is auto'' @ [0x201D] @ js ''.''"

definition stranded :: "'a test_page_scheme \<Rightarrow> bool" where
  "stranded p \<longleftrightarrow> field_value p ''test-cleanup'' = js ''conservative'' \<and>
     field_value p ''test-language'' = js ''auto'' \<and>
     \<not> truthy (own (cleanupCapability p) (js ''auto_language''))"

definition syncTestCleanupWarning :: "'a test_page_scheme \<Rightarrow> 'a test_page_scheme" where
  "syncTestCleanupWarning p =
     (if get_el p (js ''test-cleanup-warning'') = None \<or> get_el p (js ''test-language'') = None
         \<or> get_el p (js ''test-cleanup'') = None then p
      else upd_el (js ''test-cleanup-warning'')
        (\<lambda>e. class_toggle (js ''hidden'') (\<not> stranded p)
           (set_text (if stranded p then CLEANUP_STRANDED else []) e)) p)"

definition syncTestCleanup_start :: "'a test_page_scheme \<Rightarrow> bool \<times> 'a test_page_scheme" where
  "syncTestCleanup_start p =
     (if get_el p (js ''test-cleanup-field'') = None then (False, p)
      else (True, send (Fetch (js ''GET'') (js ''/v1/capabilities'') [(js ''Authorization'', bearer p)] None) p))"

text \<open>The tile and the warning are looked up when the reply has arrived, the field before.\<close>

definition apply_capabilities :: "bool \<Rightarrow> jsval \<Rightarrow> 'a test_page_scheme \<Rightarrow> 'a test_page_scheme" where
  "apply_capabilities attached capabilities p =
     (let cleanup = js_or (own capabilities (js ''cleanup'')) (Obj []);
          off = (\<not> truthy (own cleanup (js ''supported'')));
          p1 = (if attached then upd_el (js ''test-cleanup-field'') (class_toggle (js ''hidden'') off) p else p);
          p2 = upd_el (js ''benchmark-cleanup-tile'') (class_toggle (js ''hidden'') off) p1
      in syncTestCleanupWarning (p2\<lparr>cleanupCapability := cleanup\<rparr>))"

definition syncTestCleanup_finish ::
    "bool \<Rightarrow> reply result \<Rightarrow> 'a test_page_scheme \<Rightarrow> 'a test_page_scheme" where
  "syncTestCleanup_finish attached outcome p =
     (case outcome of
        Inl e \<Rightarrow> p
      | Inr r \<Rightarrow>
          if \<not> rp_ok r then p
          else case rp_json r of
            Inl e \<Rightarrow> p
          | Inr capabilities \<Rightarrow>
              if nullish capabilities then p else apply_capabilities attached capabilities p)"

text \<open>The document's \<open>change\<close> listener, by the target's id.\<close>

definition test_change :: "jsstring \<Rightarrow> 'a test_page_scheme \<Rightarrow> 'a test_page_scheme" where
  "test_change target p =
     (if target = js ''test-language'' \<or> target = js ''test-cleanup'' then syncTestCleanupWarning p else p)"

section \<open>The picker\<close>

lemma find_map_mark:
  "selected_option v (map (mark_option h) ops) = map_option (mark_option h) (selected_option v ops)"
  by (induction ops) (simp_all add: selected_option_def mark_option_def)

lemma find_enabled: "find (\<lambda>op. \<not> op_disabled op) ops = Some f \<Longrightarrow> f \<in> set ops \<and> \<not> op_disabled f"
  by (induction ops) (auto split: if_splits)

lemma selected_distinct:
  "distinct (map op_value ops) \<Longrightarrow> f \<in> set ops \<Longrightarrow> selected_option (op_value f) ops = Some f"
  by (induction ops) (auto simp: selected_option_def)

lemma apply_languages_options: "lang_options (apply_languages h p) = map (mark_option h) (lang_options p)"
  by (simp add: apply_languages_def Let_def upd_el_def split: option.split)

lemma field_value_upd:
  "field_value (upd_el i f p) j =
     (if js j = i then (case get_el p i of Some e \<Rightarrow> el_value (f e) | None \<Rightarrow> []) else field_value p j)"
  by (auto simp: field_value_def split: option.split)

lemma apply_languages_value:
  assumes "get_el p (js ''test-language'') \<noteq> None" "ops = map (mark_option h) (lang_options p)"
  shows "field_value (apply_languages h p) ''test-language'' =
    (case selected_option (field_value p ''test-language'') ops of
       None \<Rightarrow> field_value p ''test-language''
     | Some op \<Rightarrow>
         if \<not> op_disabled op then field_value p ''test-language''
         else case find (\<lambda>op. \<not> op_disabled op) ops of
           None \<Rightarrow> field_value p ''test-language'' | Some f \<Rightarrow> op_value f)"
proof -
  have "field_value (p\<lparr>lang_options := x\<rparr>) i = field_value p i" "get_el (p\<lparr>lang_options := x\<rparr>) j = get_el p j" for x i j
    by (simp_all add: field_value_def get_el_def)
  with assms show ?thesis
    by (auto simp: apply_languages_def Let_def field_value_upd js_eq_iff set_value_def split: option.split)
qed

text \<open>What the gateway says about its model (\<open>HealthResponse\<close>, \<open>app/schemas.py\<close>), read as a promise to
  the operator: "Detect language" works unless the model must be told the language, and a language
  works if the model detects languages itself, if no list is published, or if it is on the list.\<close>

definition accepts :: "jsval \<Rightarrow> lang_option \<Rightarrow> bool" where
  "accepts health op \<longleftrightarrow>
     (op_auto op \<longrightarrow> \<not> truthy (own health (js ''requires_explicit_language''))) \<and>
     (\<not> op_auto op \<longrightarrow>
        truthy (own health (js ''detects_language_automatically'')) \<or>
        (case own health (js ''languages'') of
           Arr listed \<Rightarrow> listed = [] \<or> list_ex (\<lambda>v. v = Str (op_value op)) listed
         | _ \<Rightarrow> True))"

lemma unsupported_iff: "option_unsupported health op \<longleftrightarrow> \<not> accepts health op"
  by (auto simp: option_unsupported_def accepts_def Let_def list_ex_iff split: jsval.split)

lemma accepts_mark [simp]: "accepts health (mark_option h op) = accepts health op"
  by (simp add: accepts_def mark_option_def split: jsval.split)

lemma mark_option_simps [simp]:
  "op_disabled (mark_option h op) = (\<not> accepts h op)" "op_hidden (mark_option h op) = (\<not> accepts h op)"
  "op_value (mark_option h op) = op_value op" "op_auto (mark_option h op) = op_auto op"
  by (simp_all add: mark_option_def unsupported_iff)

lemma apply_languages_note:
  assumes "get_el p (js ''test-language-note'') \<noteq> None"
  shows "is_shown (apply_languages health p) (js ''test-language-note'') =
    truthy (own health (js ''requires_explicit_language''))"
proof -
  have "is_shown (upd_el i (\<lambda>e. class_toggle (js ''hidden'') (\<not> b) (set_text t e)) p') i = b"
    if "get_el p' i \<noteq> None" for i b t and p' :: "'a test_page_scheme"
    using that by (cases b) (auto simp: is_shown_def has_class_def class_toggle_def class_add_def class_remove_def)
  moreover have "get_el (p\<lparr>lang_options := x\<rparr>) i = get_el p i" for x i by (simp add: get_el_def)
  ultimately show ?thesis
    using assms by (simp add: apply_languages_def Let_def js_eq_iff split: option.split)
qed

text \<open>C22.  After the picker has been reconciled with the active model, whatever the gateway's document
  holds: an option can be seen and chosen exactly if the model accepts it ("Detect language" unless a
  language is required; any other if the model detects languages, publishes no list, or lists it); no
  option is added or removed; the selected language is one the model accepts whenever one can be
  chosen, and a selection the model accepts is kept; the note asking for a choice is shown exactly
  if a language is required.\<close>

theorem picker_matches_model:
  assumes "get_el p (js ''test-language'') \<noteq> None" "get_el p (js ''test-language-note'') \<noteq> None"
    and "distinct (map op_value (lang_options p))"
    and "selected_option (field_value p ''test-language'') (lang_options p) = Some old"
    and "rp_status r = 200" "rp_json r = Inr health" "\<not> nullish health"
  defines "q \<equiv> syncTestLanguages_finish True (Inr r) p"
  shows "(\<forall>op \<in> set (lang_options q).
      op_disabled op = (\<not> accepts health op) \<and> op_hidden op = (\<not> accepts health op)) \<and>
    map (\<lambda>op. (op_value op, op_auto op)) (lang_options q) =
      map (\<lambda>op. (op_value op, op_auto op)) (lang_options p) \<and>
    ((\<exists>op \<in> set (lang_options p). accepts health op) \<longrightarrow>
       (\<exists>op. selected_option (field_value q ''test-language'') (lang_options q) = Some op \<and> accepts health op)) \<and>
    (accepts health old \<longrightarrow> field_value q ''test-language'' = field_value p ''test-language'') \<and>
    is_shown q (js ''test-language-note'') = truthy (own health (js ''requires_explicit_language''))"
proof -
  let ?ops = "map (mark_option health) (lang_options p)"
  have q: "q = apply_languages health p"
    using assms(5-7) by (simp add: q_def syncTestLanguages_finish_def rp_ok_def)
  have ops: "lang_options q = ?ops" by (simp add: q apply_languages_options)
  have s: "selected_option (field_value p ''test-language'') ?ops = Some (mark_option health old)"
    using assms(4) by (simp add: find_map_mark)
  have lang: "field_value q ''test-language'' =
      (if accepts health old then field_value p ''test-language''
       else case find (\<lambda>op. \<not> op_disabled op) ?ops of
         None \<Rightarrow> field_value p ''test-language'' | Some f \<Rightarrow> op_value f)"
    using apply_languages_value [OF assms(1) refl, of health] s by (simp add: q)
  have sel: "\<exists>op. selected_option (field_value q ''test-language'') ?ops = Some op \<and> accepts health op"
    if "\<exists>op \<in> set (lang_options p). accepts health op"
  proof (cases "accepts health old")
    case True
    then show ?thesis using s lang by auto
  next
    case False
    have d: "distinct (map op_value ?ops)" using assms(3) by (simp add: comp_def)
    have "find (\<lambda>op. \<not> op_disabled op) ?ops \<noteq> None" using that by (auto simp: find_None_iff)
    then obtain f where f: "find (\<lambda>op. \<not> op_disabled op) ?ops = Some f" by blast
    have "f \<in> set ?ops" "\<not> op_disabled f" using find_enabled [OF f] by simp_all
    then have "f \<in> set ?ops \<and> accepts health f" by auto
    then show ?thesis using False f lang selected_distinct [OF d] by auto
  qed
  have hint: "is_shown q (js ''test-language-note'') = truthy (own health (js ''requires_explicit_language''))"
    unfolding q by (rule apply_languages_note [OF assms(2)])
  show ?thesis using sel lang hint by (simp add: ops comp_def)
qed

section \<open>The warning\<close>

definition warning_ready :: "'a test_page_scheme \<Rightarrow> bool" where
  "warning_ready p \<longleftrightarrow> get_el p (js ''test-cleanup-warning'') \<noteq> None \<and>
     get_el p (js ''test-language'') \<noteq> None \<and> get_el p (js ''test-cleanup'') \<noteq> None"

lemma warning_sync:
  assumes "warning_ready p"
  shows "is_shown (syncTestCleanupWarning p) (js ''test-cleanup-warning'') = stranded p"
    and "map_option el_text (get_el (syncTestCleanupWarning p) (js ''test-cleanup-warning'')) =
      Some (if stranded p then CLEANUP_STRANDED else [])"
proof -
  obtain w where w: "get_el p (js ''test-cleanup-warning'') = Some w" using assms by (auto simp: warning_ready_def)
  have e: "syncTestCleanupWarning p = upd_el (js ''test-cleanup-warning'')
      (\<lambda>e. class_toggle (js ''hidden'') (\<not> stranded p)
         (set_text (if stranded p then CLEANUP_STRANDED else []) e)) p"
    using assms by (auto simp: syncTestCleanupWarning_def warning_ready_def)
  show "is_shown (syncTestCleanupWarning p) (js ''test-cleanup-warning'') = stranded p"
    unfolding e is_shown_def by (simp add: w has_class_def class_toggle_def class_add_def class_remove_def)
  show "map_option el_text (get_el (syncTestCleanupWarning p) (js ''test-cleanup-warning'')) =
      Some (if stranded p then CLEANUP_STRANDED else [])"
    unfolding e by (simp add: w set_text_def class_toggle_def class_add_def class_remove_def)
qed

lemma warning_ready_upd [simp]:
  "warning_ready (upd_el i f p) = warning_ready p"
  "warning_ready (p\<lparr>cleanupCapability := c\<rparr>) = warning_ready p"
proof -
  show "warning_ready (upd_el i f p) = warning_ready p"
    unfolding warning_ready_def el.look_change_present ..
  show "warning_ready (p\<lparr>cleanupCapability := c\<rparr>) = warning_ready p"
    by (simp add: warning_ready_def get_el_def)
qed

lemma apply_capabilities_sync:
  assumes "warning_ready p"
  shows "\<exists>p'. apply_capabilities attached c p = syncTestCleanupWarning p' \<and> warning_ready p' \<and>
    cleanupCapability p' = js_or (own c (js ''cleanup'')) (Obj []) \<and>
    field_value p' ''test-cleanup'' = field_value p ''test-cleanup'' \<and>
    field_value p' ''test-language'' = field_value p ''test-language''"
proof -
  have "field_value (x\<lparr>cleanupCapability := y\<rparr>) i = field_value x i" for x :: "'a test_page_scheme" and y i
    by (simp add: field_value_def get_el_def)
  with assms show ?thesis
    by (auto simp: apply_capabilities_def Let_def field_value_upd js_eq_iff)
qed

text \<open>C23.  The warning about cleanup without a known language is shown, with its text, exactly if
  cleanup is on, the picker is at "Detect language" and the gateway has no default language, and
  is empty and hidden otherwise: after the operator changes either control, by the capabilities last
  received, and after a capabilities reply, by what that reply says.  Neither changes the
  controls.  (A reply about languages can leave the warning behind, C24.)\<close>

theorem warning_matches_controls:
  fixes p :: "'a test_page_scheme" and attached :: bool
  assumes "warning_ready p"
    and "t \<in> {js ''test-language'', js ''test-cleanup''}"
    and "rp_status r = 200" "rp_json r = Inr capabilities" "\<not> nullish capabilities"
  defines "q1 \<equiv> test_change t p" and "q2 \<equiv> syncTestCleanup_finish attached (Inr r) p"
    and "guessing \<equiv> field_value p ''test-cleanup'' = js ''conservative'' \<and> field_value p ''test-language'' = js ''auto''"
    and "known \<equiv> truthy (own (cleanupCapability p) (js ''auto_language''))"
    and "arrived \<equiv> truthy (own (js_or (own capabilities (js ''cleanup'')) (Obj [])) (js ''auto_language''))"
  shows "is_shown q1 (js ''test-cleanup-warning'') = (guessing \<and> \<not> known) \<and>
    map_option el_text (get_el q1 (js ''test-cleanup-warning'')) =
      Some (if guessing \<and> \<not> known then CLEANUP_STRANDED else []) \<and>
    is_shown q2 (js ''test-cleanup-warning'') = (guessing \<and> \<not> arrived) \<and>
    map_option el_text (get_el q2 (js ''test-cleanup-warning'')) =
      Some (if guessing \<and> \<not> arrived then CLEANUP_STRANDED else []) \<and>
    (\<forall>i \<in> {''test-cleanup'', ''test-language''}. field_value q1 i = field_value p i \<and> field_value q2 i = field_value p i)"
proof -
  have same: "field_value (syncTestCleanupWarning p') i = field_value p' i"
    if "i \<in> {''test-cleanup'', ''test-language''}" for i and p' :: "'a test_page_scheme"
    using that by (auto simp: syncTestCleanupWarning_def field_value_upd js_eq_iff)
  have q1: "q1 = syncTestCleanupWarning p" using assms(2) by (auto simp: q1_def test_change_def)
  obtain p' where q2: "q2 = syncTestCleanupWarning p'" and ready: "warning_ready p'"
    and caps: "cleanupCapability p' = js_or (own capabilities (js ''cleanup'')) (Obj [])"
    and kept: "field_value p' ''test-cleanup'' = field_value p ''test-cleanup''"
      "field_value p' ''test-language'' = field_value p ''test-language''"
    using apply_capabilities_sync [OF assms(1), of attached capabilities] assms(3-5)
    by (auto simp: q2_def syncTestCleanup_finish_def rp_ok_def)
  have "stranded p = (guessing \<and> \<not> known)" by (simp add: stranded_def guessing_def known_def)
  moreover have "stranded p' = (guessing \<and> \<not> arrived)"
    by (simp add: stranded_def guessing_def arrived_def caps kept)
  ultimately show ?thesis
    using warning_sync [OF assms(1)] warning_sync [OF ready] same [of _ p] same [of _ p'] kept
    by (simp add: q1 q2)
qed

text \<open>C24.  The reconciliation with the model changes the picker without a \<open>change\<close> event, so the warning
  is not brought up to date: if it was shown for "Detect language" and the model then requires a
  choice and accepts another language, that one is selected and the warning still says that cleanup
  cannot run on "Detect language", although the check it comes from would now hide it.\<close>

theorem warning_stale_after_fallback:
  assumes "warning_ready p" "is_shown p (js ''test-cleanup-warning'')"
    and "field_value p ''test-language'' = js ''auto''"
    and "lang_options p = op # ops" "op_value op = js ''auto''" "op_auto op"
    and "\<forall>x \<in> set ops. op_value x \<noteq> js ''auto''" "\<exists>x \<in> set ops. accepts health x"
    and "rp_status r = 200" "rp_json r = Inr health"
    and "truthy (own health (js ''requires_explicit_language''))"
  defines "q \<equiv> syncTestLanguages_finish True (Inr r) p"
  shows "field_value q ''test-language'' \<noteq> js ''auto'' \<and>
    is_shown q (js ''test-cleanup-warning'') \<and>
    get_el q (js ''test-cleanup-warning'') = get_el p (js ''test-cleanup-warning'') \<and>
    \<not> is_shown (syncTestCleanupWarning q) (js ''test-cleanup-warning'')"
proof -
  let ?ops = "map (mark_option health) (lang_options p)"
  have "\<not> nullish health" using assms(11) by (auto simp: nullish_def)
  then have q: "q = apply_languages health p"
    using assms(9,10) by (simp add: q_def syncTestLanguages_finish_def rp_ok_def)
  have auto: "\<not> accepts health op" using assms(6,11) by (simp add: accepts_def)
  have "selected_option (js ''auto'') ?ops = Some (mark_option health op)"
    using assms(4,5) by (simp add: selected_option_def)
  moreover obtain f where f: "find (\<lambda>op. \<not> op_disabled op) ?ops = Some f" "f \<in> set (map (mark_option health) ops)"
  proof -
    have "find (\<lambda>op. \<not> op_disabled op) (map (mark_option health) ops) \<noteq> None"
      using assms(8) by (auto simp: find_None_iff)
    then obtain f where f: "find (\<lambda>op. \<not> op_disabled op) (map (mark_option health) ops) = Some f" by blast
    moreover have "f \<in> set (map (mark_option health) ops)" using find_enabled [OF f] by blast
    ultimately show thesis using that assms(4) auto by simp
  qed
  ultimately have "field_value q ''test-language'' = op_value f"
    using apply_languages_value [of p ?ops health] assms(1,3) auto by (simp add: q warning_ready_def)
  then have lang: "field_value q ''test-language'' \<noteq> js ''auto''" using f(2) assms(7) by auto
  have w: "get_el q (js ''test-cleanup-warning'') = get_el p (js ''test-cleanup-warning'')"
  proof -
    have "get_el (x\<lparr>lang_options := y\<rparr>) i = get_el x i" for x :: "'a test_page_scheme" and y i
      by (simp add: get_el_def)
    then show ?thesis by (simp add: q apply_languages_def Let_def js_eq_iff split: option.split)
  qed
  have "warning_ready (x\<lparr>lang_options := y\<rparr>) = warning_ready x" for x :: "'a test_page_scheme" and y
    by (simp add: warning_ready_def get_el_def)
  then have "warning_ready q"
    using assms(1) by (simp add: q apply_languages_def Let_def split: option.split)
  then have "\<not> is_shown (syncTestCleanupWarning q) (js ''test-cleanup-warning'')"
    using lang by (simp add: warning_sync stranded_def)
  with lang w assms(2) show ?thesis by (simp add: is_shown_def)
qed

section \<open>A delivered panel\<close>

definition english :: lang_option where
  "english = \<lparr>op_value = js ''en'', op_auto = False, op_hidden = False, op_disabled = False\<rparr>"

definition detect :: lang_option where
  "detect = \<lparr>op_value = js ''auto'', op_auto = True, op_hidden = False, op_disabled = False\<rparr>"

definition test_start :: test_page where
  "test_start = poll_page.extend
     (poll_start\<lparr>els := (\<lambda>_. Some blank)(js ''test-language'' \<mapsto> set_value (js ''auto'') blank,
        js ''test-cleanup'' \<mapsto> set_value (js ''conservative'') blank)\<rparr>)
     \<lparr>lang_options = [detect, english], cleanupCapability = Obj []\<rparr>"

lemma test_start_simps [simp]:
  "get_el test_start i = Some (if i = js ''test-cleanup'' then set_value (js ''conservative'') blank
     else if i = js ''test-language'' then set_value (js ''auto'') blank else blank)"
  "lang_options test_start = [detect, english]" "cleanupCapability test_start = Obj []"
  by (simp_all add: test_start_def poll_page.defs get_el_def)

lemma warning_ready_start [simp]: "warning_ready test_start"
  by (simp add: warning_ready_def)

text \<open>A whole \<open>HealthResponse\<close> of a model that must be told one of two languages.\<close>

definition choosy :: jsval where
  "choosy = Obj [(js ''status'', Str (js ''ok'')), (js ''engine_ready'', JBool True),
     (js ''engine'', Str (js ''cohere'')), (js ''streaming_supported'', JBool False),
     (js ''languages'', Arr [Str (js ''en''), Str (js ''de'')]),
     (js ''detects_language_automatically'', JBool False), (js ''requires_explicit_language'', JBool True),
     (js ''maximum_duration_seconds'', Num (Fin 600))]"

definition choosy_reply :: reply where
  "choosy_reply = \<lparr>rp_status = 200, rp_json = Inr choosy\<rparr>"

lemma choosy_simps [simp]:
  "own choosy (js ''requires_explicit_language'') = JBool True" "\<not> nullish choosy"
  "accepts choosy english" "\<not> accepts choosy detect"
  by (simp_all add: choosy_def accepts_def english_def detect_def js_eq_iff nullish_def)

theorem picker_matches_model_witness:
  "\<exists>op. selected_option (field_value (syncTestLanguages_finish True (Inr choosy_reply) test_start) ''test-language'')
     (lang_options (syncTestLanguages_finish True (Inr choosy_reply) test_start)) = Some op \<and> accepts choosy op"
proof -
  have "selected_option (field_value test_start ''test-language'') (lang_options test_start) = Some detect"
    "distinct (map op_value (lang_options test_start))"
    by (simp_all add: selected_option_def field_value_def set_value_def js_eq_iff detect_def english_def)
  then show ?thesis
    using picker_matches_model [of test_start detect choosy_reply choosy] by (simp add: choosy_reply_def)
qed

definition english_default :: jsval where
  "english_default = Obj [(js ''cleanup'', Obj [(js ''supported'', JBool True), (js ''auto_language'', Str (js ''en''))])]"

theorem warning_matches_controls_witness:
  "is_shown (test_change (js ''test-cleanup'') test_start) (js ''test-cleanup-warning'') \<and>
   \<not> is_shown (syncTestCleanup_finish True (Inr \<lparr>rp_status = 200, rp_json = Inr english_default\<rparr>) test_start)
     (js ''test-cleanup-warning'')"
proof -
  have "field_value test_start ''test-cleanup'' = js ''conservative''" "field_value test_start ''test-language'' = js ''auto''"
    by (simp_all add: field_value_def set_value_def js_eq_iff)
  then show ?thesis
    using warning_matches_controls [of test_start "js ''test-cleanup''" "\<lparr>rp_status = 200, rp_json = Inr english_default\<rparr>"
        english_default True]
    by (simp add: nullish_def english_default_def js_or_def js_eq_iff own_def)
qed

theorem warning_stale_after_fallback_witness:
  "field_value (syncTestLanguages_finish True (Inr choosy_reply) test_start) ''test-language'' \<noteq> js ''auto'' \<and>
   is_shown (syncTestLanguages_finish True (Inr choosy_reply) test_start) (js ''test-cleanup-warning'')"
proof -
  have "is_shown test_start (js ''test-cleanup-warning'')" by (simp add: is_shown_def has_class_def blank_def js_eq_iff)
  moreover have "field_value test_start ''test-language'' = js ''auto''"
    by (simp add: field_value_def set_value_def js_eq_iff)
  ultimately show ?thesis
    using warning_stale_after_fallback [of test_start detect "[english]" choosy choosy_reply]
    by (simp add: choosy_reply_def) (simp add: detect_def english_def js_eq_iff)
qed

end
