(* ===== verification/Recorder.thy ===== *)
theory Recorder
  imports TestPanel
begin

text \<open>
  The microphone recorder of the test panel (\<open>app/webui/app.js\<close>): the click handler of
  \<open>record-toggle\<close>, split at each \<open>await\<close>, the interval that shows the elapsed time and stops a
  recording at its limit, \<open>onstop\<close> with the benchmark runs, and the figures it paints.  The
  script's variables \<open>recorder\<close>, \<open>chunks\<close>, \<open>recordingTimer\<close> and \<open>recordingStartedAt\<close> are shared by
  all activations of the handler, which is where they can interfere.  Times are in
  milliseconds and are arguments; an element is identified with its id.
\<close>

section \<open>State\<close>

text \<open>A \<open>MediaRecorder\<close>: recording, inactive with its \<open>stop\<close> event still to come, or inactive; whether
  the tracks of its stream are live; and the values its handlers captured.\<close>

datatype rec_state = Recording | Stopping | Inactive

record recording =
  rc_state :: rec_state
  rc_live :: bool
  rc_mime :: jsstring
  rc_max :: jsnum

text \<open>An activation of the click handler that waits: for the languages, for the capabilities (with
  whether a request was sent), or for the microphone with the chosen type.\<close>

datatype phase = AwaitLanguages bool | AwaitCleanup bool | AwaitMedia jsstring

text \<open>A benchmark in progress: the run that is under way, the number of runs, the query, the audio,
  and the payloads so far.\<close>

record benchmark =
  bm_run :: nat
  bm_runs :: jsnum
  bm_language :: jsstring
  bm_mode :: jsstring
  bm_type :: jsstring
  bm_blob :: "nat list"
  bm_payloads :: "jsval list"

record rec_page = test_page +
  recorders :: "nat \<Rightarrow> recording option"
  next_recorder :: nat
  recorder :: "nat option"
  chunks :: "nat list"
  recordingTimer :: "nat option"
  recordingStartedAt :: nat
  starts :: "(jsnum \<times> phase) list"
  orphan_streams :: nat
  benchmarks :: "benchmark list"

definition upd_rec :: "nat \<Rightarrow> (recording \<Rightarrow> recording) \<Rightarrow> 'a rec_page_scheme \<Rightarrow> 'a rec_page_scheme" where
  "upd_rec n f p = p\<lparr>recorders := (recorders p)(n := map_option f (recorders p n))\<rparr>"

text \<open>\<open>orphan_streams\<close> counts the live streams that no recorder was built for.\<close>

section \<open>The timer\<close>

definition stopRecordingTimer :: "'a rec_page_scheme \<Rightarrow> 'a rec_page_scheme" where
  "stopRecordingTimer p = (stop_timer (recordingTimer p) p)\<lparr>recordingTimer := None\<rparr>"

definition elapsed_text :: "int \<Rightarrow> jsstring" where
  "elapsed_text ms =
     (let elapsedSeconds = \<lfloor>rnd (of_int ms / 1000)\<rfloor>;
          minutes = \<lfloor>rnd (of_int elapsedSeconds / 60)\<rfloor>
      in js_int minutes @ js '':'' @ pad_start 2 48 (js_int (js_rem elapsedSeconds 60)))"

definition updateRecordingTimer :: "nat \<Rightarrow> 'a rec_page_scheme \<Rightarrow> 'a rec_page_scheme" where
  "updateRecordingTimer now p =
     upd_el (js ''record-timer'') (set_text (elapsed_text (int now - int (recordingStartedAt p)))) p"

text \<open>\<open>recorder.stop()\<close> on the recorder the variable holds now; on an inactive one it throws, and
  nothing changes.\<close>

definition stop_recorder :: "'a rec_page_scheme \<Rightarrow> 'a rec_page_scheme" where
  "stop_recorder p =
     (case recorder p of
        None \<Rightarrow> p
      | Some n \<Rightarrow> upd_rec n (\<lambda>r. if rc_state r = Recording then r\<lparr>rc_state := Stopping\<rparr> else r) p)"

text \<open>\<open>Date.now() - recordingStartedAt >= maximumSeconds * 1000\<close>.\<close>

definition limit_reached :: "int \<Rightarrow> jsnum \<Rightarrow> bool" where
  "limit_reached ms m =
     (case m of
        Fin r \<Rightarrow> rnd (r * 1000) \<le> of_int ms
      | NegInfinity \<Rightarrow> True
      | _ \<Rightarrow> False)"

definition record_tick :: "nat \<Rightarrow> nat \<Rightarrow> 'a rec_page_scheme \<Rightarrow> 'a rec_page_scheme" where
  "record_tick n now p =
     (let p1 = updateRecordingTimer now p
      in case recorders p n of
           None \<Rightarrow> p1
         | Some r \<Rightarrow>
             if limit_reached (int now - int (recordingStartedAt p)) (rc_max r) then stop_recorder p1 else p1)"

section \<open>Starting\<close>

definition CANDIDATES :: "jsstring list" where
  "CANDIDATES = [js ''audio/mp4'', js ''audio/webm;codecs=opus'', js ''audio/webm'', js ''audio/ogg'']"

text \<open>\<open>supported\<close> is \<open>MediaRecorder.isTypeSupported\<close>, \<open>None\<close> in a browser without \<open>MediaRecorder\<close>.\<close>

definition pickMimeType :: "(jsstring \<Rightarrow> bool) option \<Rightarrow> jsstring option" where
  "pickMimeType supported = (case supported of None \<Rightarrow> None | Some f \<Rightarrow> find f CANDIDATES)"

definition is_recording :: "'a rec_page_scheme \<Rightarrow> bool" where
  "is_recording p =
     (case recorder p of
        None \<Rightarrow> False
      | Some n \<Rightarrow> (case recorders p n of None \<Rightarrow> False | Some r \<Rightarrow> rc_state r = Recording))"

definition maximum_seconds :: "elem \<Rightarrow> jsnum" where
  "maximum_seconds controls =
     num_or (case el_attrs controls (js ''data-maximum-seconds'') of
               None \<Rightarrow> NaN | Some s \<Rightarrow> to_number s) (Fin 300)"

text \<open>The click on the button.  A disabled button gets no clicks.\<close>

definition record_click :: "'a rec_page_scheme \<Rightarrow> 'a rec_page_scheme" where
  "record_click p =
     (case get_el p (js ''recorder-controls'') of
        None \<Rightarrow> p
      | Some controls \<Rightarrow>
          if is_recording p then stop_recorder p
          else case syncTestLanguages_start p of
            (asked, p1) \<Rightarrow> p1\<lparr>starts := starts p1 @ [(maximum_seconds controls, AwaitLanguages asked)]\<rparr>)"

definition record_error :: "jsstring \<Rightarrow> 'a page_scheme \<Rightarrow> 'a page_scheme" where
  "record_error m p = upd_el (js ''test-error'') (\<lambda>e. class_remove (js ''hidden'') (set_text m e)) p"

text \<open>The microphone is there: the new recorder starts.\<close>

definition begin_recording :: "jsstring \<Rightarrow> jsnum \<Rightarrow> nat \<Rightarrow> 'a rec_page_scheme \<Rightarrow> 'a rec_page_scheme" where
  "begin_recording mime m now p =
     (let n = next_recorder p;
          p1 = p\<lparr>chunks := [], recorder := Some n, next_recorder := Suc n,
                 recorders := (recorders p)(n \<mapsto>
                   \<lparr>rc_state = Recording, rc_live = True, rc_mime = mime, rc_max = m\<rparr>)\<rparr>;
          p2 = upd_el (js ''test-result'') (class_add (js ''hidden'')) p1;
          p3 = upd_el (js ''test-error'') (class_add (js ''hidden'')) p2;
          p4 = upd_el (js ''record-toggle'')
                 (\<lambda>e. class_add (js ''recording'') (set_text (js ''Stop & transcribe'') e)) p3;
          p5 = upd_el (js ''record-timer'') (\<lambda>e. class_remove (js ''hidden'') (set_text (js ''0:00'') e))
                 (p4\<lparr>recordingStartedAt := now\<rparr>)
      in case start_timer (RecordTick n, 250) p5 of
           (p6, h) \<Rightarrow>
             upd_el (js ''record-status'')
               (set_text (js ''Recording... max '' @ jsnum_text m @ js ''s.'')) (p6\<lparr>recordingTimer := Some h\<rparr>))"

text \<open>The constructor throws after the chunks were dropped; or the new recorder is stored and its
  \<open>start()\<close> throws.  Either rejects the handler's promise, which nothing handles: the lines after it do not run,
  and the stream of \<open>getUserMedia\<close> stays live.\<close>

definition constructor_throws :: "'a rec_page_scheme \<Rightarrow> 'a rec_page_scheme" where
  "constructor_throws p = p\<lparr>chunks := [], orphan_streams := Suc (orphan_streams p)\<rparr>"

definition start_throws :: "jsstring \<Rightarrow> jsnum \<Rightarrow> 'a rec_page_scheme \<Rightarrow> 'a rec_page_scheme" where
  "start_throws mime m p =
     (let n = next_recorder p
      in p\<lparr>chunks := [], recorder := Some n, next_recorder := Suc n,
           recorders := (recorders p)(n \<mapsto>
             \<lparr>rc_state = Inactive, rc_live = True, rc_mime = mime, rc_max = m\<rparr>)\<rparr>)"

text \<open>A recorder whose device is unplugged or fails stops by itself; its \<open>stop\<close> event follows.\<close>

definition recorder_ended :: "nat \<Rightarrow> 'a rec_page_scheme \<Rightarrow> 'a rec_page_scheme" where
  "recorder_ended n p =
     upd_rec n (\<lambda>r. if rc_state r = Recording then r\<lparr>rc_state := Stopping\<rparr> else r) p"

text \<open>What resumes a waiting activation: the reply it waits for, the types the browser supports, or
  the microphone (\<open>False\<close> when access is denied), with a recorder that starts or throws.\<close>

datatype resumption =
    LanguagesDone "reply result"
  | CleanupDone "reply result" "(jsstring \<Rightarrow> bool) option"
  | MediaDone bool nat
  | ConstructorThrows
  | StartThrows

definition drop_start :: "nat \<Rightarrow> 'a rec_page_scheme \<Rightarrow> 'a rec_page_scheme" where
  "drop_start k p = p\<lparr>starts := take k (starts p) @ drop (Suc k) (starts p)\<rparr>"

definition set_phase :: "nat \<Rightarrow> phase \<Rightarrow> 'a rec_page_scheme \<Rightarrow> 'a rec_page_scheme" where
  "set_phase k ph p = p\<lparr>starts := (starts p)[k := (fst (starts p ! k), ph)]\<rparr>"

definition resume_start :: "nat \<Rightarrow> resumption \<Rightarrow> 'a rec_page_scheme \<Rightarrow> 'a rec_page_scheme" where
  "resume_start k res p =
     (if length (starts p) \<le> k then p
      else case (snd (starts p ! k), res) of
        (AwaitLanguages asked, LanguagesDone outcome) \<Rightarrow>
          (case syncTestCleanup_start (if asked then syncTestLanguages_finish True outcome p else p) of
             (asked2, p1) \<Rightarrow> set_phase k (AwaitCleanup asked2) p1)
      | (AwaitCleanup asked, CleanupDone outcome supported) \<Rightarrow>
          (let p1 = (if asked then syncTestCleanup_finish True outcome p else p)
           in case pickMimeType supported of
                None \<Rightarrow>
                  drop_start k (record_error (js ''This browser cannot record audio (no MediaRecorder).'') p1)
              | Some mime \<Rightarrow> set_phase k (AwaitMedia mime) p1)
      | (AwaitMedia mime, MediaDone granted now) \<Rightarrow>
          if granted then begin_recording mime (fst (starts p ! k)) now (drop_start k p)
          else drop_start k (record_error (js ''Microphone permission denied.'') p)
      | (AwaitMedia mime, ConstructorThrows) \<Rightarrow> constructor_throws (drop_start k p)
      | (AwaitMedia mime, StartThrows) \<Rightarrow> start_throws mime (fst (starts p ! k)) (drop_start k p)
      | _ \<Rightarrow> p)"

section \<open>Figures\<close>

definition formatMs :: "jsnum \<Rightarrow> jsstring" where
  "formatMs value =
     (if num_le (Fin 1000) value then num_fixed 2 (num_over value 1000) @ js ''s''
      else jsnum_text (num_round value) @ js ''ms'')"

text \<open>The sum adds \<open>item[field] || 0\<close>, whatever it is (texts are joined), and the quotient is a number
  again; \<open>item[field]\<close> throws on \<open>null\<close>.\<close>

definition measured :: "jsval list \<Rightarrow> jsval list" where
  "measured payloads = (if 1 < length payloads then tl payloads else payloads)"

definition average :: "string \<Rightarrow> jsval list \<Rightarrow> jsnum result" where
  "average field items =
     (if \<exists>x \<in> set items. nullish x then Inl TypeError
      else Inr (num_over (to_numeric (foldl (\<lambda>sum x. js_add sum (or_zero x field)) (Num (Fin 0)) items))
        (of_nat (length items))))"

definition peak_memory :: "jsval list \<Rightarrow> jsnum result" where
  "peak_memory payloads =
     (if \<exists>x \<in> set payloads. nullish x then Inl TypeError
      else Inr (foldl js_max NegInfinity (map (\<lambda>x. to_numeric (or_zero x ''peak_memory_mb'')) payloads)))"

definition avg_ms :: "string \<Rightarrow> jsval list \<Rightarrow> jsstring result" where
  "avg_ms field payloads = bind_result (average field (measured payloads)) (\<lambda>r. Inr (formatMs r))"

definition DASH :: jsstring where
  "DASH = [0x2014]"

text \<open>The tiles in the order they are painted, each with its text or the exception it throws.\<close>

definition tiles :: "jsval list \<Rightarrow> (jsstring \<times> jsstring result) list" where
  "tiles payloads =
     (let payload = last payloads
      in [(js ''benchmark-total'', avg_ms ''duration_ms'' payloads),
          (js ''benchmark-normalize'', avg_ms ''normalization_ms'' payloads),
          (js ''benchmark-load'',
             bind_result (get_prop (hd payloads) (js ''model_load_ms'')) (\<lambda>v. Inr (formatMs (to_numeric v)))),
          (js ''benchmark-inference'', avg_ms ''inference_ms'' payloads),
          (js ''benchmark-cleanup'',
             if truthy (own payload (js ''cleanup'')) then avg_ms ''cleanup_ms'' payloads else Inr DASH),
          (js ''benchmark-rtf'',
             if nullish (own payload (js ''real_time_factor'')) then Inr DASH
             else bind_result (average ''real_time_factor'' (measured payloads))
               (\<lambda>r. Inr (num_fixed 2 r @ [0xD7]))),
          (js ''benchmark-memory'',
             if nullish (own payload (js ''peak_memory_mb'')) then Inr DASH
             else bind_result (peak_memory payloads) (\<lambda>r. Inr (num_fixed 0 r @ js '' MB'')))])"

text \<open>\<open>document.getElementById(i).textContent = t\<close> for each tile, up to the first that throws.\<close>

fun paint_tiles :: "(jsstring \<times> jsstring result) list \<Rightarrow> 'a page_scheme \<Rightarrow> 'a page_scheme \<times> exn option" where
  "paint_tiles [] p = (p, None)"
| "paint_tiles ((i, t) # ts) p =
     (case t of
        Inl e \<Rightarrow> (p, Some e)
      | Inr txt \<Rightarrow>
          if get_el p i = None then (p, Some TypeError) else paint_tiles ts (upd_el i (set_text txt) p))"

definition meta_text :: "jsnum \<Rightarrow> jsval \<Rightarrow> jsstring" where
  "meta_text runs payload =
     to_text (own payload (js ''engine'')) @ js '' '' @ [0xB7] @
     (if (case runs of Fin r \<Rightarrow> 1 < r | Infinity \<Rightarrow> True | _ \<Rightarrow> False)
      then js '' warm average of runs 2-'' @ jsnum_text runs @ js ''; model load is run 1''
      else js '' 1-run result'')"

text \<open>Everything after the last reply, up to the first exception.\<close>

definition paint_benchmark :: "benchmark \<Rightarrow> 'a view_page_scheme \<Rightarrow> 'a view_page_scheme \<times> exn option" where
  "paint_benchmark bm p =
     (if bm_payloads bm = [] \<or> nullish (last (bm_payloads bm)) \<or> get_el p (js ''test-transcript'') = None
      then (p, Some TypeError)
      else
        let payload = last (bm_payloads bm);
            p1 = set_kids (js ''test-transcript'') (plain (content_of (own payload (js ''transcript'')))) p;
            write = (js ''test-meta'', Inr (meta_text (bm_runs bm) payload)) # tiles (bm_payloads bm)
        in case renderCleanupComparison payload p1 of
             (p2, Some e) \<Rightarrow> (p2, Some e)
           | (p2, None) \<Rightarrow> paint_tiles write p2)"

section \<open>After a recording\<close>

text \<open>The \<open>catch\<close> block with \<open>error.message\<close>, and \<open>finally\<close>.\<close>

definition message_of :: "(exn \<Rightarrow> jsstring) \<Rightarrow> exn \<Rightarrow> jsstring" where
  "message_of msg e = (case e of Thrown m \<Rightarrow> m | _ \<Rightarrow> msg e)"

definition benchmark_failed :: "jsstring \<Rightarrow> 'a page_scheme \<Rightarrow> 'a page_scheme" where
  "benchmark_failed m p =
     upd_el (js ''record-toggle'') (set_disabled False)
       (upd_el (js ''record-status'') (set_text []) (record_error m p))"

definition benchmark_done :: "(exn \<Rightarrow> jsstring) \<Rightarrow> benchmark \<Rightarrow> 'a view_page_scheme \<Rightarrow> 'a view_page_scheme" where
  "benchmark_done msg bm p =
     (case paint_benchmark bm p of
        (q, Some e) \<Rightarrow> benchmark_failed (message_of msg e) q
      | (q, None) \<Rightarrow>
          upd_el (js ''record-toggle'') (set_disabled False)
            (upd_el (js ''record-status'') (set_text [])
              (upd_el (js ''test-error'') (class_add (js ''hidden''))
                (upd_el (js ''test-result'') (class_remove (js ''hidden'')) q))))"

text \<open>\<open>run < runs\<close>.\<close>

definition more_runs :: "nat \<Rightarrow> jsnum \<Rightarrow> bool" where
  "more_runs run runs = (case runs of Fin r \<Rightarrow> of_nat run < r | Infinity \<Rightarrow> True | _ \<Rightarrow> False)"

definition run_status :: "nat \<Rightarrow> jsnum \<Rightarrow> jsstring" where
  "run_status run runs =
     (if more_runs 1 runs
      then js ''Benchmarking... run '' @ js_nat (run + 1) @ js '' of '' @ jsnum_text runs
      else js ''Transcribing...'')"

definition upload_request :: "benchmark \<Rightarrow> 'a page_scheme \<Rightarrow> request" where
  "upload_request bm p =
     Upload (js ''POST'')
       (js ''/v1/admin/test-transcription?language='' @ bm_language bm @ js ''&cleanup_mode='' @ bm_mode bm)
       [(js ''Authorization'', bearer p), (js ''Content-Type'', bm_type bm)] (bm_blob bm)"

text \<open>The head of the loop: the next request, or the end of the loop.\<close>

definition next_run :: "(exn \<Rightarrow> jsstring) \<Rightarrow> benchmark \<Rightarrow> 'a rec_page_scheme \<Rightarrow> 'a rec_page_scheme" where
  "next_run msg bm p =
     (if more_runs (bm_run bm) (bm_runs bm) then
        let p1 = upd_el (js ''record-status'') (set_text (run_status (bm_run bm) (bm_runs bm))) p
        in send (upload_request bm p1) (p1\<lparr>benchmarks := benchmarks p1 @ [bm]\<rparr>)
      else benchmark_done msg bm p)"

text \<open>The \<open>stop\<close> event of recorder \<open>n\<close>; the chunk of the \<open>dataavailable\<close> event comes just before it.\<close>

definition recorder_stopped ::
    "(exn \<Rightarrow> jsstring) \<Rightarrow> nat \<Rightarrow> nat \<Rightarrow> 'a rec_page_scheme \<Rightarrow> 'a rec_page_scheme" where
  "recorder_stopped msg n chunk p =
     (case recorders p n of
        None \<Rightarrow> p
      | Some r \<Rightarrow>
          if rc_state r \<noteq> Stopping then p
          else
            let p1 = stopRecordingTimer (p\<lparr>chunks := chunks p @ [chunk]\<rparr>);
                p2 = upd_rec n (\<lambda>r. r\<lparr>rc_state := Inactive, rc_live := False\<rparr>) p1;
                p3 = upd_el (js ''record-toggle'')
                       (\<lambda>e. set_disabled True (class_remove (js ''recording'') (set_text (js ''Start recording'') e))) p2;
                p4 = upd_el (js ''record-timer'') (class_add (js ''hidden'')) p3;
                p5 = upd_el (js ''record-status'') (set_text (js ''Transcribing...'')) p4
            in if get_el p5 (js ''test-language'') = None \<or> get_el p5 (js ''test-cleanup'') = None
                  \<or> get_el p5 (js ''test-runs'') = None
               then benchmark_failed (message_of msg TypeError) p5
               else next_run msg
                 \<lparr>bm_run = 0, bm_runs = num_or (to_number (field_value p5 ''test-runs'')) (Fin 1),
                  bm_language = field_value p5 ''test-language'', bm_mode = field_value p5 ''test-cleanup'',
                  bm_type = takeWhile (\<lambda>c. c \<noteq> 59) (rc_mime r), bm_blob = chunks p5, bm_payloads = []\<rparr> p5)"

text \<open>\<open>payload.error?.message || "Transcription failed."\<close>, as \<open>Error\<close> turns it into its message.\<close>

definition failure_message :: "jsval \<Rightarrow> jsstring" where
  "failure_message payload =
     to_text (js_or (opt_prop (own payload (js ''error'')) (js ''message'')) (Str (js ''Transcription failed.'')))"

text \<open>The reply to the current run of benchmark \<open>k\<close>.\<close>

definition run_replied ::
    "(exn \<Rightarrow> jsstring) \<Rightarrow> nat \<Rightarrow> reply result \<Rightarrow> 'a rec_page_scheme \<Rightarrow> 'a rec_page_scheme" where
  "run_replied msg k outcome p =
     (if length (benchmarks p) \<le> k then p
      else
        let bm = benchmarks p ! k;
            p1 = p\<lparr>benchmarks := take k (benchmarks p) @ drop (Suc k) (benchmarks p)\<rparr>
        in case outcome of
             Inl e \<Rightarrow> benchmark_failed (message_of msg e) p1
           | Inr r \<Rightarrow>
               (case rp_json r of
                  Inl e \<Rightarrow> benchmark_failed (message_of msg e) p1
                | Inr payload \<Rightarrow>
                    if \<not> rp_ok r then
                      benchmark_failed
                        (if nullish payload then message_of msg TypeError else failure_message payload) p1
                    else next_run msg
                      (bm\<lparr>bm_run := Suc (bm_run bm), bm_payloads := bm_payloads bm @ [payload]\<rparr>) p1))"

section \<open>Runs\<close>

datatype rec_event =
    RecordClick
  | Resume nat resumption
  | Tick nat nat
  | Stopped nat nat
  | RunReply nat "reply result"

fun rec_step :: "(exn \<Rightarrow> jsstring) \<Rightarrow> 'a rec_page_scheme \<Rightarrow> rec_event \<Rightarrow> 'a rec_page_scheme" where
  "rec_step msg p RecordClick =
     (case get_el p (js ''record-toggle'') of
        None \<Rightarrow> p
      | Some b \<Rightarrow> if el_disabled b then p else record_click p)"
| "rec_step msg p (Resume k res) = resume_start k res p"
| "rec_step msg p (Tick h now) =
     (case timers p h of
        Some (RecordTick n, d) \<Rightarrow> record_tick n now p
      | _ \<Rightarrow> p)"
| "rec_step msg p (Stopped n chunk) = recorder_stopped msg n chunk p"
| "rec_step msg p (RunReply k outcome) = run_replied msg k outcome p"

section \<open>Elapsed time\<close>

text \<open>C29.  The timer shows whole minutes and two-digit seconds of the time since the recording started,
  rounded down: for every duration below 2 to the 42 milliseconds the double-precision divisions
  of the code lose nothing.\<close>

theorem timer_shows_elapsed:
  assumes "ms < 2 ^ 42"
  shows "elapsed_text (int ms) =
      js_nat (ms div 60000) @ js '':'' @ pad_start 2 48 (js_nat (ms div 1000 mod 60)) \<and>
    length (pad_start 2 48 (js_nat (ms div 1000 mod 60))) = 2"
proof -
  let ?s = "ms div 1000"
  have "?s \<le> ms" by simp
  then have s: "?s < 2 ^ 42" using assms by (rule le_less_trans)
  have secs: "\<lfloor>rnd (of_int (int ms) / 1000)\<rfloor> = int ?s" using floor_rnd_div [of ms 1000] assms by simp
  have mins: "\<lfloor>rnd (of_int (int ?s) / 60)\<rfloor> = int (?s div 60)" using floor_rnd_div [of ?s 60] s by simp
  have "js_rem (int ?s) 60 = int (?s mod 60)" by (cases "?s = 0") (simp_all add: js_rem_def zmod_int)
  then have e: "elapsed_text (int ms) = js_nat (?s div 60) @ js '':'' @ pad_start 2 48 (js_nat (?s mod 60))"
    unfolding elapsed_text_def Let_def secs mins by (simp add: js_int_def)
  have d: "?s div 60 = ms div 60000" by (simp add: div_mult2_eq [symmetric])
  have "length (js_nat k) \<le> 2" if "k < 60" for k
  proof -
    have "k div 10 < 10" using that by (intro less_mult_imp_div_less) simp
    then show ?thesis by (subst js_nat.simps) (simp add: js_nat.simps [of "k div 10"])
  qed
  then have "length (js_nat (?s mod 60)) \<le> 2" by simp
  then have "length (pad_start 2 48 (js_nat (?s mod 60))) = 2" by (simp add: length_pad_start)
  with e d show ?thesis by simp
qed

theorem timer_shows_elapsed_witness: "elapsed_text (int 83999) = js ''1:23''"
proof -
  have "js_nat 1 = js ''1''" "js_nat 23 = js ''23''" by (simp_all add: js_defs)
  then show ?thesis using timer_shows_elapsed [of 83999] by (simp add: pad_start_def js_defs)
qed

section \<open>One microphone\<close>

text \<open>What the recorder's invariant is about, and the operations that do not touch it.\<close>

definition core :: "'a rec_page_scheme \<Rightarrow> _" where
  "core p = (timers p, next_timer p, recorders p, next_recorder p, recorder p, recordingTimer p, starts p,
     orphan_streams p)"

lemma core_upd_el [simp]: "core (upd_el i f p) = core p"
  by (simp add: core_def upd_el_def)

lemma core_send [simp]: "core (send r p) = core p"
  by (simp add: core_def send_def)

lemma core_fields [simp]:
  "core (p\<lparr>lang_options := x\<rparr>) = core p" "core (p\<lparr>cleanupCapability := y\<rparr>) = core p"
  "core (p\<lparr>kids := z\<rparr>) = core p" "core (p\<lparr>chunks := c\<rparr>) = core p"
  "core (p\<lparr>benchmarks := b\<rparr>) = core p" "core (p\<lparr>recordingStartedAt := n\<rparr>) = core p"
  by (simp_all add: core_def)

lemma core_languages [simp]: "core (syncTestLanguages_finish a r p) = core p"
  by (simp add: syncTestLanguages_finish_def apply_languages_def Let_def split: sum.split option.split)

lemma core_warning [simp]: "core (syncTestCleanupWarning p) = core p"
  by (simp add: syncTestCleanupWarning_def)

lemma core_cleanup [simp]: "core (syncTestCleanup_finish a r p) = core p"
  by (simp add: syncTestCleanup_finish_def apply_capabilities_def Let_def split: sum.split)

lemma core_starts: "core (snd (syncTestLanguages_start p)) = core p" "core (snd (syncTestCleanup_start p)) = core p"
  by (simp_all add: syncTestLanguages_start_def syncTestCleanup_start_def)

lemma core_render [simp]: "core (fst (renderCleanupComparison payload p)) = core p"
  by (auto simp: renderCleanupComparison_def show_outcome_def Let_def set_kids_def split: prod.split sum.split)

lemma core_paint_tiles: "core (fst (paint_tiles ts p)) = core p"
  by (induction ts p rule: paint_tiles.induct) (auto split: sum.split)

lemma core_paint_benchmark: "core (fst (paint_benchmark bm p)) = core p"
proof -
  have "core (fst (case renderCleanupComparison payload q of
      (p2, Some e) \<Rightarrow> (p2, Some e) | (p2, None) \<Rightarrow> paint_tiles ts p2)) = core q" for payload ts and q :: "'a rec_page_scheme"
    using core_render [of payload q] by (cases "renderCleanupComparison payload q") (simp add: core_paint_tiles split: option.split)
  then show ?thesis by (simp add: paint_benchmark_def Let_def set_kids_def del: paint_tiles.simps)
qed

lemma core_failed [simp]: "core (benchmark_failed m p) = core p"
  by (simp add: benchmark_failed_def record_error_def)

lemma core_done [simp]: "core (benchmark_done msg bm p) = core p"
  using core_paint_benchmark [of bm p] by (auto simp: benchmark_done_def split: prod.split option.split)

lemma core_next_run [simp]: "core (next_run msg bm p) = core p"
  by (simp add: next_run_def Let_def)

lemma core_run_replied [simp]: "core (run_replied msg k outcome p) = core p"
  by (auto simp: run_replied_def Let_def split: sum.split)

definition busy :: "recording \<Rightarrow> bool" where
  "busy r \<longleftrightarrow> rc_state r \<noteq> Inactive"

text \<open>The stream of a recorder is live while the recorder is recording or stopping, only the recorder
  the variable holds is, the one interval belongs to it and is in its variable, and an
  activation that waits excludes all of them; there is no other stream.\<close>

definition rec_inv :: "'a rec_page_scheme \<Rightarrow> bool" where
  "rec_inv p \<longleftrightarrow> timers_ok p \<and> (\<forall>m. recorders p m \<noteq> None \<longrightarrow> m < next_recorder p) \<and>
     (\<forall>m r. recorders p m = Some r \<longrightarrow> rc_live r = busy r \<and> (busy r \<longrightarrow> recorder p = Some m \<and> starts p = [])) \<and>
     (\<forall>h n d. timers p h = Some (RecordTick n, d) \<longrightarrow> recordingTimer p = Some h \<and>
        (\<exists>r. recorders p n = Some r \<and> busy r)) \<and>
     length (starts p) \<le> 1 \<and> orphan_streams p = 0"

lemma rec_inv_tick:
  "rec_inv p \<Longrightarrow> timers p h = Some (RecordTick n, d) \<Longrightarrow>
     recordingTimer p = Some h \<and> (\<exists>r. recorders p n = Some r \<and> busy r)"
  unfolding rec_inv_def by blast

lemma rec_inv_rec:
  "rec_inv p \<Longrightarrow> recorders p m = Some r \<Longrightarrow>
     m < next_recorder p \<and> rc_live r = busy r \<and> (busy r \<longrightarrow> recorder p = Some m \<and> starts p = [])"
  unfolding rec_inv_def by blast

lemma rec_inv_core: "core q = core p \<Longrightarrow> rec_inv q = rec_inv p"
  by (simp add: core_def rec_inv_def timers_ok_def)

definition calm :: "'a rec_page_scheme \<Rightarrow> bool" where
  "calm p \<longleftrightarrow> starts p = [] \<and> (\<forall>m r. recorders p m = Some r \<longrightarrow> rc_state r \<noteq> Stopping)"

lemma rec_inv_ended:
  assumes "rec_inv p"
  shows "rec_inv (recorder_ended n p)"
proof -
  define f :: "recording \<Rightarrow> recording" where "f = (\<lambda>r. if rc_state r = Recording then r\<lparr>rc_state := Stopping\<rparr> else r)"
  have f: "busy (f r) = busy r" "rc_live (f r) = rc_live r" for r by (auto simp: f_def busy_def)
  have "rec_inv (upd_rec n f p)"
    unfolding rec_inv_def
  proof (intro conjI allI impI)
    fix m r assume "recorders (upd_rec n f p) m = Some r"
    then obtain r' where "recorders p m = Some r'" "busy r = busy r'" "rc_live r = rc_live r'"
      by (auto simp: upd_rec_def f split: if_splits)
    then show "rc_live r = busy r" "busy r \<Longrightarrow> recorder (upd_rec n f p) = Some m"
      "busy r \<Longrightarrow> starts (upd_rec n f p) = []"
      using assms by (auto simp: rec_inv_def upd_rec_def)
  next
    fix h k d assume "timers (upd_rec n f p) h = Some (RecordTick k, d)"
    then have "timers p h = Some (RecordTick k, d)" by (simp add: upd_rec_def)
    from rec_inv_tick [OF assms this]
    have "recordingTimer p = Some h" "\<exists>r. recorders p k = Some r \<and> busy r" by simp_all
    then show "recordingTimer (upd_rec n f p) = Some h" "\<exists>r. recorders (upd_rec n f p) k = Some r \<and> busy r"
      by (auto simp: upd_rec_def f)
  qed (use assms in \<open>auto simp: rec_inv_def timers_ok_def upd_rec_def split: if_splits\<close>)
  then show ?thesis by (simp add: recorder_ended_def f_def)
qed

lemma rec_inv_stop: "rec_inv p \<Longrightarrow> rec_inv (stop_recorder p)"
  using rec_inv_ended [of p] by (simp add: stop_recorder_def recorder_ended_def split: option.split)

lemma core_record_error [simp]: "core (record_error m p) = core p"
  by (simp add: record_error_def)

lemma core_drop: "core q = core p \<Longrightarrow> core (drop_start k q) = core (drop_start k p)"
  by (simp add: core_def drop_start_def)

lemma core_phase: "core q = core p \<Longrightarrow> core (set_phase k ph q) = core (set_phase k ph p)"
  by (simp add: core_def set_phase_def)

lemma rec_inv_phase: "rec_inv p \<Longrightarrow> rec_inv (set_phase k ph p)"
  by (fastforce simp: rec_inv_def set_phase_def timers_ok_def)

lemma rec_inv_drop: "rec_inv p \<Longrightarrow> rec_inv (drop_start k p)"
  by (fastforce simp: rec_inv_def drop_start_def timers_ok_def)

text \<open>With no recorder busy, no interval is pending either, so a new recorder can start.\<close>

lemma rec_inv_begin:
  assumes "rec_inv p" "k < length (starts p)"
  shows "rec_inv (begin_recording mime mx now (drop_start k p))"
proof -
  let ?n = "next_recorder p" and ?h = "next_timer p"
  let ?r = "\<lparr>rc_state = Recording, rc_live = True, rc_mime = mime, rc_max = mx\<rparr>"
  have idle: "\<not> busy r \<and> \<not> rc_live r" if "recorders p m = Some r" for m r
    using rec_inv_rec [OF assms(1) that] assms(2) by auto
  have no_tick: "timers p h \<noteq> Some (RecordTick n, d)" for h n d
    using rec_inv_tick [OF assms(1), of h n d] idle by blast
  have "starts (drop_start k p) = []"
    using assms by (simp add: drop_start_def rec_inv_def)
  then have "core (begin_recording mime mx now (drop_start k p)) =
      ((timers p)(?h \<mapsto> (RecordTick ?n, 250)), Suc ?h, (recorders p)(?n \<mapsto> ?r), Suc ?n, Some ?n, Some ?h, [],
        orphan_streams p)"
    by (simp add: begin_recording_def Let_def start_timer_def)
      (simp add: core_def drop_start_def upd_el_def)
  then have q: "timers (begin_recording mime mx now (drop_start k p)) = (timers p)(?h \<mapsto> (RecordTick ?n, 250))"
    "next_timer (begin_recording mime mx now (drop_start k p)) = Suc ?h"
    "recorders (begin_recording mime mx now (drop_start k p)) = (recorders p)(?n \<mapsto> ?r)"
    "next_recorder (begin_recording mime mx now (drop_start k p)) = Suc ?n"
    "recorder (begin_recording mime mx now (drop_start k p)) = Some ?n"
    "recordingTimer (begin_recording mime mx now (drop_start k p)) = Some ?h"
    "starts (begin_recording mime mx now (drop_start k p)) = []"
    "orphan_streams (begin_recording mime mx now (drop_start k p)) = orphan_streams p"
    by (simp_all add: core_def)
  have "timers_ok p" "\<forall>m. recorders p m \<noteq> None \<longrightarrow> m < ?n" "orphan_streams p = 0" using assms(1) by (simp_all add: rec_inv_def)
  then show ?thesis
    unfolding rec_inv_def timers_ok_def q using idle no_tick by (auto simp: busy_def less_SucI)
qed

lemma rec_inv_resume:
  assumes "res \<noteq> ConstructorThrows" "res \<noteq> StartThrows"
  shows "rec_inv p \<Longrightarrow> rec_inv (resume_start k res p)"
proof (cases "length (starts p) \<le> k")
  case True
  then show "rec_inv p \<Longrightarrow> ?thesis" by (simp add: resume_start_def)
next
  case False
  assume inv: "rec_inv p"
  have same: "rec_inv q" if "core q = core (set_phase k ph p) \<or> core q = core (drop_start k p)" for q ph
    using that rec_inv_core [of q] rec_inv_phase [OF inv] rec_inv_drop [OF inv] by metis
  have lang: "core (set_phase k ph (snd (syncTestCleanup_start (if b then syncTestLanguages_finish True r p else p)))) =
      core (set_phase k ph p)" for ph b r
    by (rule core_phase) (simp add: core_starts)
  have cln: "core (set_phase k ph (if b then syncTestCleanup_finish True r p else p)) = core (set_phase k ph p)"
    "core (drop_start k (record_error m (if b then syncTestCleanup_finish True r p else p))) = core (drop_start k p)"
    for ph b r m
    by (rule core_phase, simp) (rule core_drop, simp)
  have den: "core (drop_start k (record_error m p)) = core (drop_start k p)" for m
    by (rule core_drop) simp
  show ?thesis
  proof (cases "snd (starts p ! k)")
    case (AwaitLanguages b)
    have "rec_inv (set_phase k ph x)"
      if "syncTestCleanup_start (if b then syncTestLanguages_finish True r p else p) = (a, x)" for ph a x r
      using same [OF disjI1 [OF lang [of ph b r]]] that by simp
    with AwaitLanguages show ?thesis using False inv assms
      by (simp add: resume_start_def split: resumption.split prod.split)
  next
    case (AwaitCleanup b)
    then show ?thesis using False inv assms same [OF disjI1 [OF cln(1)]] same [OF disjI2 [OF cln(2)]]
      by (simp add: resume_start_def Let_def split: resumption.split option.split split del: if_split)
  next
    case (AwaitMedia mime)
    have "rec_inv (begin_recording mime (fst (starts p ! k)) now (drop_start k p))" for now
      using False inv by (intro rec_inv_begin) auto
    with AwaitMedia show ?thesis using False inv assms same [OF disjI2 [OF den]]
      by (auto simp: resume_start_def split: resumption.split)
  qed
qed

lemma rec_inv_stopped:
  fixes p :: "'a rec_page_scheme" and chunk :: nat and msg :: "exn \<Rightarrow> jsstring"
  assumes "rec_inv p" "recorders p n = Some r" "rc_state r = Stopping"
  defines "q \<equiv> recorder_stopped msg n chunk p"
  shows "rec_inv q \<and> (\<forall>m x. recorders q m = Some x \<longrightarrow> \<not> rc_live x) \<and>
    (\<forall>h k d. timers q h \<noteq> Some (RecordTick k, d))"
proof -
  let ?f = "\<lambda>r. r\<lparr>rc_state := Inactive, rc_live := False\<rparr>"
  define p1 where "p1 = upd_rec n ?f (stopRecordingTimer p)"
  have u: "core (upd_rec n ?f (stopRecordingTimer (x\<lparr>chunks := c\<rparr>))) =
      core (upd_rec n ?f (stopRecordingTimer x))" for x :: "'a rec_page_scheme" and c
    by (simp add: core_def upd_rec_def stopRecordingTimer_def stop_timer_def split: option.split)
  have "core q = core p1"
    using assms(2,3) by (simp add: q_def recorder_stopped_def Let_def p1_def u)
  then have c: "timers q = timers p1" "next_timer q = next_timer p1" "recorders q = recorders p1"
    "next_recorder q = next_recorder p1" "recorder q = recorder p1" "recordingTimer q = recordingTimer p1"
    "starts q = starts p1" "orphan_streams q = orphan_streams p1" by (simp_all add: core_def)
  have n: "recorder p = Some n" "starts p = []"
    using rec_inv_rec [OF assms(1,2)] assms(3) by (simp_all add: busy_def)
  have recs: "recorders p1 = (recorders p)(n \<mapsto> ?f r)" "next_recorder p1 = next_recorder p" "starts p1 = []"
    "orphan_streams p1 = orphan_streams p"
    using assms(2) n by (simp_all add: p1_def upd_rec_def stopRecordingTimer_def stop_timer_def split: option.split)
  have idle: "\<not> busy x \<and> \<not> rc_live x" if "recorders p1 m = Some x" for m x
    using that rec_inv_rec [OF assms(1), of m x] n by (auto simp: recs busy_def split: if_splits)
  have ticks: "timers p1 h \<noteq> Some (RecordTick k, d)" for h k d
  proof
    assume t: "timers p1 h = Some (RecordTick k, d)"
    then have "timers p h = Some (RecordTick k, d)" "recordingTimer p \<noteq> Some h"
      by (auto simp: p1_def upd_rec_def stopRecordingTimer_def stop_timer_def split: option.splits if_splits)
    with rec_inv_tick [OF assms(1)] show False by blast
  qed
  have "timers_ok p1" using timers_ok_stop [of p "recordingTimer p"] assms(1)
    by (simp add: p1_def rec_inv_def timers_ok_def upd_rec_def stopRecordingTimer_def)
  moreover have "\<forall>m. recorders p1 m \<noteq> None \<longrightarrow> m < next_recorder p1"
    using assms(1,2) by (auto simp: rec_inv_def recs)
  ultimately have "rec_inv q"
    unfolding rec_inv_def timers_ok_def c using idle ticks recs(3,4) assms(1) by (auto simp: rec_inv_def)
  with idle ticks show ?thesis by (simp add: c)
qed

lemma rec_inv_click:
  assumes "rec_inv p" "is_recording p \<or> calm p"
  shows "rec_inv (record_click p)"
proof (cases "is_recording p")
  case True
  then show ?thesis by (simp add: record_click_def rec_inv_stop assms(1) split: option.split)
next
  case False
  then have calm: "calm p" using assms(2) by blast
  have idle: "\<not> busy r" if "recorders p m = Some r" for m r
    using rec_inv_rec [OF assms(1) that] calm False that
    by (cases "rc_state r") (auto simp: busy_def calm_def is_recording_def)
  have c: "core (snd (syncTestLanguages_start p)) = core p" by (rule core_starts)
  have "rec_inv ((snd (syncTestLanguages_start p))\<lparr>starts := starts (snd (syncTestLanguages_start p)) @ [x]\<rparr>)" for x
  proof -
    have "core ((snd (syncTestLanguages_start p))\<lparr>starts := starts (snd (syncTestLanguages_start p)) @ [x]\<rparr>) =
        core (p\<lparr>starts := [x]\<rparr>)"
      using c calm by (simp add: core_def calm_def)
    moreover have "rec_inv (p\<lparr>starts := [x]\<rparr>)"
      using assms(1) idle by (auto simp: rec_inv_def timers_ok_def)
    ultimately show ?thesis using rec_inv_core by metis
  qed
  then show ?thesis using False assms(1)
    by (auto simp: record_click_def split: option.split prod.split)
qed

lemma rec_inv_record_tick: "rec_inv p \<Longrightarrow> rec_inv (record_tick n now p)"
proof -
  assume "rec_inv p"
  then have "rec_inv (updateRecordingTimer now p)"
    using rec_inv_core [of "updateRecordingTimer now p" p] by (simp add: updateRecordingTimer_def)
  then show ?thesis by (simp add: record_tick_def Let_def rec_inv_stop split: option.split)
qed

text \<open>The browser records what it said it can: no constructor and no \<open>start()\<close> throws.\<close>

definition no_failure :: "rec_event \<Rightarrow> bool" where
  "no_failure e = (case e of Resume k res \<Rightarrow> res \<noteq> ConstructorThrows \<and> res \<noteq> StartThrows | _ \<Rightarrow> True)"

lemma rec_step_inv:
  assumes "rec_inv p" "e = RecordClick \<Longrightarrow> is_recording p \<or> calm p" "no_failure e"
  shows "rec_inv (rec_step msg p e)"
proof (cases e)
  case RecordClick
  with assms rec_inv_click show ?thesis by (auto split: option.split)
next
  case (Stopped n chunk)
  have "rec_inv (recorder_stopped msg n chunk p)"
  proof (cases "\<exists>r. recorders p n = Some r \<and> rc_state r = Stopping")
    case True
    with rec_inv_stopped [OF assms(1)] show ?thesis by blast
  next
    case False
    then have "recorder_stopped msg n chunk p = p" by (auto simp: recorder_stopped_def split: option.split)
    with assms(1) show ?thesis by simp
  qed
  with Stopped show ?thesis by simp
next
  case (RunReply k outcome)
  then show ?thesis using rec_inv_core [of "run_replied msg k outcome p" p] assms(1) by simp
qed (use assms(1,3) in \<open>simp_all add: no_failure_def rec_inv_resume rec_inv_record_tick split: option.split callback.split prod.split\<close>)

text \<open>Runs in which the button is pressed only while it does what it says: to stop a recording, or to
  start one when no other activation is waiting and no recorder is about to stop; and the
  browser can record.\<close>

inductive calm_run :: "(exn \<Rightarrow> jsstring) \<Rightarrow> 'a rec_page_scheme \<Rightarrow> 'a rec_page_scheme \<Rightarrow> bool" for msg where
  calm_refl: "calm_run msg p p"
| calm_step: "calm_run msg p q \<Longrightarrow> (e = RecordClick \<Longrightarrow> is_recording q \<or> calm q) \<Longrightarrow> no_failure e \<Longrightarrow>
    calm_run msg p (rec_step msg q e)"

lemma calm_run_inv: "calm_run msg p q \<Longrightarrow> rec_inv p \<Longrightarrow> rec_inv q"
  by (induction rule: calm_run.induct) (simp_all add: rec_step_inv)

text \<open>In every run in which no click comes while a start is still waiting or a recorder is about to
  stop, and no recorder fails to start, there is one microphone: the only stream that is live is that of the recorder the script holds, at most one interval
  runs, it belongs to a recorder that is busy, and once a recorder has stopped no stream is
  live and no interval is left.\<close>

theorem one_microphone:
  assumes "calm_run msg p q" "rec_inv p"
  shows "(\<forall>m r. recorders q m = Some r \<and> rc_live r \<longrightarrow> recorder q = Some m) \<and>
    (\<forall>h h' n n' d d'. timers q h = Some (RecordTick n, d) \<and> timers q h' = Some (RecordTick n', d') \<longrightarrow> h = h') \<and>
    (\<forall>n r chunk. recorders q n = Some r \<and> rc_state r = Stopping \<longrightarrow>
       (\<forall>m x. recorders (rec_step msg q (Stopped n chunk)) m = Some x \<longrightarrow> \<not> rc_live x) \<and>
       (\<forall>h k d. timers (rec_step msg q (Stopped n chunk)) h \<noteq> Some (RecordTick k, d))) \<and>
    orphan_streams q = 0"
proof -
  have inv: "rec_inv q" by (rule calm_run_inv [OF assms])
  have "\<forall>m r. recorders q m = Some r \<and> rc_live r \<longrightarrow> recorder q = Some m"
    using rec_inv_rec [OF inv] by metis
  moreover have "h = h'" if "timers q h = Some (RecordTick n, d)" "timers q h' = Some (RecordTick n', d')"
    for h h' n n' d d'
    using rec_inv_tick [OF inv that(1)] rec_inv_tick [OF inv that(2)] by simp
  moreover have "orphan_streams q = 0" using inv by (simp add: rec_inv_def)
  ultimately show ?thesis using rec_inv_stopped [OF inv] by (simp only: rec_step.simps) metis
qed

section \<open>A delivered recorder\<close>

definition rec_start :: rec_page where
  "rec_start = test_page.extend test_start
     \<lparr>recorders = (\<lambda>_. None), next_recorder = 0, recorder = None, chunks = [], recordingTimer = None,
      recordingStartedAt = 0, starts = [], orphan_streams = 0, benchmarks = []\<rparr>"

lemma rec_start_simps [simp]:
  "recorders rec_start = (\<lambda>_. None)" "recorder rec_start = None" "starts rec_start = []"
  "next_recorder rec_start = 0" "timers rec_start = (\<lambda>_. None)" "next_timer rec_start = 0"
  "get_el rec_start i = get_el test_start i" "recordingTimer rec_start = None" "chunks rec_start = []"
  "orphan_streams rec_start = 0"
  by (simp_all add: rec_start_def test_page.defs test_start_def poll_page.defs poll_start_def
      dialog_page.defs dialog_start_def filter_page.defs filter_start_def grid_page.defs grid_start_def
      view_page.defs view_start_def shell_page.defs get_el_def)

lemma rec_inv_start: "rec_inv rec_start"
  by (simp add: rec_inv_def timers_ok_def)

text \<open>Starting a recording: a click, replies that fail, and the microphone.\<close>

definition mp4 :: "jsstring \<Rightarrow> bool" where
  "mp4 t = (t = js ''audio/mp4'')"

definition one_start :: "nat \<Rightarrow> nat \<Rightarrow> rec_event list" where
  "one_start k now = [Resume k (LanguagesDone (Inl NetworkError)),
     Resume k (CleanupDone (Inl NetworkError) (Some mp4)), Resume k (MediaDone True now)]"

text \<open>What such a start does to the recorder's variables, and that the button stays enabled.\<close>

definition enabled :: "'a page_scheme \<Rightarrow> bool" where
  "enabled p \<longleftrightarrow> map_option el_disabled (get_el p (js ''record-toggle'')) = Some False \<and>
     get_el p (js ''recorder-controls'') \<noteq> None"

lemma enabled_upd:
  "(\<And>e. el_disabled (f e) = el_disabled e) \<Longrightarrow> enabled (upd_el i f p) = enabled p"
  by (cases "get_el p i") (auto simp: enabled_def el.look_change)

lemma enabled_els: "els q = els p \<Longrightarrow> enabled q = enabled p"
  by (simp add: enabled_def get_el_def)

lemma enabled_begin: "enabled (begin_recording mime m now p) = enabled p"
proof -
  have same: "el_disabled (class_add c e) = el_disabled e" "el_disabled (class_remove c e) = el_disabled e"
    "el_disabled (set_text t e) = el_disabled e" for c t e
    by (simp_all add: class_add_def class_remove_def set_text_def)
  have rest: "enabled (p\<lparr>recordingTimer := h\<rparr>) = enabled p" "enabled (p\<lparr>recordingStartedAt := now\<rparr>) = enabled p"
    "enabled (p\<lparr>chunks := [], recorder := n, next_recorder := k, recorders := r\<rparr>) = enabled p"
    "enabled (fst (start_timer c p)) = enabled p" for p :: "'a rec_page_scheme" and h now n k r c
    by (simp_all add: enabled_def get_el_def start_timer_def)
  show ?thesis
    by (simp add: begin_recording_def Let_def case_prod_unfold enabled_upd same rest)
qed

lemma enabled_send [simp]: "enabled (send r p) = enabled p"
  by (rule enabled_els) simp

lemma click_start:
  assumes "enabled p" "\<not> is_recording p"
  obtains m b where "core (rec_step msg p RecordClick) = core (p\<lparr>starts := starts p @ [(m, AwaitLanguages b)]\<rparr>)"
    "enabled (rec_step msg p RecordClick)"
proof -
  obtain c where c: "get_el p (js ''recorder-controls'') = Some c" using assms(1) by (auto simp: enabled_def)
  obtain b p1 where s: "syncTestLanguages_start p = (b, p1)" by (cases "syncTestLanguages_start p")
  have p1: "core p1 = core p" "enabled p1 = enabled p"
    using s core_starts(1) [of p] by (auto simp: syncTestLanguages_start_def split: if_splits)
  have e: "rec_step msg p RecordClick = p1\<lparr>starts := starts p1 @ [(maximum_seconds c, AwaitLanguages b)]\<rparr>"
    using assms s c by (auto simp: enabled_def record_click_def)
  have "core (rec_step msg p RecordClick) = core (p\<lparr>starts := starts p @ [(maximum_seconds c, AwaitLanguages b)]\<rparr>)"
    using p1(1) unfolding e by (simp add: core_def)
  moreover have "enabled (rec_step msg p RecordClick)"
    unfolding e using p1(2) assms(1) by (simp add: enabled_def get_el_def)
  ultimately show thesis by (rule that)
qed

lemma one_start_core:
  fixes p :: "'a rec_page_scheme" and now :: nat and msg :: "exn \<Rightarrow> jsstring"
  assumes "starts p = (m, AwaitLanguages b) # ss" "enabled p"
  defines "q \<equiv> foldl (rec_step msg) p (one_start 0 now)"
  shows "timers q = (timers p)(next_timer p \<mapsto> (RecordTick (next_recorder p), 250)) \<and>
    next_timer q = Suc (next_timer p) \<and> next_recorder q = Suc (next_recorder p) \<and>
    recorders q = (recorders p)(next_recorder p \<mapsto> \<lparr>rc_state = Recording, rc_live = True,
      rc_mime = js ''audio/mp4'', rc_max = m\<rparr>) \<and>
    recorder q = Some (next_recorder p) \<and> recordingTimer q = Some (next_timer p) \<and> starts q = ss \<and> enabled q"
proof -
  obtain b2 p1 where s: "syncTestCleanup_start p = (b2, p1)" by (cases "syncTestCleanup_start p")
  have p1: "core p1 = core p" "enabled p1"
    using s core_starts(2) [of p] assms(2) by (auto simp: syncTestCleanup_start_def split: if_splits)
  then have st: "starts p1 = (m, AwaitLanguages b) # ss" using assms(1) by (simp add: core_def)
  have mime: "pickMimeType (Some mp4) = Some (js ''audio/mp4'')" by (simp add: pickMimeType_def CANDIDATES_def mp4_def)
  let ?p2 = "p1\<lparr>starts := (m, AwaitCleanup b2) # ss\<rparr>"
  let ?p3 = "p1\<lparr>starts := (m, AwaitMedia (js ''audio/mp4'')) # ss\<rparr>"
  have "resume_start 0 (LanguagesDone (Inl NetworkError)) p = ?p2"
    using assms(1) s st by (simp add: resume_start_def syncTestLanguages_finish_def set_phase_def)
  moreover have "resume_start 0 (CleanupDone (Inl NetworkError) (Some mp4)) ?p2 = ?p3"
    by (simp add: resume_start_def syncTestCleanup_finish_def set_phase_def mime Let_def)
  moreover have "resume_start 0 (MediaDone True now) ?p3 =
      begin_recording (js ''audio/mp4'') m now (p1\<lparr>starts := ss\<rparr>)"
    by (simp add: resume_start_def drop_start_def)
  ultimately have q: "q = begin_recording (js ''audio/mp4'') m now (p1\<lparr>starts := ss\<rparr>)"
    by (simp add: q_def one_start_def)
  have "enabled (p1\<lparr>starts := ss\<rparr>)" using p1(2) by (simp add: enabled_def get_el_def)
  then have "enabled q"
    unfolding q by (simp only: enabled_begin)
  then show ?thesis
    using p1(1) by (simp add: q begin_recording_def Let_def start_timer_def)
      (simp add: core_def upd_el_def)
qed

text \<open>A recorder out of reach: it records, its interval runs, and neither variable holds them.\<close>

definition leaked :: "nat \<Rightarrow> nat \<Rightarrow> 'a rec_page_scheme \<Rightarrow> bool" where
  "leaked n h p \<longleftrightarrow> timers_ok p \<and> n < next_recorder p \<and>
     (\<exists>r. recorders p n = Some r \<and> rc_state r = Recording \<and> rc_live r) \<and>
     recorder p \<noteq> Some n \<and> timers p h = Some (RecordTick n, 250) \<and> recordingTimer p \<noteq> Some h"

lemma leaked_core: "core q = core p \<Longrightarrow> leaked n h q = leaked n h p"
  by (simp add: core_def leaked_def timers_ok_def)

lemma leaked_starts: "leaked n h (p\<lparr>starts := s\<rparr>) = leaked n h p"
  by (simp add: leaked_def timers_ok_def)

lemma leaked_phases [simp]:
  "leaked n h (set_phase k ph p) = leaked n h p" "leaked n h (drop_start k p) = leaked n h p"
  by (simp_all add: set_phase_def drop_start_def leaked_starts)

lemma leaked_stop: "leaked n h p \<Longrightarrow> leaked n h (stop_recorder p)"
  by (auto simp: leaked_def stop_recorder_def upd_rec_def timers_ok_def split: option.split)

lemma leaked_begin:
  assumes "leaked n h p"
  shows "leaked n h (begin_recording mime m now p)"
proof -
  have "core (begin_recording mime m now p) =
      ((timers p)(next_timer p \<mapsto> (RecordTick (next_recorder p), 250)), Suc (next_timer p),
       (recorders p)(next_recorder p \<mapsto> \<lparr>rc_state = Recording, rc_live = True, rc_mime = mime, rc_max = m\<rparr>),
       Suc (next_recorder p), Some (next_recorder p), Some (next_timer p), starts p, orphan_streams p)"
    by (simp add: begin_recording_def Let_def start_timer_def) (simp add: core_def upd_el_def)
  moreover have "h < next_timer p" using assms by (auto simp: leaked_def timers_ok_def)
  ultimately show ?thesis using assms by (auto simp: leaked_def timers_ok_def core_def less_SucI)
qed

lemma leaked_throws:
  "leaked n h p \<Longrightarrow> leaked n h (constructor_throws p)" "leaked n h p \<Longrightarrow> leaked n h (start_throws mime m p)"
  by (auto simp: leaked_def constructor_throws_def start_throws_def timers_ok_def Let_def)

lemma leaked_resume:
  assumes "leaked n h p"
  shows "leaked n h (resume_start k res p)"
proof -
  have l: "leaked n h (if b then syncTestLanguages_finish True r p else p)"
    "leaked n h (if b then syncTestCleanup_finish True r p else p)" for b r
    using assms leaked_core [of "syncTestLanguages_finish True r p" p] leaked_core [of "syncTestCleanup_finish True r p" p]
    by simp_all
  have e: "leaked n h (record_error m q) = leaked n h q" for m and q :: "'a rec_page_scheme"
    by (rule leaked_core) simp
  have c: "leaked n h (snd (syncTestCleanup_start q)) = leaked n h q" for q :: "'a rec_page_scheme"
    by (rule leaked_core) (rule core_starts)
  show ?thesis
    using assms l c e leaked_begin [of n h "drop_start k p"] leaked_throws [of n h "drop_start k p"]
    by (cases "length (starts p) \<le> k"; cases "snd (starts p ! k)"; cases res)
      (auto simp: resume_start_def Let_def case_prod_unfold split: option.split split del: if_split, simp)
qed

lemma leaked_stopped:
  assumes "leaked n h p"
  shows "leaked n h (recorder_stopped msg m chunk p)"
proof (cases "\<exists>r. recorders p m = Some r \<and> rc_state r = Stopping")
  case True
  then obtain r where r: "recorders p m = Some r" "rc_state r = Stopping" by blast
  define p1 where "p1 = upd_rec m (\<lambda>r. r\<lparr>rc_state := Inactive, rc_live := False\<rparr>) (stopRecordingTimer p)"
  have "core (upd_rec m g (stopRecordingTimer (x\<lparr>chunks := c\<rparr>))) = core (upd_rec m g (stopRecordingTimer x))"
    for x :: "'a rec_page_scheme" and c g
    by (simp add: core_def upd_rec_def stopRecordingTimer_def stop_timer_def split: option.split)
  then have "core (recorder_stopped msg m chunk p) = core p1"
    using r by (simp add: recorder_stopped_def Let_def p1_def)
  moreover have "leaked n h p1" using assms r
    by (auto simp: leaked_def p1_def upd_rec_def stopRecordingTimer_def stop_timer_def timers_ok_def split: option.split)
  ultimately show ?thesis using leaked_core by metis
next
  case False
  then have "recorder_stopped msg m chunk p = p" by (auto simp: recorder_stopped_def split: option.split)
  with assms show ?thesis by simp
qed

lemma leaked_click: "leaked n h p \<Longrightarrow> leaked n h (record_click p)"
  using leaked_core [OF core_starts(1)]
  by (auto simp: record_click_def leaked_stop leaked_starts case_prod_unfold split: option.split)

lemma leaked_step: "leaked n h p \<Longrightarrow> leaked n h (rec_step msg p e)"
proof (cases e)
  case (Tick i now)
  assume "leaked n h p"
  then have "leaked n h (updateRecordingTimer now p)"
    using leaked_core [of "updateRecordingTimer now p" p] by (simp add: updateRecordingTimer_def)
  with Tick \<open>leaked n h p\<close> show ?thesis
    by (auto simp: record_tick_def Let_def leaked_stop split: option.split callback.split)
next
  case (RunReply k outcome)
  then show "leaked n h p \<Longrightarrow> ?thesis" using leaked_core [of "run_replied msg k outcome p" p] by simp
qed (auto simp: leaked_click leaked_resume leaked_stopped split: option.split)

lemma leaked_run: "leaked n h p \<Longrightarrow> leaked n h (foldl (rec_step msg) p es)"
  by (induction es arbitrary: p) (simp_all add: leaked_step)

lemma enabled_start: "enabled rec_start"
  by (simp add: enabled_def js_eq_iff blank_def)

text \<open>C17.  Two clicks while the first activation still waits start two recorders, and the script
  forgets the first: no click, reply, tick or stop event of any later run stops it (short of the
  device itself ending the stream), its stream stays live and its interval keeps running until
  the page is closed.\<close>

theorem double_click_leaks_microphone:
  fixes t t2 :: nat and es :: "rec_event list" and msg :: "exn \<Rightarrow> jsstring"
  defines "q \<equiv> foldl (rec_step msg) rec_start
      ([RecordClick, RecordClick] @ one_start 0 t @ one_start 0 t2 @ es)"
  shows "(\<exists>r. recorders q 0 = Some r \<and> rc_state r = Recording \<and> rc_live r) \<and> recorder q \<noteq> Some 0 \<and>
    timers q 0 = Some (RecordTick 0, 250)"
proof -
  have idle: "\<not> is_recording rec_start" by (simp add: is_recording_def)
  obtain m b where 1: "core (rec_step msg rec_start RecordClick) = core (rec_start\<lparr>starts := [(m, AwaitLanguages b)]\<rparr>)"
    "enabled (rec_step msg rec_start RecordClick)"
    using click_start [OF enabled_start idle, of msg] by (metis append_Nil rec_start_simps(3))
  define p1 where "p1 = rec_step msg rec_start RecordClick"
  have f1: "recorder p1 = None" "starts p1 = [(m, AwaitLanguages b)]" "timers p1 = (\<lambda>_. None)"
    "next_timer p1 = 0" "next_recorder p1 = 0" "recorders p1 = (\<lambda>_. None)"
    using 1(1) unfolding p1_def [symmetric] by (simp_all add: core_def)
  then have "\<not> is_recording p1" by (simp add: is_recording_def)
  then obtain m' b' where 2: "core (rec_step msg p1 RecordClick) = core (p1\<lparr>starts := starts p1 @ [(m', AwaitLanguages b')]\<rparr>)"
    "enabled (rec_step msg p1 RecordClick)"
    using click_start [of p1 msg] 1(2) p1_def by metis
  define p2 where "p2 = rec_step msg p1 RecordClick"
  have f2: "starts p2 = [(m, AwaitLanguages b), (m', AwaitLanguages b')]" "timers p2 = (\<lambda>_. None)"
    "next_timer p2 = 0" "next_recorder p2 = 0" "recorders p2 = (\<lambda>_. None)" "enabled p2"
    using 2 f1 unfolding p2_def [symmetric] by (simp_all add: core_def)
  define p3 where "p3 = foldl (rec_step msg) p2 (one_start 0 t)"
  note f3 = one_start_core [OF f2(1,6), of msg t, folded p3_def, unfolded f2(2-5)]
  define p4 where "p4 = foldl (rec_step msg) p3 (one_start 0 t2)"
  have "starts p3 = (m', AwaitLanguages b') # []" "enabled p3" using f3 by simp_all
  note f4 = one_start_core [OF this, of msg t2, folded p4_def]
  have "leaked 0 0 p4" using f3 f4 by (auto simp: leaked_def timers_ok_def)
  then have "leaked 0 0 (foldl (rec_step msg) p4 es)" by (rule leaked_run)
  moreover have "q = foldl (rec_step msg) p4 es" by (simp add: q_def p4_def p3_def p2_def p1_def)
  ultimately show ?thesis by (auto simp: leaked_def)
qed

theorem one_microphone_witness:
  "\<exists>r. recorders (foldl (rec_step (\<lambda>_. [])) rec_start (RecordClick # one_start 0 7)) 0 = Some r \<and> rc_live r \<and>
     recorder (foldl (rec_step (\<lambda>_. [])) rec_start (RecordClick # one_start 0 7)) = Some 0"
proof -
  define q where "q = foldl (rec_step (\<lambda>_. [])) rec_start (RecordClick # one_start 0 7)"
  have "\<not> is_recording rec_start" by (simp add: is_recording_def)
  then obtain m b where c: "core (rec_step (\<lambda>_. []) rec_start RecordClick) =
      core (rec_start\<lparr>starts := starts rec_start @ [(m, AwaitLanguages b)]\<rparr>)"
    "enabled (rec_step (\<lambda>_. []) rec_start RecordClick)"
    by (rule click_start [OF enabled_start])
  define p where "p = rec_step (\<lambda>_. []) rec_start RecordClick"
  have p: "starts p = (m, AwaitLanguages b) # []" "enabled p" "recorders p = (\<lambda>_. None)" "next_recorder p = 0"
    using c unfolding p_def [symmetric] by (simp_all add: core_def)
  have run: "calm_run msg x y \<Longrightarrow> (\<And>e. e \<in> set es \<Longrightarrow> e \<noteq> RecordClick \<and> no_failure e) \<Longrightarrow>
      calm_run msg x (foldl (rec_step msg) y es)" for msg es and x y :: rec_page
    by (induction es arbitrary: y) (auto intro: calm_run.calm_step)
  have "calm_run (\<lambda>_. []) rec_start p"
    unfolding p_def by (intro calm_run.calm_step calm_run.calm_refl) (simp_all add: calm_def no_failure_def)
  then have "calm_run (\<lambda>_. []) rec_start (foldl (rec_step (\<lambda>_. [])) p (one_start 0 7))"
    by (rule run) (auto simp: one_start_def no_failure_def)
  then have "calm_run (\<lambda>_. []) rec_start q" by (simp add: q_def p_def)
  note one_microphone [OF this rec_inv_start]
  moreover have "\<exists>r. recorders q 0 = Some r \<and> rc_live r"
    using one_start_core [OF p(1,2), of "\<lambda>_. []" 7] p(3,4) by (simp add: q_def p_def)
  ultimately show ?thesis unfolding q_def by blast
qed

section \<open>A recorder that cannot start\<close>

text \<open>A stream without an owner: one that no recorder was built for, or that of a recorder that is
  not recording and has no \<open>stop\<close> event to come.\<close>

definition dead :: "nat \<Rightarrow> 'a rec_page_scheme \<Rightarrow> bool" where
  "dead n p \<longleftrightarrow> n < next_recorder p \<and> (\<exists>r. recorders p n = Some r \<and> rc_state r = Inactive \<and> rc_live r)"

lemma dead_core: "core q = core p \<Longrightarrow> dead n q = dead n p \<and> orphan_streams q = orphan_streams p"
  by (simp add: core_def dead_def)

text \<open>What the steps after a failure may do to such streams: nothing to end them.\<close>

definition outlives :: "'a rec_page_scheme \<Rightarrow> 'a rec_page_scheme \<Rightarrow> bool" where
  "outlives p q \<longleftrightarrow> (\<forall>n. dead n p \<longrightarrow> dead n q) \<and> orphan_streams p \<le> orphan_streams q"

lemma outlives_refl [simp]: "outlives p p"
  by (simp add: outlives_def)

lemma outlives_trans: "outlives p q \<Longrightarrow> outlives q r \<Longrightarrow> outlives p r"
  by (auto simp: outlives_def)

lemma outlives_core: "core q = core p \<Longrightarrow> outlives p q"
  using dead_core [of q p] by (simp add: outlives_def)

lemma outlives_starts: "outlives p (p\<lparr>starts := s\<rparr>)" "outlives p (set_phase k ph p)" "outlives p (drop_start k p)"
  by (simp_all add: outlives_def dead_def set_phase_def drop_start_def)

lemma outlives_stop: "outlives p (stop_recorder p)"
proof -
  have "recorders (stop_recorder p) n = Some r" if "recorders p n = Some r" "rc_state r = Inactive" for n r
    using that by (auto simp: stop_recorder_def upd_rec_def split: option.split)
  moreover have "next_recorder (stop_recorder p) = next_recorder p" "orphan_streams (stop_recorder p) = orphan_streams p"
    by (simp_all add: stop_recorder_def upd_rec_def split: option.split)
  ultimately show ?thesis by (fastforce simp: outlives_def dead_def)
qed

lemma outlives_throws: "outlives p (constructor_throws p)" "outlives p (start_throws mime m p)"
  by (auto simp: outlives_def dead_def constructor_throws_def start_throws_def Let_def)

lemma outlives_begin: "outlives p (begin_recording mime m now p)"
proof -
  have "recorders (begin_recording mime m now p) = (recorders p)(next_recorder p \<mapsto>
      \<lparr>rc_state = Recording, rc_live = True, rc_mime = mime, rc_max = m\<rparr>)"
    "next_recorder (begin_recording mime m now p) = Suc (next_recorder p)"
    "orphan_streams (begin_recording mime m now p) = orphan_streams p"
    by (simp_all add: begin_recording_def Let_def start_timer_def upd_el_def)
  then show ?thesis by (auto simp: outlives_def dead_def)
qed

lemma outlives_stopped: "outlives p (recorder_stopped msg m chunk p)"
proof (cases "\<exists>r. recorders p m = Some r \<and> rc_state r = Stopping")
  case True
  then obtain r where r: "recorders p m = Some r" "rc_state r = Stopping" by blast
  define p1 where "p1 = upd_rec m (\<lambda>r. r\<lparr>rc_state := Inactive, rc_live := False\<rparr>) (stopRecordingTimer p)"
  have "core (upd_rec m g (stopRecordingTimer (x\<lparr>chunks := c\<rparr>))) = core (upd_rec m g (stopRecordingTimer x))"
    for x :: "'a rec_page_scheme" and c g
    by (simp add: core_def upd_rec_def stopRecordingTimer_def stop_timer_def split: option.split)
  then have "core (recorder_stopped msg m chunk p) = core p1"
    using r by (simp add: recorder_stopped_def Let_def p1_def)
  moreover have "outlives p p1" using r
    by (auto simp: outlives_def dead_def p1_def upd_rec_def stopRecordingTimer_def stop_timer_def split: option.split)
  ultimately show ?thesis using outlives_core outlives_trans by blast
next
  case False
  then have "recorder_stopped msg m chunk p = p" by (auto simp: recorder_stopped_def split: option.split)
  then show ?thesis by simp
qed

lemma outlives_resume: "outlives p (resume_start k res p)"
proof -
  have l: "outlives p (set_phase k ph (snd (syncTestCleanup_start (if b then syncTestLanguages_finish True r p else p))))"
    for ph b r
    by (rule outlives_trans [OF outlives_core outlives_starts(2)]) (simp add: core_starts)
  have c: "outlives p (set_phase k ph (if b then syncTestCleanup_finish True r p else p))"
    "outlives p (drop_start k (record_error m (if b then syncTestCleanup_finish True r p else p)))" for ph b r m
    by (rule outlives_trans [OF outlives_core outlives_starts(2)], simp)
      (rule outlives_trans [OF outlives_core outlives_starts(3)], simp)
  have d: "outlives p (drop_start k (record_error m p))" for m
    by (rule outlives_trans [OF outlives_core outlives_starts(3)]) simp
  have b: "outlives p (begin_recording mime m now (drop_start k p))" "outlives p (constructor_throws (drop_start k p))"
    "outlives p (start_throws mime m (drop_start k p))" for mime m now
    by (rule outlives_trans [OF outlives_starts(3)], rule outlives_begin outlives_throws)+
  show ?thesis
    using l c d b
    by (cases "length (starts p) \<le> k"; cases "snd (starts p ! k)"; cases res)
      (simp_all add: resume_start_def Let_def case_prod_unfold split: option.split split del: if_split, simp)
qed

lemma outlives_step: "outlives p (rec_step msg p e)"
proof (cases e)
  case RecordClick
  have "outlives p ((snd (syncTestLanguages_start p))\<lparr>starts := s\<rparr>)" for s
    by (rule outlives_trans [OF outlives_core outlives_starts(1)]) (rule core_starts)
  with RecordClick show ?thesis
    by (auto simp: record_click_def outlives_stop case_prod_unfold split: option.split)
next
  case (Tick i now)
  have "outlives p (updateRecordingTimer now p)" by (rule outlives_core) (simp add: updateRecordingTimer_def)
  with Tick show ?thesis using outlives_trans [OF _ outlives_stop]
    by (auto simp: record_tick_def Let_def split: option.split callback.split)
next
  case (RunReply k outcome)
  have "outlives p (run_replied msg k outcome p)" by (rule outlives_core) simp
  with RunReply show ?thesis by simp
qed (simp_all add: outlives_resume outlives_stopped)

lemma outlives_run: "outlives p (foldl (rec_step msg) p es)"
proof (induction es arbitrary: p)
  case (Cons e es)
  show ?case using outlives_trans [OF outlives_step Cons.IH] by simp
qed simp

text \<open>C38.  If the recorder cannot be built or started once the microphone was granted, the operator is
  not told and the microphone stays on: the page shows what it showed before, no interval is
  started, and no later click, reply, tick or stop event ends the stream.\<close>

theorem failed_start_keeps_microphone:
  fixes p :: "'a rec_page_scheme" and es :: "rec_event list" and msg :: "exn \<Rightarrow> jsstring"
  assumes "k < length (starts p)" "snd (starts p ! k) = AwaitMedia mime"
  defines "c \<equiv> rec_step msg p (Resume k ConstructorThrows)" and "s \<equiv> rec_step msg p (Resume k StartThrows)"
  shows "(els c = els p \<and> timers c = timers p) \<and> (els s = els p \<and> timers s = timers p) \<and>
    orphan_streams p < orphan_streams (foldl (rec_step msg) c es) \<and>
    (\<exists>r. recorders (foldl (rec_step msg) s es) (next_recorder p) = Some r \<and> rc_live r \<and> rc_state r = Inactive)"
proof -
  have c: "c = constructor_throws (drop_start k p)" and s: "s = start_throws mime (fst (starts p ! k)) (drop_start k p)"
    using assms(1,2) by (simp_all add: c_def s_def resume_start_def)
  have "orphan_streams p < orphan_streams c" by (simp add: c constructor_throws_def drop_start_def)
  moreover have "orphan_streams c \<le> orphan_streams (foldl (rec_step msg) c es)"
    using outlives_run [of c msg es] by (simp add: outlives_def)
  moreover have "dead (next_recorder p) s" by (simp add: dead_def s start_throws_def drop_start_def Let_def)
  then have "dead (next_recorder p) (foldl (rec_step msg) s es)"
    using outlives_run [of s msg es] by (simp add: outlives_def)
  ultimately show ?thesis
    by (auto simp: dead_def c s constructor_throws_def start_throws_def drop_start_def Let_def)
qed

definition waiting_start :: rec_page where
  "waiting_start = rec_start\<lparr>starts := [(Fin 300, AwaitMedia (js ''audio/mp4''))]\<rparr>"

theorem failed_start_keeps_microphone_witness:
  "0 < orphan_streams (foldl (rec_step (\<lambda>_. [])) waiting_start [Resume 0 ConstructorThrows, RecordClick])"
  using failed_start_keeps_microphone [of 0 waiting_start "js ''audio/mp4''" "\<lambda>_. []" "[RecordClick]"]
  by (simp add: waiting_start_def)

end
