(* ===== verification/Benchmark.thy ===== *)
theory Benchmark
  imports Recorder
begin

text \<open>
  What the benchmark of the test panel promises (the loop and the figures of \<open>onstop\<close> in
  \<open>app/webui/app.js\<close>, modelled in \<open>Recorder\<close>): it ends whatever the replies are, it uploads the
  recording as often as was asked, and the averages leave out the first run.
\<close>

section \<open>What painting leaves alone\<close>

lemma get_el_paint_tiles: "i \<notin> fst ` set ts \<Longrightarrow> get_el (fst (paint_tiles ts p)) i = get_el p i"
  by (induction ts p rule: paint_tiles.induct) (auto split: sum.split)

lemma get_el_set_kids [simp]: "get_el (set_kids i ps p) j = get_el p j"
  by (simp add: set_kids_def get_el_def)

lemma get_el_render:
  "i \<notin> {js ''test-original-block'', js ''test-cleanup-status''} \<Longrightarrow>
     get_el (fst (renderCleanupComparison payload p)) i = get_el p i"
  by (auto simp: renderCleanupComparison_def show_outcome_def Let_def split: prod.split sum.split)

text \<open>Painting changes the page by the transcript, the comparison and the tiles, each up to the first
  exception: what all three keep, it keeps.\<close>

lemma paint_benchmark_keeps:
  fixes g :: "'a view_page_scheme \<Rightarrow> 'b"
  assumes "\<And>i ks q. g (set_kids i ks q) = g q" "\<And>v q. g (fst (renderCleanupComparison v q)) = g q"
    and "\<And>q. g (fst (paint_tiles ((js ''test-meta'', Inr (meta_text (bm_runs bm) (last (bm_payloads bm)))) #
      tiles (bm_payloads bm)) q)) = g q"
  shows "g (fst (paint_benchmark bm p)) = g p"
proof -
  obtain q x where r: "renderCleanupComparison (last (bm_payloads bm)) (set_kids (js ''test-transcript'')
      (plain (content_of (own (last (bm_payloads bm)) (js ''transcript'')))) p) = (q, x)"
    by fastforce
  then have "g q = g p" using assms(1,2) by (metis fst_conv)
  then show ?thesis
    using assms(3) r by (simp add: paint_benchmark_def Let_def split: option.split del: paint_tiles.simps)
qed

definition controls :: "jsstring set" where
  "controls = {js ''record-toggle'', js ''record-status'', js ''test-error'', js ''test-result''}"

lemma get_el_paint_benchmark:
  assumes "i \<in> controls"
  shows "get_el (fst (paint_benchmark bm p)) i = get_el p i"
proof -
  have "i \<notin> {js ''test-original-block'', js ''test-cleanup-status''}"
    "\<And>m ts. i \<notin> fst ` set ((js ''test-meta'', m) # tiles ts)"
    using assms by (auto simp: controls_def tiles_def Let_def js_eq_iff)
  then show ?thesis
    by (intro paint_benchmark_keeps [where g = "\<lambda>q. get_el q i"]) (simp_all add: get_el_render get_el_paint_tiles del: paint_tiles.simps)
qed

lemma benchmarks_paint_tiles: "benchmarks (fst (paint_tiles ts p)) = benchmarks p"
  by (induction ts p rule: paint_tiles.induct) (auto simp: upd_el_def split: sum.split)

lemma benchmarks_upd_el [simp]: "benchmarks (upd_el i f p) = benchmarks p"
  by (simp add: upd_el_def)

lemma benchmarks_render: "benchmarks (fst (renderCleanupComparison payload p)) = benchmarks p"
  by (auto simp: renderCleanupComparison_def show_outcome_def Let_def set_kids_def split: prod.split sum.split)

lemma benchmarks_done: "benchmarks (benchmark_done msg bm p) = benchmarks p"
proof -
  have "benchmarks (fst (paint_benchmark bm p)) = benchmarks p"
    by (intro paint_benchmark_keeps) (simp_all add: benchmarks_paint_tiles benchmarks_render set_kids_def
        del: paint_tiles.simps)
  then show ?thesis
    by (auto simp: benchmark_done_def benchmark_failed_def record_error_def split: prod.split option.split)
qed

lemma sent_paint_tiles: "sent (fst (paint_tiles ts p)) = sent p"
  by (induction ts p rule: paint_tiles.induct) (auto split: sum.split)

lemma sent_render: "sent (fst (renderCleanupComparison payload p)) = sent p"
  by (auto simp: renderCleanupComparison_def show_outcome_def Let_def set_kids_def split: prod.split sum.split)

lemma sent_done: "sent (benchmark_done msg bm p) = sent p"
proof -
  have "sent (fst (paint_benchmark bm p)) = sent p"
    by (intro paint_benchmark_keeps) (simp_all add: sent_paint_tiles sent_render set_kids_def del: paint_tiles.simps)
  then show ?thesis
    by (auto simp: benchmark_done_def benchmark_failed_def record_error_def split: prod.split option.split)
qed

section \<open>The end of a benchmark\<close>

text \<open>The panel once a benchmark is over: the button works, the status line is empty, and exactly one of
  the figures and the error is shown.\<close>

definition over :: "bool \<Rightarrow> 'a page_scheme \<Rightarrow> bool" where
  "over good p \<longleftrightarrow> map_option el_disabled (get_el p (js ''record-toggle'')) = Some False \<and>
     map_option el_text (get_el p (js ''record-status'')) = Some [] \<and>
     is_shown p (js ''test-result'') = good \<and> is_shown p (js ''test-error'') = (\<not> good)"

definition panel_ready :: "'a page_scheme \<Rightarrow> bool" where
  "panel_ready p \<longleftrightarrow> (\<forall>i \<in> controls. get_el p i \<noteq> None) \<and> \<not> is_shown p (js ''test-result'')"

lemma panel_ready_els:
  "(\<And>i. i \<in> controls \<Longrightarrow> get_el q i = get_el p i) \<Longrightarrow> panel_ready q = panel_ready p"
  by (auto simp: panel_ready_def controls_def is_shown_def)

lemma failed_over:
  assumes "panel_ready p"
  shows "over False (benchmark_failed m p)"
proof -
  obtain a b c d where "get_el p (js ''record-toggle'') = Some a" "get_el p (js ''record-status'') = Some b"
    "get_el p (js ''test-error'') = Some c" "get_el p (js ''test-result'') = Some d"
    using assms by (fastforce simp: panel_ready_def controls_def)
  with assms show ?thesis
    by (simp add: over_def panel_ready_def benchmark_failed_def record_error_def is_shown_def js_eq_iff
        set_disabled_def set_text_def class_remove_def has_class_def)
qed

lemma succeeded_over:
  assumes "panel_ready p"
  shows "over True (upd_el (js ''record-toggle'') (set_disabled False) (upd_el (js ''record-status'') (set_text [])
    (upd_el (js ''test-error'') (class_add (js ''hidden'')) (upd_el (js ''test-result'') (class_remove (js ''hidden'')) p))))"
proof -
  obtain a b c d where "get_el p (js ''record-toggle'') = Some a" "get_el p (js ''record-status'') = Some b"
    "get_el p (js ''test-error'') = Some c" "get_el p (js ''test-result'') = Some d"
    using assms by (fastforce simp: panel_ready_def controls_def)
  then show ?thesis
    by (simp add: over_def is_shown_def js_eq_iff set_disabled_def set_text_def class_remove_def
        class_add_def has_class_def)
qed

lemma done_over: "panel_ready p \<Longrightarrow> over (snd (paint_benchmark bm p) = None) (benchmark_done msg bm p)"
proof -
  assume "panel_ready p"
  then have "panel_ready (fst (paint_benchmark bm p))"
    using panel_ready_els [of "fst (paint_benchmark bm p)" p] get_el_paint_benchmark by blast
  then show ?thesis
    by (auto simp: benchmark_done_def failed_over succeeded_over split: prod.split option.split)
qed

text \<open>C30.  A benchmark never gets stuck: whatever the reply to an upload is (a network failure, an
  error status, a body that is no JSON, figures that are missing), either the next run is
  uploaded at once and the benchmark goes on, or it is over, the button works again, the status
  line is empty and exactly one of the figures and the error is shown, the error for every
  failure.\<close>

theorem benchmark_recovers:
  fixes p :: "'a rec_page_scheme" and msg :: "exn \<Rightarrow> jsstring" and outcome :: "reply result"
  assumes "k < length (benchmarks p)" "panel_ready p"
  defines "q \<equiv> run_replied msg k outcome p"
  shows "(\<exists>r bm. outcome = Inr r \<and> rp_ok r \<and> length (benchmarks q) = length (benchmarks p) \<and>
      sent q = sent p @ [upload_request bm p] \<and> last (benchmarks q) = bm \<and> bm_run bm = Suc (bm_run (benchmarks p ! k))) \<or>
    length (benchmarks q) = length (benchmarks p) - 1 \<and>
      (\<exists>good. over good q \<and> (good \<longrightarrow> (\<exists>r. outcome = Inr r \<and> rp_ok r)))"
proof -
  define p1 where "p1 = p\<lparr>benchmarks := take k (benchmarks p) @ drop (Suc k) (benchmarks p)\<rparr>"
  have p1: "panel_ready p1" "length (benchmarks p1) = length (benchmarks p) - 1" "sent p1 = sent p"
    using assms(1,2) panel_ready_els [of p1 p] by (simp_all add: p1_def get_el_def)
  have fail: "over False (benchmark_failed m p1)" "benchmarks (benchmark_failed m p1) = benchmarks p1" for m
    using p1(1) by (simp_all add: failed_over) (simp add: benchmark_failed_def record_error_def upd_el_def)
  show ?thesis
  proof (cases "\<exists>r payload. outcome = Inr r \<and> rp_json r = Inr payload \<and> rp_ok r")
    case False
    then have "\<exists>m. q = benchmark_failed m p1"
      using assms(1) by (auto simp: q_def run_replied_def p1_def Let_def split: sum.split)
    with fail p1(2) show ?thesis by metis
  next
    case True
    then obtain r payload where r: "outcome = Inr r" "rp_json r = Inr payload" "rp_ok r" by blast
    define bm where "bm = benchmarks p ! k"
    define bm' where "bm' = bm\<lparr>bm_run := Suc (bm_run bm), bm_payloads := bm_payloads bm @ [payload]\<rparr>"
    have q: "q = next_run msg bm' p1"
      using assms(1) r by (simp add: q_def run_replied_def p1_def Let_def bm'_def bm_def)
    show ?thesis
    proof (cases "more_runs (bm_run bm') (bm_runs bm')")
      case True
      define p2 where "p2 = upd_el (js ''record-status'') (set_text (run_status (bm_run bm') (bm_runs bm'))) p1"
      have "upload_request bm' p2 = upload_request bm' p"
        by (simp add: upload_request_def bearer_def getToken_def p2_def p1_def get_item_def)
      moreover have "q = send (upload_request bm' p2) (p2\<lparr>benchmarks := benchmarks p1 @ [bm']\<rparr>)"
        using True by (simp add: q next_run_def Let_def p2_def upd_el_def)
      ultimately have "sent q = sent p @ [upload_request bm' p]" "benchmarks q = benchmarks p1 @ [bm']"
        by (simp_all add: p2_def p1(3)) (simp add: send_def)
      moreover have "bm_run bm' = Suc (bm_run (benchmarks p ! k))" by (simp add: bm'_def bm_def)
      ultimately show ?thesis using r assms(1) p1(2) by auto
    next
      case False
      then have "q = benchmark_done msg bm' p1" by (simp add: q next_run_def)
      moreover have "benchmarks (benchmark_done msg bm' p1) = benchmarks p1"
        by (rule benchmarks_done)
      ultimately show ?thesis using done_over [OF p1(1)] r p1(2) by metis
    qed
  qed
qed

section \<open>The number of uploads\<close>

text \<open>A benchmark of \<open>n\<close> runs that is at run \<open>j\<close>, everything else as at its start.\<close>

definition at_run :: "benchmark \<Rightarrow> nat \<Rightarrow> request list \<Rightarrow> 'a rec_page_scheme \<Rightarrow> 'a rec_page_scheme \<Rightarrow> bool" where
  "at_run bm j out p q \<longleftrightarrow> store q = store p \<and>
     (\<exists>ps. benchmarks q = [bm\<lparr>bm_run := j, bm_payloads := ps\<rparr>]) \<and>
     sent q = out @ replicate (Suc j) (upload_request bm p)"

lemma upload_request_cong:
  "store q = store p \<Longrightarrow> upload_request (bm\<lparr>bm_run := j, bm_payloads := ps\<rparr>) q = upload_request bm p"
  by (simp add: upload_request_def bearer_def getToken_def get_item_def)

lemma next_run_at:
  assumes "more_runs j (bm_runs bm)" "benchmarks p1 = []" "store p1 = store p"
    "sent p1 = out @ replicate j (upload_request bm p)"
  shows "at_run bm j out p (next_run msg (bm\<lparr>bm_run := j, bm_payloads := ps\<rparr>) p1)"
proof -
  let ?bm = "bm\<lparr>bm_run := j, bm_payloads := ps\<rparr>"
  let ?p2 = "upd_el (js ''record-status'') (set_text (run_status j (bm_runs bm))) p1"
  have n: "next_run msg ?bm p1 = send (upload_request ?bm ?p2) (?p2\<lparr>benchmarks := [?bm]\<rparr>)"
    using assms(1,2) by (simp add: next_run_def Let_def)
  have "upload_request ?bm ?p2 = upload_request bm p"
    by (rule upload_request_cong) (simp add: assms(3))
  then show ?thesis
    unfolding n at_run_def by (auto simp: assms(3,4) send_def upd_el_def replicate_append_same)
qed

definition ok_reply :: "reply \<Rightarrow> bool" where
  "ok_reply r \<longleftrightarrow> rp_ok r \<and> (\<exists>payload. rp_json r = Inr payload)"

lemma reply_at:
  assumes "at_run bm j out p q" "ok_reply r" "more_runs (Suc j) (bm_runs bm)"
  shows "at_run bm (Suc j) out p (run_replied msg 0 (Inr r) q)"
proof -
  obtain payload where r: "rp_ok r" "rp_json r = Inr payload" using assms(2) by (auto simp: ok_reply_def)
  obtain ps where q: "store q = store p" "benchmarks q = [bm\<lparr>bm_run := j, bm_payloads := ps\<rparr>]"
    "sent q = out @ replicate (Suc j) (upload_request bm p)" using assms(1) by (auto simp: at_run_def)
  have "run_replied msg 0 (Inr r) q =
      next_run msg (bm\<lparr>bm_run := Suc j, bm_payloads := ps @ [payload]\<rparr>) (q\<lparr>benchmarks := []\<rparr>)"
    using r q(2) by (simp add: run_replied_def Let_def)
  moreover have "at_run bm (Suc j) out p
      (next_run msg (bm\<lparr>bm_run := Suc j, bm_payloads := ps @ [payload]\<rparr>) (q\<lparr>benchmarks := []\<rparr>))"
    using q by (intro next_run_at [OF assms(3)]) simp_all
  ultimately show ?thesis by simp
qed

lemma last_reply:
  assumes "at_run bm j out p q" "ok_reply r" "\<not> more_runs (Suc j) (bm_runs bm)"
  shows "benchmarks (run_replied msg 0 (Inr r) q) = [] \<and> sent (run_replied msg 0 (Inr r) q) = sent q"
proof -
  obtain payload where r: "rp_ok r" "rp_json r = Inr payload" using assms(2) by (auto simp: ok_reply_def)
  obtain ps where q: "benchmarks q = [bm\<lparr>bm_run := j, bm_payloads := ps\<rparr>]"
    using assms(1) by (auto simp: at_run_def)
  have "run_replied msg 0 (Inr r) q =
      benchmark_done msg (bm\<lparr>bm_run := Suc j, bm_payloads := ps @ [payload]\<rparr>) (q\<lparr>benchmarks := []\<rparr>)"
    using r q assms(3) by (simp add: run_replied_def next_run_def Let_def)
  then show ?thesis by (simp add: benchmarks_done sent_done)
qed

text \<open>The stop event starts the first run with the values the controls have now.\<close>

lemma stopped_next_run:
  fixes p :: "'a rec_page_scheme"
  assumes "recorders p k = Some r" "rc_state r = Stopping"
    and "\<forall>i \<in> {js ''test-language'', js ''test-cleanup'', js ''test-runs''}. get_el p i \<noteq> None"
  shows "\<exists>p5. recorder_stopped msg k chunk p = next_run msg
      \<lparr>bm_run = 0, bm_runs = num_or (to_number (field_value p ''test-runs'')) (Fin 1),
       bm_language = field_value p ''test-language'', bm_mode = field_value p ''test-cleanup'',
       bm_type = takeWhile (\<lambda>c. c \<noteq> 59) (rc_mime r), bm_blob = chunks p @ [chunk], bm_payloads = []\<rparr> p5 \<and>
    store p5 = store p \<and> sent p5 = sent p \<and> benchmarks p5 = benchmarks p"
proof -
  define p2 where "p2 = upd_rec k (\<lambda>r. r\<lparr>rc_state := Inactive, rc_live := False\<rparr>)
    (stopRecordingTimer (p\<lparr>chunks := chunks p @ [chunk]\<rparr>))"
  have p2: "store p2 = store p" "sent p2 = sent p" "benchmarks p2 = benchmarks p" "chunks p2 = chunks p @ [chunk]"
    "get_el p2 i = get_el p i" for i
    by (simp_all add: p2_def upd_rec_def stopRecordingTimer_def stop_timer_def get_el_def split: option.split)
  define p5 where "p5 = upd_el (js ''record-status'') (set_text (js ''Transcribing...''))
    (upd_el (js ''record-timer'') (class_add (js ''hidden''))
      (upd_el (js ''record-toggle'')
        (\<lambda>e. set_disabled True (class_remove (js ''recording'') (set_text (js ''Start recording'') e))) p2))"
  have ch: "chunks (upd_el i f q) = chunks q" for i f and q :: "'a rec_page_scheme" by (simp add: upd_el_def)
  have p5: "store p5 = store p" "sent p5 = sent p" "benchmarks p5 = benchmarks p" "chunks p5 = chunks p @ [chunk]"
    "get_el p5 (js ''test-language'') = get_el p (js ''test-language'')"
    "get_el p5 (js ''test-cleanup'') = get_el p (js ''test-cleanup'')"
    "get_el p5 (js ''test-runs'') = get_el p (js ''test-runs'')"
    by (simp_all add: p5_def p2 ch js_eq_iff)
  then have fv: "field_value p5 ''test-language'' = field_value p ''test-language''"
    "field_value p5 ''test-cleanup'' = field_value p ''test-cleanup''"
    "field_value p5 ''test-runs'' = field_value p ''test-runs''"
    by (simp_all add: field_value_def)
  have present: "get_el p5 (js ''test-language'') \<noteq> None" "get_el p5 (js ''test-cleanup'') \<noteq> None"
    "get_el p5 (js ''test-runs'') \<noteq> None"
    unfolding p5(5-7) using assms(3) by blast+
  have "recorder_stopped msg k chunk p = (if get_el p5 (js ''test-language'') = None \<or>
      get_el p5 (js ''test-cleanup'') = None \<or> get_el p5 (js ''test-runs'') = None
    then benchmark_failed (message_of msg TypeError) p5
    else next_run msg \<lparr>bm_run = 0, bm_runs = num_or (to_number (field_value p5 ''test-runs'')) (Fin 1),
       bm_language = field_value p5 ''test-language'', bm_mode = field_value p5 ''test-cleanup'',
       bm_type = takeWhile (\<lambda>c. c \<noteq> 59) (rc_mime r), bm_blob = chunks p5, bm_payloads = []\<rparr> p5)"
    unfolding recorder_stopped_def Let_def p5_def p2_def
    by (simp only: assms(1,2) option.case if_False simp_thms)
  also have "... = next_run msg
      \<lparr>bm_run = 0, bm_runs = num_or (to_number (field_value p ''test-runs'')) (Fin 1),
       bm_language = field_value p ''test-language'', bm_mode = field_value p ''test-cleanup'',
       bm_type = takeWhile (\<lambda>c. c \<noteq> 59) (rc_mime r), bm_blob = chunks p @ [chunk], bm_payloads = []\<rparr> p5"
    by (simp only: fv p5(4) present if_False simp_thms)
  finally show ?thesis using p5(1-3) by (intro exI conjI)
qed

text \<open>C31.  If no other benchmark is in progress and every upload succeeds, a benchmark of \<open>n\<close> runs ends
  after exactly \<open>n\<close> uploads: the recording is uploaded once when the recorder has stopped, once more
  after each reply before the last, always as the same request, and with the last reply the
  benchmark is over.  (A failure ends it early, C30.)\<close>

theorem benchmark_uploads:
  fixes p :: "'a rec_page_scheme" and n k chunk :: nat and rs :: "reply list" and msg :: "exn \<Rightarrow> jsstring"
  assumes "recorders p k = Some r" "rc_state r = Stopping" "benchmarks p = []"
    and "\<forall>i \<in> {js ''test-language'', js ''test-cleanup'', js ''test-runs''}. get_el p i \<noteq> None"
    and "to_number (field_value p ''test-runs'') = Fin (of_nat n)" "0 < n"
    and "length rs = n" "\<forall>x \<in> set rs. ok_reply x"
  defines "run \<equiv> \<lambda>j. foldl (rec_step msg) p (Stopped k chunk # map (\<lambda>x. RunReply 0 (Inr x)) (take j rs))"
    and "req \<equiv> Upload (js ''POST'') (js ''/v1/admin/test-transcription?language='' @ field_value p ''test-language''
        @ js ''&cleanup_mode='' @ field_value p ''test-cleanup'')
      [(js ''Authorization'', bearer p), (js ''Content-Type'', takeWhile (\<lambda>c. c \<noteq> 59) (rc_mime r))]
      (chunks p @ [chunk])"
  shows "(\<forall>j < n. sent (run j) = sent p @ replicate (Suc j) req \<and> length (benchmarks (run j)) = 1) \<and>
    sent (run n) = sent p @ replicate n req \<and> benchmarks (run n) = []"
proof -
  define bm where "bm = \<lparr>bm_run = 0, bm_runs = Fin (of_nat n), bm_language = field_value p ''test-language'',
    bm_mode = field_value p ''test-cleanup'', bm_type = takeWhile (\<lambda>c. c \<noteq> 59) (rc_mime r),
    bm_blob = chunks p @ [chunk], bm_payloads = []\<rparr>"
  have more: "more_runs j (bm_runs bm) = (j < n)" for j by (simp add: bm_def more_runs_def)
  have req: "upload_request bm p = req" by (simp add: bm_def req_def upload_request_def)
  have start: "at_run bm 0 (sent p) p (recorder_stopped msg k chunk p)"
  proof -
    obtain p5 where "recorder_stopped msg k chunk p = next_run msg bm p5" "store p5 = store p" "sent p5 = sent p"
      "benchmarks p5 = []"
      using stopped_next_run [OF assms(1,2,4), of msg chunk] assms(3,5,6) by (auto simp: bm_def num_or_def)
    then show ?thesis
      using next_run_at [of 0 bm p5 p "sent p" msg "[]"] more assms(6) by (simp add: bm_def)
  qed
  have run: "at_run bm j (sent p) p (run j)" if "j < n" for j
    using that
  proof (induction j)
    case (Suc j)
    then have "at_run bm (Suc j) (sent p) p (run_replied msg 0 (Inr (rs ! j)) (run j))"
      using assms(7,8) more by (intro reply_at) auto
    then show ?case using Suc.prems assms(7) by (simp add: run_def take_Suc_conv_app_nth)
  qed (simp add: run_def start)
  obtain m where n: "n = Suc m" using assms(6) by (cases n) auto
  have "run n = run_replied msg 0 (Inr (rs ! m)) (run m)"
  proof -
    have "take n rs = take m rs @ [rs ! m]"
      unfolding n using assms(7) n by (intro take_Suc_conv_app_nth) simp
    then show ?thesis unfolding run_def by simp
  qed
  moreover have "at_run bm m (sent p) p (run m)" using run n by simp
  moreover have "ok_reply (rs ! m)" "\<not> more_runs (Suc m) (bm_runs bm)" using assms(7,8) more n by auto
  ultimately have "benchmarks (run n) = [] \<and> sent (run n) = sent (run m)" using last_reply by metis
  moreover have "length (benchmarks (run j)) = 1 \<and> sent (run j) = sent p @ replicate (Suc j) req" if "j < n" for j
    using run [OF that] by (auto simp: at_run_def req)
  ultimately show ?thesis using n by simp
qed

section \<open>Averages\<close>

lemma sum_field:
  assumes "\<forall>x \<in> set xs. or_zero x f = Num (Fin (of_nat (d x)))" "a + sum_list (map d xs) \<le> 2 ^ 53"
  shows "foldl (\<lambda>sum x. js_add sum (or_zero x f)) (Num (Fin (of_nat a))) xs =
    Num (Fin (of_nat (a + sum_list (map d xs))))"
  using assms
proof (induction xs arbitrary: a)
  case (Cons x xs)
  have "js_add (Num (Fin (of_nat a))) (or_zero x f) = Num (to_num (of_nat (a + d x)))"
    using Cons.prems(1) by (simp add: js_add_def)
  also have "... = Num (Fin (of_nat (a + d x)))" using Cons.prems(2) to_num_of_nat [of "a + d x"] by (simp del: of_nat_add)
  finally show ?case using Cons.IH [of "a + d x"] Cons.prems by (simp add: add.assoc)
qed simp

lemma sum_list_bounds:
  "(\<And>x. x \<in> set xs \<Longrightarrow> lo \<le> d x \<and> d x \<le> hi) \<Longrightarrow>
     length xs * lo \<le> sum_list (map d xs) \<and> sum_list (map d xs) \<le> length xs * hi" for d :: "'a \<Rightarrow> nat"
  by (induction xs) (force simp: add_mono)+

text \<open>C32.  The warm average of several runs leaves the first run out and is a mean of the others: for
  figures in whole milliseconds (with a sum below 2 to the 53) it is their sum, which
  the additions of the code compute exactly, divided by their number, rounded once; so it lies
  between the least and the greatest of them.\<close>

theorem average_warm_runs:
  fixes d :: "jsval \<Rightarrow> nat" and rest :: "jsval list"
  assumes "rest \<noteq> []" "\<forall>x \<in> set rest. \<not> nullish x \<and> or_zero x f = Num (Fin (of_nat (d x)))"
    and "sum_list (map d rest) \<le> 2 ^ 53" "\<forall>x \<in> set rest. lo \<le> d x \<and> d x \<le> hi" "hi \<le> 2 ^ 53"
  shows "\<exists>v. average f (measured (first # rest)) = Inr (Fin v) \<and>
    avg_ms f (first # rest) = Inr (formatMs (Fin v)) \<and>
    v = rnd (of_nat (sum_list (map d rest)) / of_nat (length rest)) \<and> of_nat lo \<le> v \<and> v \<le> of_nat hi"
proof -
  let ?s = "sum_list (map d rest)" and ?n = "length rest"
  let ?v = "rnd (of_nat ?s / of_nat ?n)"
  have n: "(0 :: rat) < of_nat ?n" using assms(1) by simp
  have m: "measured (first # rest) = rest" using assms(1) by (simp add: measured_def)
  have "?n * lo \<le> ?s \<and> ?s \<le> ?n * hi" using sum_list_bounds [of rest lo d hi] assms(4) by blast
  then have "(of_nat (?n * lo) :: rat) \<le> of_nat ?s" "(of_nat ?s :: rat) \<le> of_nat (?n * hi)"
    by (simp_all only: of_nat_le_iff)
  then have q: "of_nat lo \<le> of_nat ?s / (of_nat ?n :: rat)" "of_nat ?s / (of_nat ?n :: rat) \<le> of_nat hi"
    using n by (simp_all add: pos_le_divide_eq pos_divide_le_eq mult.commute)
  moreover note q
  moreover have "lo \<le> 2 ^ 53" using assms(1,4,5) by (cases rest) auto
  ultimately have v: "of_nat lo \<le> ?v" "?v \<le> of_nat hi" using rnd_ge_of_nat rnd_le_of_nat assms(5) by blast+
  have "to_num (of_nat ?s / of_nat ?n) = Fin ?v"
    using q assms(5) by (intro to_num_small [of _ hi]) (simp_all add: divide_nonneg_nonneg)
  then have a: "average f rest = Inr (Fin ?v)"
    using sum_field [of rest f d 0] assms(2,3) by (auto simp: average_def)
  with m v show ?thesis by (simp add: avg_ms_def)
qed

section \<open>Examples\<close>

definition one_benchmark :: rec_page where
  "one_benchmark = upd_el (js ''test-result'') (class_add (js ''hidden''))
     (rec_start\<lparr>benchmarks := [\<lparr>bm_run = 0, bm_runs = Fin 1, bm_language = js ''en'', bm_mode = js ''off'',
        bm_type = js ''audio/mp4'', bm_blob = [0], bm_payloads = []\<rparr>]\<rparr>)"

theorem benchmark_recovers_witness:
  "over False (run_replied (\<lambda>_. []) 0 (Inl NetworkError) one_benchmark)"
proof -
  have g: "get_el (rec_start\<lparr>benchmarks := b\<rparr>) i = get_el rec_start i" for b i by (simp add: get_el_def)
  have "benchmarks one_benchmark \<noteq> []" by (simp add: one_benchmark_def)
  moreover have "panel_ready one_benchmark"
    by (simp add: panel_ready_def one_benchmark_def controls_def is_shown_def g el.look_change class_add_def has_class_def js_eq_iff)
  ultimately show ?thesis
    using benchmark_recovers [of 0 one_benchmark "Inl NetworkError" "\<lambda>_. []"] by auto
qed

definition two_runs :: rec_page where
  "two_runs = upd_el (js ''test-runs'') (set_value (js_nat 2))
     (rec_start\<lparr>recorders := [0 \<mapsto> \<lparr>rc_state = Stopping, rc_live = True, rc_mime = js ''audio/mp4'', rc_max = Fin 300\<rparr>]\<rparr>)"

definition good_reply :: reply where
  "good_reply = \<lparr>rp_status = 200, rp_json = Inr (Obj [(js ''duration_ms'', Num (Fin 1200))])\<rparr>"

theorem benchmark_uploads_witness:
  "length (sent (foldl (rec_step (\<lambda>_. [])) two_runs
     [Stopped 0 5, RunReply 0 (Inr good_reply), RunReply 0 (Inr good_reply)])) = length (sent two_runs) + 2"
proof -
  have g: "get_el (rec_start\<lparr>recorders := b\<rparr>) i = get_el rec_start i" for b i by (simp add: get_el_def)
  have "field_value two_runs ''test-runs'' = js_nat 2"
    by (simp add: field_value_def two_runs_def g set_value_def js_eq_iff)
  then have r: "to_number (field_value two_runs ''test-runs'') = Fin (of_nat 2)"
    using to_number_js_nat [of 2] by simp
  have "ok_reply good_reply" by (simp add: ok_reply_def good_reply_def rp_ok_def)
  moreover have "\<forall>i \<in> {js ''test-language'', js ''test-cleanup'', js ''test-runs''}. get_el two_runs i \<noteq> None"
    by (simp add: two_runs_def g el.look_change)
  moreover have "recorders two_runs 0 = Some \<lparr>rc_state = Stopping, rc_live = True, rc_mime = js ''audio/mp4'', rc_max = Fin 300\<rparr>"
    "benchmarks two_runs = []" by (simp_all add: two_runs_def upd_el_def rec_start_def test_page.defs)
  ultimately show ?thesis
    using benchmark_uploads [of two_runs 0 _ 2 "[good_reply, good_reply]" "\<lambda>_. []" 5] r by simp
qed

theorem average_warm_runs_witness:
  "average ''duration_ms'' (measured [Null, Obj [(js ''duration_ms'', Num (Fin 1200))],
     Obj [(js ''duration_ms'', Num (Fin 1000))]]) = Inr (Fin (rnd (2200 / 2)))"
  using average_warm_runs [of "[Obj [(js ''duration_ms'', Num (Fin 1200))], Obj [(js ''duration_ms'', Num (Fin 1000))]]"
      "''duration_ms''" "\<lambda>x. if own x (js ''duration_ms'') = Num (Fin 1200) then 1200 else 1000" 1000 1200 Null]
  by (simp add: nullish_def or_zero_def js_or_def own_def)

end
