(* ===== verification/Clipboard.thy ===== *)
theory Clipboard
  imports Benchmark
begin

text \<open>
  Everything the page hands over to the system (\<open>app/webui/app.js\<close>): the diagnostics download and
  the three copy buttons, for a new token, for the pairing payload and for a transcript.  The
  handlers are split at their \<open>await\<close>; \<open>navigator.clipboard\<close> can be missing, which the pairing
  button works around and the other two report.
\<close>

section \<open>State\<close>

text \<open>A pairing button: its \<open>data-url\<close> and \<open>data-token\<close>, the text of its label (\<open>None\<close> without one),
  the class \<open>is-copied\<close>, its \<open>title\<close>, and the handle in its property \<open>_copyHintTimer\<close>.\<close>

record pair_button =
  pb_url :: "jsstring option"
  pb_token :: "jsstring option"
  pb_label :: "jsstring option"
  pb_copied :: bool
  pb_title :: jsstring
  pb_timer :: "nat option"

text \<open>A call of \<open>writeText\<close> that has not been answered yet.\<close>

datatype copying = CopyToken jsstring | CopyPairing nat jsstring | CopyTranscript jsstring

text \<open>\<open>clipboard_api\<close> says whether the browser offers \<open>navigator.clipboard\<close>; \<open>clipboard\<close> is the system's
  clipboard; \<open>copies\<close> are the calls under way; \<open>diagnostics\<close> counts the requests under way;
  \<open>downloads\<close> are the files saved, each with name and content, and \<open>object_urls\<close> the object URLs
  that have not been revoked.\<close>

record clip_page = rec_page +
  pair_buttons :: "nat \<Rightarrow> pair_button option"
  clipboard_api :: bool
  clipboard :: "jsstring option"
  copies :: "copying list"
  diagnostics :: nat
  downloads :: "(jsstring \<times> jsstring) list"
  object_urls :: nat

definition get_button :: "'a clip_page_scheme \<Rightarrow> nat \<Rightarrow> pair_button option" where
  "get_button p b = pair_buttons p b"

definition upd_button :: "nat \<Rightarrow> (pair_button \<Rightarrow> pair_button) \<Rightarrow> 'a clip_page_scheme \<Rightarrow> 'a clip_page_scheme" where
  "upd_button b f p = p\<lparr>pair_buttons := (pair_buttons p)(b := map_option f (pair_buttons p b))\<rparr>"

text \<open>The store of these buttons has the laws of the store of elements.\<close>

interpretation pb: element_store get_button upd_button
  by unfold_locales (simp add: get_button_def upd_button_def)

section \<open>Printing JSON\<close>

text \<open>\<open>JSON.stringify(v, null, 2)\<close>: \<open>ind\<close> is the indentation of the line the value starts on.  A
  property that is \<open>undefined\<close> is left out, an element that is prints as \<open>null\<close>, and so does a
  number that is not finite.\<close>

fun join_with :: "jsstring \<Rightarrow> jsstring list \<Rightarrow> jsstring" where
  "join_with sep [] = []"
| "join_with sep [s] = s"
| "join_with sep (s # ss) = s @ sep @ join_with sep ss"

definition block :: "nat \<Rightarrow> code_unit \<Rightarrow> code_unit \<Rightarrow> jsstring list \<Rightarrow> jsstring" where
  "block ind l r ss =
     (if ss = [] then [l, r]
      else [l, 10] @ replicate (ind + 2) 32 @ join_with ([44, 10] @ replicate (ind + 2) 32) ss
           @ [10] @ replicate ind 32 @ [r])"

fun pretty :: "nat \<Rightarrow> jsval \<Rightarrow> jsstring" where
  "pretty ind Undefined = js ''null''"
| "pretty ind Null = js ''null''"
| "pretty ind (JBool b) = js_bool b"
| "pretty ind (Num n) = (case n of Fin r \<Rightarrow> num_text r | _ \<Rightarrow> js ''null'')"
| "pretty ind (Str s) = json_quote s"
| "pretty ind (Arr vs) = block ind 91 93 (map (pretty (ind + 2)) vs)"
| "pretty ind (Obj fs) = block ind 123 125
     (map (\<lambda>(k, v). json_quote k @ js '': '' @ pretty (ind + 2) v) (filter (\<lambda>(k, v). v \<noteq> Undefined) fs))"

section \<open>Diagnostics\<close>

definition diagnostics_request :: "'a page_scheme \<Rightarrow> request" where
  "diagnostics_request p =
     Fetch (js ''GET'') (js ''/v1/admin/diagnostics'') [(js ''Authorization'', bearer p)] None"

definition diagnostics_click :: "'a clip_page_scheme \<Rightarrow> 'a clip_page_scheme" where
  "diagnostics_click p = send (diagnostics_request p) (p\<lparr>diagnostics := Suc (diagnostics p)\<rparr>)"

definition diagnostics_name :: "jsstring \<Rightarrow> jsstring" where
  "diagnostics_name generated_at =
     js ''vocagateway-diagnostics-'' @ replace_all {58, 46} (js ''-'') generated_at @ js ''.json''"

text \<open>The message the \<open>catch\<close> block shows, given the exception.\<close>

definition diagnostics_failed :: "(exn \<Rightarrow> jsstring) \<Rightarrow> exn \<Rightarrow> 'a shell_page_scheme \<Rightarrow> 'a shell_page_scheme" where
  "diagnostics_failed msg e p =
     showToast (let m = message_of msg e in if m = [] then js ''Could not download diagnostics.'' else m) True p"

text \<open>The error of a reply that is not \<open>ok\<close>; on a nullish payload \<open>payload.error\<close> throws.\<close>

definition diagnostics_error :: "jsval \<Rightarrow> exn" where
  "diagnostics_error payload =
     (if nullish payload then TypeError
      else Thrown (to_text (js_or (opt_prop (own payload (js ''error'')) (js ''message''))
        (Str (js ''Diagnostics failed.'')))))"

text \<open>The file is built before its name: if \<open>generated_at\<close> is no text the name throws, and the object URL
  is never revoked.\<close>

definition save_diagnostics :: "(exn \<Rightarrow> jsstring) \<Rightarrow> jsval \<Rightarrow> 'a clip_page_scheme \<Rightarrow> 'a clip_page_scheme" where
  "save_diagnostics msg payload p =
     (case bind_result (get_prop payload (js ''generated_at'')) (\<lambda>v. case v of Str t \<Rightarrow> Inr t | _ \<Rightarrow> Inl TypeError) of
        Inl e \<Rightarrow> diagnostics_failed msg e (p\<lparr>object_urls := Suc (object_urls p)\<rparr>)
      | Inr generated_at \<Rightarrow>
          showToast (js ''Diagnostics downloaded.'') False
            (p\<lparr>downloads := downloads p @ [(diagnostics_name generated_at, pretty 0 payload)]\<rparr>))"

definition diagnostics_finish ::
    "(exn \<Rightarrow> jsstring) \<Rightarrow> reply result \<Rightarrow> 'a clip_page_scheme \<Rightarrow> 'a clip_page_scheme" where
  "diagnostics_finish msg outcome p =
     (if diagnostics p = 0 then p
      else
        let p1 = p\<lparr>diagnostics := diagnostics p - 1\<rparr>
        in case outcome of
             Inl e \<Rightarrow> diagnostics_failed msg e p1
           | Inr r \<Rightarrow>
               if rp_status r = 401
               then showOverlay (js ''Session expired. Paste the current token.'') (remove_item TOKEN_KEY p1)
               else case rp_json r of
                 Inl e \<Rightarrow> diagnostics_failed msg e p1
               | Inr payload \<Rightarrow>
                   if \<not> rp_ok r then diagnostics_failed msg (diagnostics_error payload) p1
                   else save_diagnostics msg payload p1)"

section \<open>Copying a token or a transcript\<close>

text \<open>\<open>navigator.clipboard.writeText\<close> throws at once without the interface, which the \<open>catch\<close> block
  reports.  A missing element makes the handler throw before that.\<close>

definition TOKEN_FAILED :: jsstring where
  "TOKEN_FAILED = js ''Could not copy. Select the token and copy manually.''"

definition TRANSCRIPT_FAILED :: jsstring where
  "TRANSCRIPT_FAILED = js ''Could not copy. Select the transcript and copy manually.''"

definition copy_token_click :: "'a clip_page_scheme \<Rightarrow> 'a clip_page_scheme" where
  "copy_token_click p =
     (case get_el p (js ''new-token-value'') of
        None \<Rightarrow> p
      | Some e \<Rightarrow>
          if clipboard_api p then p\<lparr>copies := copies p @ [CopyToken (el_text e)]\<rparr>
          else showToast TOKEN_FAILED True p)"

definition copy_transcript_click :: "'a clip_page_scheme \<Rightarrow> 'a clip_page_scheme" where
  "copy_transcript_click p =
     (if get_el p (js ''test-transcript'') = None then p
      else if clipboard_api p then p\<lparr>copies := copies p @ [CopyTranscript (node_text p (js ''test-transcript''))]\<rparr>
      else showToast TRANSCRIPT_FAILED True p)"

section \<open>Copying the pairing payload\<close>

definition setHint :: "jsstring \<Rightarrow> bool \<Rightarrow> pair_button \<Rightarrow> pair_button" where
  "setHint t copied x =
     (if pb_label x = None then x
      else x\<lparr>pb_label := Some t, pb_copied := copied,
             pb_title := (if copied then js ''Copied'' else js ''Copy gateway address and token'')\<rparr>)"

definition REST_HINT :: jsstring where
  "REST_HINT = js ''Copy address & token''"

text \<open>\<open>setHint(...)\<close>, \<open>clearTimeout(button._copyHintTimer)\<close>, and a new timer that resets the hint.\<close>

definition flash_hint :: "nat \<Rightarrow> jsstring \<Rightarrow> bool \<Rightarrow> 'a clip_page_scheme \<Rightarrow> 'a clip_page_scheme" where
  "flash_hint b t copied p =
     (case get_button p b of
        None \<Rightarrow> p
      | Some x \<Rightarrow>
          (case restart_timer (pb_timer x) (ResetCopyHint b, 1600) (upd_button b (setHint t copied) p) of
             (p1, h) \<Rightarrow> upd_button b (\<lambda>x. x\<lparr>pb_timer := Some h\<rparr>) p1))"

definition pairing_json :: "jsstring \<Rightarrow> jsstring \<Rightarrow> jsstring" where
  "pairing_json url token =
     json_object [(js ''v'', js ''1''), (js ''url'', json_quote url), (js ''token'', json_quote token)]"

text \<open>The click; \<open>exec_ok\<close> is what \<open>document.execCommand("copy")\<close> achieves in the fallback, whose
  result the code does not look at.\<close>

definition copy_pairing_click :: "nat \<Rightarrow> bool \<Rightarrow> 'a clip_page_scheme \<Rightarrow> 'a clip_page_scheme" where
  "copy_pairing_click b exec_ok p =
     (case get_button p b of
        None \<Rightarrow> p
      | Some x \<Rightarrow>
          let url = opt_or (pb_url x) []; token = opt_or (pb_token x) []
          in if url = [] \<or> token = [] then flash_hint b (js ''Nothing to copy'') False p
             else
               let v = pairing_json url token
               in if clipboard_api p then p\<lparr>copies := copies p @ [CopyPairing b v]\<rparr>
                  else flash_hint b (js ''Copied'') True (if exec_ok then p\<lparr>clipboard := Some v\<rparr> else p))"

text \<open>The answer to a call of \<open>writeText\<close>.\<close>

definition copy_finish :: "nat \<Rightarrow> bool \<Rightarrow> 'a clip_page_scheme \<Rightarrow> 'a clip_page_scheme" where
  "copy_finish k done p =
     (if length (copies p) \<le> k then p
      else
        let c = copies p ! k;
            p1 = p\<lparr>copies := take k (copies p) @ drop (Suc k) (copies p)\<rparr>
        in case c of
             CopyToken v \<Rightarrow>
               if done then showToast (js ''Token copied.'') False (p1\<lparr>clipboard := Some v\<rparr>)
               else showToast TOKEN_FAILED True p1
           | CopyTranscript v \<Rightarrow>
               if done then showToast (js ''Transcript copied.'') False (p1\<lparr>clipboard := Some v\<rparr>)
               else showToast TRANSCRIPT_FAILED True p1
           | CopyPairing b v \<Rightarrow>
               if done then flash_hint b (js ''Copied'') True (p1\<lparr>clipboard := Some v\<rparr>)
               else flash_hint b (js ''Copy failed'') False p1)"

section \<open>Runs\<close>

datatype clip_event =
    DiagnosticsClick
  | DiagnosticsReply "reply result"
  | CopyTokenClick
  | CopyTranscriptClick
  | CopyPairingClick nat bool
  | CopyDone nat bool
  | ClipTimer nat

fun clip_step :: "(exn \<Rightarrow> jsstring) \<Rightarrow> 'a clip_page_scheme \<Rightarrow> clip_event \<Rightarrow> 'a clip_page_scheme" where
  "clip_step msg p DiagnosticsClick = diagnostics_click p"
| "clip_step msg p (DiagnosticsReply outcome) = diagnostics_finish msg outcome p"
| "clip_step msg p CopyTokenClick = copy_token_click p"
| "clip_step msg p CopyTranscriptClick = copy_transcript_click p"
| "clip_step msg p (CopyPairingClick b exec_ok) = copy_pairing_click b exec_ok p"
| "clip_step msg p (CopyDone k d) = copy_finish k d p"
| "clip_step msg p (ClipTimer h) =
     (case timers p h of
        Some (ResetCopyHint b, _) \<Rightarrow> upd_button b (setHint REST_HINT False) (stop_timer (Some h) p)
      | Some (HideToast, _) \<Rightarrow> hideToast (stop_timer (Some h) p)
      | _ \<Rightarrow> p)"

section \<open>The payload\<close>

text \<open>A reader for the payload, as a client that scans the code or is given the text reads it.\<close>

definition strip_prefix :: "jsstring \<Rightarrow> jsstring \<Rightarrow> jsstring option" where
  "strip_prefix pre s = (if take (length pre) s = pre then Some (drop (length pre) s) else None)"

definition read_pairing :: "jsstring \<Rightarrow> (jsstring \<times> jsstring) option" where
  "read_pairing s =
     Option.bind (strip_prefix (js ''{\"v\":1,\"url\":'') s) (\<lambda>r.
     Option.bind (json_unquote r) (\<lambda>(url, r1).
     Option.bind (strip_prefix (js '',\"token\":'') r1) (\<lambda>r2.
     Option.bind (json_unquote r2) (\<lambda>(token, r3).
     if r3 = js ''}'' then Some (url, token) else None))))"

lemma strip_prefix_append [simp]: "strip_prefix pre (pre @ s) = Some s"
  by (simp add: strip_prefix_def)

lemma pairing_json_eq:
  "pairing_json url token =
     js ''{\"v\":1,\"url\":'' @ json_quote url @ js '',\"token\":'' @ json_quote token @ js ''}''"
  by (simp add: pairing_json_def json_object_def json_quote_def esc_unit_def high_surrogate_def low_surrogate_def js_defs)

lemma read_pairing_json: "read_pairing (pairing_json url token) = Some (url, token)"
  unfolding read_pairing_def pairing_json_eq
  by (simp only: strip_prefix_append Option.bind.bind_lunit json_unquote_quote prod.case if_True simp_thms)

section \<open>Hints\<close>

text \<open>A handle kept for callbacks \<open>f\<close>: it was given out already, and if it is still pending it is
  that of such a callback.\<close>

definition owns :: "'a page_scheme \<Rightarrow> callback \<Rightarrow> nat option \<Rightarrow> bool" where
  "owns p f ho \<longleftrightarrow> (\<forall>h. ho = Some h \<longrightarrow> h < next_timer p \<and> (\<forall>c. timers p h = Some c \<longrightarrow> fst c = f))"

definition at_rest :: "pair_button \<Rightarrow> bool" where
  "at_rest x \<longleftrightarrow> pb_label x = None \<or> pb_label x = Some REST_HINT \<and> \<not> pb_copied x"

definition button_ok :: "'a page_scheme \<Rightarrow> nat \<Rightarrow> pair_button \<Rightarrow> bool" where
  "button_ok p b x \<longleftrightarrow> owns p (ResetCopyHint b) (pb_timer x) \<and>
     slot_ok (timers p) (\<lambda>c. fst c = ResetCopyHint b) (pb_timer x) \<and>
     (at_rest x \<or> (\<exists>h. pb_timer x = Some h \<and> timers p h = Some (ResetCopyHint b, 1600)))"

definition hint_inv :: "'a clip_page_scheme \<Rightarrow> bool" where
  "hint_inv p \<longleftrightarrow> timers_ok p \<and> owns p HideToast (toast_timer p) \<and>
     (\<forall>b x. get_button p b = Some x \<longrightarrow> button_ok p b x)"

lemma hint_inv_cong:
  "timers q = timers p \<Longrightarrow> next_timer q = next_timer p \<Longrightarrow> toast_timer q = toast_timer p \<Longrightarrow>
   pair_buttons q = pair_buttons p \<Longrightarrow> hint_inv q = hint_inv p"
  by (simp add: hint_inv_def timers_ok_def owns_def button_ok_def get_button_def)

lemma hint_inv_updates [simp]:
  "hint_inv (p\<lparr>diagnostics := n\<rparr>) = hint_inv p" "hint_inv (p\<lparr>copies := cs\<rparr>) = hint_inv p"
  "hint_inv (p\<lparr>clipboard := c\<rparr>) = hint_inv p" "hint_inv (p\<lparr>downloads := ds\<rparr>) = hint_inv p"
  "hint_inv (p\<lparr>object_urls := u\<rparr>) = hint_inv p" "hint_inv (send r p) = hint_inv p"
  "hint_inv (remove_item k p) = hint_inv p"
  by (rule hint_inv_cong; simp add: send_def remove_item_def)+

lemma hint_inv_overlay [simp]: "hint_inv (showOverlay m p) = hint_inv p"
  by (rule hint_inv_cong) (simp_all add: showOverlay_def setBackgroundInert_def page_defs)

text \<open>Restarting one owned timer leaves the owners of other callbacks alone.\<close>

lemma owns_restart:
  assumes "timers_ok p" "owns p f ho" "restart_timer ho (f, d) p = (q, h)"
  shows "owns q f (Some h)" "timers q h = Some (f, d)"
    and "g \<noteq> f \<Longrightarrow> owns p g go \<Longrightarrow> owns q g go"
    and "g \<noteq> f \<Longrightarrow> timers q i = Some (g, e) \<longleftrightarrow> timers p i = Some (g, e)"
    and "slot_ok (timers p) (\<lambda>c. fst c = f) ho \<Longrightarrow> slot_ok (timers q) (\<lambda>c. fst c = f) (Some h)"
proof -
  have n: "timers p (next_timer p) = None" by (rule timers_ok_fresh [OF assms(1)])
  show "owns q f (Some h)" "timers q h = Some (f, d)"
    "g \<noteq> f \<Longrightarrow> owns p g go \<Longrightarrow> owns q g go"
    "g \<noteq> f \<Longrightarrow> timers q i = Some (g, e) \<longleftrightarrow> timers p i = Some (g, e)"
    using assms(2,3) n
    by (auto simp: owns_def restart_timer_eq stop_timer_def less_SucI split: option.splits if_splits)
  show "slot_ok (timers p) (\<lambda>c. fst c = f) ho \<Longrightarrow> slot_ok (timers q) (\<lambda>c. fst c = f) (Some h)"
    using restart_slot [OF _ assms(3)] by blast
qed

lemma slot_ok_other:
  "(\<And>i e. timers q i = Some (g, e) \<longleftrightarrow> timers p i = Some (g, e)) \<Longrightarrow>
     slot_ok (timers q) (\<lambda>c. fst c = g) ho = slot_ok (timers p) (\<lambda>c. fst c = g) ho"
  by (fastforce simp: slot_ok_def)

lemma button_ok_other:
  assumes "timers_ok p" "owns p f ho" "restart_timer ho (f, d) p = (q, h)" "f \<noteq> ResetCopyHint b" "button_ok p b x"
  shows "button_ok q b x"
  using owns_restart(3,4) [OF assms(1-3) assms(4) [symmetric]] assms(5)
    slot_ok_other [of q "ResetCopyHint b" p "pb_timer x"]
  by (auto simp: button_ok_def)

lemma hint_inv_showToast:
  assumes "hint_inv p"
  shows "hint_inv (showToast m err p)"
proof -
  let ?p = "p\<lparr>toast := class_remove (js ''hidden'') (class_toggle (js ''error'') err (set_text m (toast p)))\<rparr>"
  obtain q h where q: "restart_timer (toast_timer p) (HideToast, 5000) ?p = (q, h)" by force
  have p: "timers_ok ?p" "owns ?p HideToast (toast_timer p)" "button_ok ?p b x = button_ok p b x" for b x
    using assms by (simp_all add: hint_inv_def timers_ok_def owns_def button_ok_def)
  have eq: "showToast m err p = q\<lparr>toast_timer := Some h\<rparr>" using q by (simp add: showToast_def)
  have "timers_ok q" by (rule timers_ok_restart [OF p(1) q])
  moreover have "get_button q b = get_button p b" for b
    using q by (auto simp: restart_timer_eq get_button_def stop_timer_def split: option.splits)
  moreover have "button_ok q b x" if "get_button p b = Some x" for b x
    using button_ok_other [OF p(1,2) q] p(3) assms that by (simp add: hint_inv_def)
  ultimately show ?thesis
    using owns_restart(1) [OF p(1,2) q]
    by (simp add: eq hint_inv_def timers_ok_def owns_def button_ok_def get_button_def)
qed

lemma hint_inv_flash:
  assumes "hint_inv p"
  shows "hint_inv (flash_hint b t copied p)"
proof (cases "get_button p b")
  case (Some x)
  let ?p = "upd_button b (setHint t copied) p"
  obtain q h where q: "restart_timer (pb_timer x) (ResetCopyHint b, 1600) ?p = (q, h)" by force
  have eq: "flash_hint b t copied p = upd_button b (\<lambda>x. x\<lparr>pb_timer := Some h\<rparr>) q"
    using q Some by (simp add: flash_hint_def)
  have p: "timers_ok ?p" "owns ?p f ho = owns p f ho" "button_ok ?p c y = button_ok p c y" "toast_timer ?p = toast_timer p" for f ho c y
    using assms by (simp_all add: hint_inv_def timers_ok_def owns_def button_ok_def upd_button_def)
  have x: "button_ok p b x" using assms Some by (simp add: hint_inv_def)
  then have o: "owns ?p (ResetCopyHint b) (pb_timer x)" "slot_ok (timers ?p) (\<lambda>c. fst c = ResetCopyHint b) (pb_timer x)"
    by (simp_all add: p(2)) (simp_all add: button_ok_def upd_button_def)
  have g: "get_button q c = get_button ?p c" "toast_timer q = toast_timer p" for c
    using q by (auto simp: restart_timer_eq get_button_def stop_timer_def upd_button_def split: option.splits)
  note r = owns_restart [OF p(1) o(1) q]
  have "button_ok q c y" if "c \<noteq> b" "get_button p c = Some y" for c y
    using button_ok_other [OF p(1) o(1) q, of c y] that assms p(3) by (simp add: hint_inv_def)
  moreover have "button_ok q b (y\<lparr>pb_timer := Some h\<rparr>)" for y
    using r(1,2,5) o(2) by (simp add: button_ok_def at_rest_def)
  moreover have "timers_ok q" by (rule timers_ok_restart [OF p(1) q])
  moreover have "owns q HideToast (toast_timer p)"
    using r(3) [of HideToast "toast_timer p"] assms p(2) by (simp add: hint_inv_def)
  moreover have "owns (upd_button b f q) k ho = owns q k ho" "button_ok (upd_button b f q) c y = button_ok q c y"
    "timers_ok (upd_button b f q) = timers_ok q" "toast_timer (upd_button b f q) = toast_timer q" for k ho c y f
    by (simp_all add: owns_def button_ok_def timers_ok_def upd_button_def)
  ultimately show ?thesis
    unfolding eq hint_inv_def by (auto simp: pb.look_change g Some split: if_splits)
qed (simp add: flash_hint_def assms)

lemma owns_stop:
  "owns p f ho \<Longrightarrow> timers q = (timers p)(h := None) \<Longrightarrow> next_timer q = next_timer p \<Longrightarrow> owns q f ho"
  by (auto simp: owns_def)

lemma slot_ok_stop: "slot_ok pend cls ho \<Longrightarrow> slot_ok (pend(h := None)) cls ho"
  by (simp add: slot_ok_def)

lemma button_ok_stop:
  assumes "button_ok p b x" "timers q = (timers p)(h := None)" "next_timer q = next_timer p"
    and "timers p h = Some (f, d)" "f \<noteq> ResetCopyHint b"
  shows "button_ok q b x"
proof -
  have "i \<noteq> h" if "timers p i = Some (ResetCopyHint b, 1600)" for i using that assms(4,5) by auto
  moreover have "owns q (ResetCopyHint b) (pb_timer x)"
    using assms(1) owns_stop [OF _ assms(2,3)] by (simp add: button_ok_def)
  ultimately show ?thesis using assms(1) unfolding button_ok_def assms(2) by (auto simp: slot_ok_stop)
qed

lemma stop_facts:
  "timers (hideToast (stop_timer (Some h) p)) = (timers p)(h := None)"
  "toast_timer (hideToast (stop_timer (Some h) p)) = toast_timer p"
  "next_timer (hideToast (stop_timer (Some h) p)) = next_timer p"
  "get_button (hideToast (stop_timer (Some h) p)) b = get_button p b"
  "timers (upd_button c f (stop_timer (Some h) p)) = (timers p)(h := None)"
  "toast_timer (upd_button c f (stop_timer (Some h) p)) = toast_timer p"
  "next_timer (upd_button c f (stop_timer (Some h) p)) = next_timer p"
  "get_button (stop_timer (Some h) p) b = get_button p b"
  by (simp_all add: hideToast_def stop_timer_def upd_button_def get_button_def)

lemma timers_ok_stopped:
  "timers_ok p \<Longrightarrow> timers q = (timers p)(h := None) \<Longrightarrow> next_timer q = next_timer p \<Longrightarrow> timers_ok q"
  by (simp add: timers_ok_def)

lemma hint_inv_stop: "hint_inv p \<Longrightarrow> timers p h = Some (HideToast, d) \<Longrightarrow> hint_inv (hideToast (stop_timer (Some h) p))"
  unfolding hint_inv_def stop_facts
  using timers_ok_stopped [OF _ stop_facts(1,3)] owns_stop [OF _ stop_facts(1,3)]
    button_ok_stop [OF _ stop_facts(1,3)] by blast

lemma hint_inv_reset:
  assumes "hint_inv p" "timers p h = Some (ResetCopyHint b, d)"
  shows "hint_inv (upd_button b (setHint REST_HINT False) (stop_timer (Some h) p))"
proof -
  let ?q = "upd_button b (setHint REST_HINT False) (stop_timer (Some h) p)"
  have s: "pb_timer (setHint REST_HINT False x) = pb_timer x" "at_rest (setHint REST_HINT False x)" for x
    by (auto simp: setHint_def at_rest_def)
  have "button_ok ?q c x" if "button_ok p c x" "c \<noteq> b" for c x
    by (rule button_ok_stop [OF that(1) stop_facts(5,7) assms(2)]) (use that(2) in simp)
  moreover have "button_ok ?q b (setHint REST_HINT False x)" if "button_ok p b x" for x
    using that owns_stop [OF _ stop_facts(5,7)] slot_ok_stop s(2)
    unfolding button_ok_def s(1) stop_facts(5) by blast
  moreover have "get_button ?q c = (if c = b then map_option (setHint REST_HINT False) (get_button p b) else get_button p c)" for c
    by (simp add: pb.look_change stop_facts)
  ultimately have "\<forall>c x. get_button ?q c = Some x \<longrightarrow> button_ok ?q c x"
    using assms(1) by (auto simp: hint_inv_def split: if_splits)
  moreover have "timers_ok ?q" "owns ?q HideToast (toast_timer ?q)"
    using assms(1) timers_ok_stopped [OF _ stop_facts(5,7)] owns_stop [OF _ stop_facts(5,7)]
    unfolding hint_inv_def stop_facts(6) by blast+
  ultimately show ?thesis by (simp add: hint_inv_def)
qed

lemma hint_inv_failed [simp]: "hint_inv p \<Longrightarrow> hint_inv (diagnostics_failed msg e p)"
  by (simp add: diagnostics_failed_def hint_inv_showToast)

lemma hint_inv_step: "hint_inv p \<Longrightarrow> hint_inv (clip_step msg p e)"
proof (cases e)
  case (DiagnosticsReply outcome)
  then show "hint_inv p \<Longrightarrow> ?thesis"
    by (auto simp: diagnostics_finish_def save_diagnostics_def hint_inv_showToast Let_def split: sum.split)
next
  case (CopyDone k d)
  then show "hint_inv p \<Longrightarrow> ?thesis"
    by (auto simp: copy_finish_def Let_def hint_inv_showToast hint_inv_flash split: copying.split)
next
  case (ClipTimer h)
  then show "hint_inv p \<Longrightarrow> ?thesis"
    by (auto simp: hint_inv_stop hint_inv_reset split: option.split callback.split)
qed (auto simp: diagnostics_click_def copy_token_click_def copy_transcript_click_def copy_pairing_click_def
    hint_inv_showToast hint_inv_flash Let_def split: option.split)

text \<open>C34.  A hint on a pairing button never stays: in every run of clicks, replies and timers each button
  either shows its resting text or has exactly one reset pending, 1.6 seconds after its last change,
  and when that timer fires the button rests; no toast or other button can take the timer away.\<close>

theorem copy_hint_returns:
  fixes p :: "'a clip_page_scheme" and es :: "clip_event list" and msg :: "exn \<Rightarrow> jsstring"
  assumes "hint_inv p" "get_button (foldl (clip_step msg) p es) b = Some x"
  defines "q \<equiv> foldl (clip_step msg) p es"
  shows "(at_rest x \<or> (\<exists>h. timers q h = Some (ResetCopyHint b, 1600))) \<and>
    (\<forall>h h' d d'. timers q h = Some (ResetCopyHint b, d) \<and> timers q h' = Some (ResetCopyHint b, d') \<longrightarrow> h = h') \<and>
    (\<forall>h d. timers q h = Some (ResetCopyHint b, d) \<longrightarrow>
      (\<exists>y. get_button (clip_step msg q (ClipTimer h)) b = Some y \<and> at_rest y))"
proof -
  have "hint_inv q" unfolding q_def using assms(1) by (induction es arbitrary: p) (simp_all add: hint_inv_step)
  then have x: "button_ok q b x" using assms(2) by (simp add: hint_inv_def q_def)
  have "\<exists>y. get_button (clip_step msg q (ClipTimer h)) b = Some y \<and> at_rest y"
    if "timers q h = Some (ResetCopyHint b, d)" for h d
  proof -
    have "get_button (stop_timer (Some h) q) b = Some x"
      using assms(2) by (simp add: q_def get_button_def stop_timer_def)
    with that show ?thesis by (auto simp: at_rest_def setHint_def)
  qed
  moreover have "h = h'" if "timers q h = Some (ResetCopyHint b, d)" "timers q h' = Some (ResetCopyHint b, d')" for h h' d d'
  proof -
    have "pb_timer x = Some i" if "timers q i = Some (ResetCopyHint b, e)" for i e
      using x that by (auto simp: button_ok_def slot_ok_def)
    from this [OF that(1)] this [OF that(2)] show ?thesis by simp
  qed
  ultimately show ?thesis using x by (auto simp: button_ok_def)
qed

section \<open>Outcomes\<close>

lemma get_button_fields [simp]:
  "get_button (p\<lparr>copies := cs\<rparr>) b = get_button p b" "get_button (p\<lparr>clipboard := c\<rparr>) b = get_button p b"
  by (simp_all add: get_button_def)

lemma flash_hint_shows:
  assumes "get_button p b = Some x" "pb_label x \<noteq> None"
  shows "\<exists>y. get_button (flash_hint b t copied p) b = Some y \<and> pb_label y = Some t \<and> pb_copied y = copied \<and>
    clipboard (flash_hint b t copied p) = clipboard p"
proof -
  obtain q h where q: "restart_timer (pb_timer x) (ResetCopyHint b, 1600) (upd_button b (setHint t copied) p) = (q, h)"
    by force
  have "get_button q c = get_button (upd_button b (setHint t copied) p) c"
    "clipboard q = clipboard p" for c
    using q by (auto simp: restart_timer_eq get_button_def stop_timer_def upd_button_def split: option.splits)
  moreover have "flash_hint b t copied p = upd_button b (\<lambda>x. x\<lparr>pb_timer := Some h\<rparr>) q"
    using q assms(1) by (simp add: flash_hint_def)
  moreover have "clipboard (upd_button b f r) = clipboard r" for f and r :: "'a clip_page_scheme"
    by (simp add: upd_button_def)
  ultimately show ?thesis using assms by (auto simp: setHint_def)
qed

text \<open>C33.  Copying the pairing payload: what lands on the clipboard reads back as exactly the address and
  the token of the button, whatever characters they hold, and the hint tells the outcome of the
  clipboard interface.  Without that interface the hint says "Copied" whether or not the fallback
  put anything on the clipboard.\<close>

theorem pairing_copy_reads_back:
  assumes "get_button p b = Some x" "pb_label x \<noteq> None"
    and "pb_url x = Some url" "pb_token x = Some token" "url \<noteq> []" "token \<noteq> []"
  defines "q \<equiv> \<lambda>api exec_ok. copy_pairing_click b exec_ok (p\<lparr>clipboard_api := api\<rparr>)"
  shows "(\<exists>v y. clipboard (copy_finish (length (copies p)) True (q True exec_ok)) = Some v \<and>
      read_pairing v = Some (url, token) \<and>
      get_button (copy_finish (length (copies p)) True (q True exec_ok)) b = Some y \<and>
      pb_label y = Some (js ''Copied'') \<and> pb_copied y) \<and>
    (\<exists>y. clipboard (copy_finish (length (copies p)) False (q True exec_ok)) = clipboard p \<and>
      get_button (copy_finish (length (copies p)) False (q True exec_ok)) b = Some y \<and>
      pb_label y = Some (js ''Copy failed'') \<and> \<not> pb_copied y) \<and>
    (\<exists>y. get_button (q False exec_ok) b = Some y \<and> pb_label y = Some (js ''Copied'') \<and> pb_copied y \<and>
      clipboard (q False exec_ok) = (if exec_ok then Some (pairing_json url token) else clipboard p))"
proof -
  let ?v = "pairing_json url token"
  have g: "get_button (p\<lparr>clipboard_api := a\<rparr>) c = get_button p c" for a c by (simp add: get_button_def)
  have api: "q True exec_ok = p\<lparr>clipboard_api := True, copies := copies p @ [CopyPairing b ?v]\<rparr>"
    using assms by (simp add: q_def copy_pairing_click_def g Let_def)
  have fb: "q False exec_ok = flash_hint b (js ''Copied'') True
      (if exec_ok then p\<lparr>clipboard_api := False, clipboard := Some ?v\<rparr> else p\<lparr>clipboard_api := False\<rparr>)"
    using assms by (simp add: q_def copy_pairing_click_def g Let_def)
  have finished: "copy_finish (length (copies p)) d (q True exec_ok) =
      (if d then flash_hint b (js ''Copied'') True (p\<lparr>clipboard_api := True, copies := copies p, clipboard := Some ?v\<rparr>)
       else flash_hint b (js ''Copy failed'') False (p\<lparr>clipboard_api := True, copies := copies p\<rparr>))" for d
    by (simp add: api copy_finish_def Let_def)
  have b: "get_button (p\<lparr>clipboard_api := True, copies := copies p, clipboard := Some ?v\<rparr>) b = Some x"
    "get_button (p\<lparr>clipboard_api := True, copies := copies p\<rparr>) b = Some x"
    "get_button (p\<lparr>clipboard_api := False, clipboard := Some ?v\<rparr>) b = Some x"
    "get_button (p\<lparr>clipboard_api := False\<rparr>) b = Some x"
    using assms(1) by (simp_all add: get_button_def)
  have 1: "\<exists>v y. clipboard (copy_finish (length (copies p)) True (q True exec_ok)) = Some v \<and>
      read_pairing v = Some (url, token) \<and>
      get_button (copy_finish (length (copies p)) True (q True exec_ok)) b = Some y \<and>
      pb_label y = Some (js ''Copied'') \<and> pb_copied y"
    unfolding finished if_True
    using flash_hint_shows [OF b(1) assms(2), where t = "js ''Copied''" and copied = True] read_pairing_json by auto
  have 2: "\<exists>y. clipboard (copy_finish (length (copies p)) False (q True exec_ok)) = clipboard p \<and>
      get_button (copy_finish (length (copies p)) False (q True exec_ok)) b = Some y \<and>
      pb_label y = Some (js ''Copy failed'') \<and> \<not> pb_copied y"
    unfolding finished if_False
    using flash_hint_shows [OF b(2) assms(2), where t = "js ''Copy failed''" and copied = False] by auto
  have 3: "\<exists>y. get_button (q False exec_ok) b = Some y \<and> pb_label y = Some (js ''Copied'') \<and> pb_copied y \<and>
      clipboard (q False exec_ok) = (if exec_ok then Some ?v else clipboard p)"
    unfolding fb
    using flash_hint_shows [OF b(3) assms(2), where t = "js ''Copied''" and copied = True]
      flash_hint_shows [OF b(4) assms(2), where t = "js ''Copied''" and copied = True] by auto
  from 1 2 3 show ?thesis by blast
qed

text \<open>The file saved by a reply, with its name.\<close>

definition saved_file :: "reply result \<Rightarrow> (jsstring \<times> jsstring) option" where
  "saved_file outcome =
     (case outcome of
        Inl e \<Rightarrow> None
      | Inr r \<Rightarrow>
          if rp_ok r then
            (case rp_json r of
               Inr (Obj fs) \<Rightarrow>
                 (case map_of fs (js ''generated_at'') of
                    Some (Str t) \<Rightarrow> Some (diagnostics_name t, pretty 0 (Obj fs))
                  | _ \<Rightarrow> None)
             | _ \<Rightarrow> None)
          else None)"

lemma save_diagnostics_saves:
  "map_of fs (js ''generated_at'') = Some (Str t) \<Longrightarrow>
     save_diagnostics msg (Obj fs) p = showToast (js ''Diagnostics downloaded.'') False
       (p\<lparr>downloads := downloads p @ [(diagnostics_name t, pretty 0 (Obj fs))]\<rparr>)"
  by (simp add: save_diagnostics_def get_prop_def nullish_def)

lemma save_diagnostics_fails:
  "\<not> (\<exists>fs t. payload = Obj fs \<and> map_of fs (js ''generated_at'') = Some (Str t)) \<Longrightarrow>
     save_diagnostics msg payload p = diagnostics_failed msg TypeError (p\<lparr>object_urls := Suc (object_urls p)\<rparr>)"
proof -
  assume no: "\<not> (\<exists>fs t. payload = Obj fs \<and> map_of fs (js ''generated_at'') = Some (Str t))"
  have "\<forall>t. own payload (js ''generated_at'') \<noteq> Str t"
    using no by (auto simp: own_def split: jsval.splits option.splits)
  then show ?thesis by (simp add: save_diagnostics_def get_prop_def split: jsval.split)
qed

lemma failed_toast:
  "el_text (toast (diagnostics_failed msg e p)) \<noteq> [] \<and> has_class (js ''error'') (toast (diagnostics_failed msg e p)) \<and>
   downloads (diagnostics_failed msg e p) = downloads p \<and> store (diagnostics_failed msg e p) = store p"
  by (simp add: diagnostics_failed_def showToast_eq Let_def set_text_def class_toggle_def class_add_def
      class_remove_def has_class_def js_eq_iff js_def)

text \<open>C35.  A diagnostics download that fails says so: a rejected token is forgotten and asked for; a
  successful reply that is an object with a text \<open>generated_at\<close> saves one file, under a name
  without colons and with no dot but that of its extension; everything else shows an error toast
  whose text is not empty, saves nothing and keeps the token.\<close>

theorem diagnostics_outcome:
  fixes p :: "'a clip_page_scheme" and msg :: "exn \<Rightarrow> jsstring" and outcome :: "reply result"
  assumes "0 < diagnostics p"
  defines "q \<equiv> diagnostics_finish msg outcome p"
  shows "if \<exists>r. outcome = Inr r \<and> rp_status r = 401
    then getToken q = [] \<and> overlay_open q \<and> downloads q = downloads p
    else case saved_file outcome of
      Some (name, content) \<Rightarrow>
        downloads q = downloads p @ [(name, content)] \<and> el_text (toast q) = js ''Diagnostics downloaded.'' \<and>
        (\<exists>t. name = js ''vocagateway-diagnostics-'' @ t @ js ''.json'' \<and> set t \<inter> {58, 46} = {})
    | None \<Rightarrow>
        el_text (toast q) \<noteq> [] \<and> has_class (js ''error'') (toast q) \<and> downloads q = downloads p \<and>
        getToken q = getToken p"
proof -
  let ?p = "p\<lparr>diagnostics := diagnostics p - 1\<rparr>"
  have fail: ?thesis if "saved_file outcome = None" "\<not> (\<exists>r. outcome = Inr r \<and> rp_status r = 401)"
    "q = diagnostics_failed msg e ?p \<or> q = diagnostics_failed msg e (?p\<lparr>object_urls := n\<rparr>)" for e n
    using that failed_toast [of msg e ?p] failed_toast [of msg e "?p\<lparr>object_urls := n\<rparr>"]
    by (auto simp: getToken_def get_item_def)
  show ?thesis
  proof (cases outcome)
    case (Inl e)
    then show ?thesis using assms(1) by (intro fail [of e]) (simp_all add: saved_file_def q_def diagnostics_finish_def Let_def)
  next
    case (Inr r)
    show ?thesis
    proof (cases "rp_status r = 401")
      case True
      then have "q = showOverlay (js ''Session expired. Paste the current token.'') (remove_item TOKEN_KEY ?p)"
        using assms(1) Inr by (simp add: q_def diagnostics_finish_def Let_def)
      moreover have "downloads (showOverlay m x) = downloads x" "get_item (showOverlay m x) k = get_item x k"
        for m k and x :: "'a clip_page_scheme"
        by (simp_all add: showOverlay_def setBackgroundInert_def page_defs)
      ultimately show ?thesis using Inr True
        by (simp add: getToken_def opt_or_def) (simp add: remove_item_def)
    next
      case False
      show ?thesis
      proof (cases "rp_json r")
        case (Inl e)
        then show ?thesis using assms(1) Inr False
          by (intro fail [of e]) (simp_all add: saved_file_def q_def diagnostics_finish_def Let_def)
      next
        case (Inr payload)
        note r = \<open>outcome = Inr r\<close> Inr False
        have q: "q = (if rp_ok r then save_diagnostics msg payload ?p
            else diagnostics_failed msg (diagnostics_error payload) ?p)"
          using assms(1) r by (simp add: q_def diagnostics_finish_def Let_def)
        show ?thesis
        proof (cases "rp_ok r \<and> (\<exists>fs t. payload = Obj fs \<and> map_of fs (js ''generated_at'') = Some (Str t))")
          case True
          then obtain fs t where t: "rp_ok r" "payload = Obj fs" "map_of fs (js ''generated_at'') = Some (Str t)" by blast
          then have "saved_file outcome = Some (diagnostics_name t, pretty 0 (Obj fs))" using r by (simp add: saved_file_def)
          moreover have "q = showToast (js ''Diagnostics downloaded.'') False
              (?p\<lparr>downloads := downloads p @ [(diagnostics_name t, pretty 0 (Obj fs))]\<rparr>)"
            using t by (simp add: q save_diagnostics_saves del: pretty.simps)
          moreover have "set (replace_all {58, 46} (js ''-'') t) \<inter> {58, 46} = {}"
            by (rule replace_all_removes) (simp add: js_defs)
          ultimately show ?thesis using r
            by (auto simp: showToast_eq diagnostics_name_def set_text_def class_toggle_def class_add_def class_remove_def
                simp del: pretty.simps)
        next
          case no: False
          then have "saved_file outcome = None"
            using r by (auto simp: saved_file_def split: jsval.split option.split)
          moreover have "\<exists>e n. q = diagnostics_failed msg e ?p \<or> q = diagnostics_failed msg e (?p\<lparr>object_urls := n\<rparr>)"
            using no save_diagnostics_fails [of payload msg ?p] by (auto simp: q)
          ultimately show ?thesis using fail r by auto
        qed
      qed
    qed
  qed
qed

section \<open>Examples\<close>

definition gateway_button :: pair_button where
  "gateway_button = \<lparr>pb_url = Some (js ''https://gateway:8080''), pb_token = Some (js ''secret''),
     pb_label = Some REST_HINT, pb_copied = False, pb_title = [], pb_timer = None\<rparr>"

definition clip_start :: clip_page where
  "clip_start = rec_page.extend rec_start
     \<lparr>pair_buttons = [0 \<mapsto> gateway_button], clipboard_api = True, clipboard = None, copies = [],
      diagnostics = 1, downloads = [], object_urls = 0\<rparr>"

lemma clip_start_simps [simp]:
  "get_button clip_start 0 = Some gateway_button" "copies clip_start = []" "diagnostics clip_start = 1"
  "clipboard clip_start = None" "timers clip_start = (\<lambda>_. None)" "toast_timer clip_start = None"
  by (simp_all add: clip_start_def rec_page.defs get_button_def rec_start_def test_page.defs test_start_def
      poll_page.defs poll_start_def dialog_page.defs dialog_start_def filter_page.defs filter_start_def
      grid_page.defs grid_start_def view_page.defs view_start_def shell_page.defs)

lemma hint_inv_start: "hint_inv clip_start"
proof -
  have "get_button clip_start b = Some x \<Longrightarrow> x = gateway_button" for b x
    by (simp add: clip_start_def rec_page.defs get_button_def split: if_splits)
  moreover have "button_ok clip_start b gateway_button" for b
    by (simp add: owns_def button_ok_def slot_ok_def at_rest_def gateway_button_def)
  moreover have "timers_ok clip_start" "owns clip_start HideToast (toast_timer clip_start)"
    by (simp_all add: timers_ok_def owns_def)
  ultimately show ?thesis unfolding hint_inv_def by blast
qed

lemma clip_start_api [simp]: "clip_start\<lparr>clipboard_api := True\<rparr> = clip_start"
  by (simp add: clip_start_def rec_page.defs)

lemma clip_start_shape: "clipboard_api clip_start"
  by (simp add: clip_start_def rec_page.defs)

theorem copy_hint_returns_witness:
  "\<exists>h y. timers (clip_step (\<lambda>_. []) (clip_step (\<lambda>_. []) clip_start (CopyPairingClick 0 True)) (CopyDone 0 True)) h =
      Some (ResetCopyHint 0, 1600) \<and>
    get_button (clip_step (\<lambda>_. []) (clip_step (\<lambda>_. []) (clip_step (\<lambda>_. []) clip_start (CopyPairingClick 0 True))
      (CopyDone 0 True)) (ClipTimer h)) 0 = Some y \<and> at_rest y"
proof -
  let ?es = "[CopyPairingClick 0 True, CopyDone 0 True]"
  let ?q = "foldl (clip_step (\<lambda>_. [])) clip_start ?es"
  have "\<exists>x. get_button ?q 0 = Some x \<and> pb_label x = Some (js ''Copied'')"
    using flash_hint_shows [of _ 0 gateway_button "js ''Copied''" True]
    by (force simp: copy_pairing_click_def copy_finish_def gateway_button_def Let_def clip_start_shape js_eq_iff)
  then obtain x where x: "get_button ?q 0 = Some x" "pb_label x = Some (js ''Copied'')" by blast
  then have "\<not> at_rest x" by (simp add: at_rest_def REST_HINT_def js_eq_iff)
  with copy_hint_returns [OF hint_inv_start x(1)] show ?thesis by fastforce
qed

theorem pairing_copy_reads_back_witness:
  "\<exists>v. clipboard (copy_finish 0 True (copy_pairing_click 0 True (clip_start\<lparr>clipboard_api := True\<rparr>))) = Some v \<and>
     read_pairing v = Some (js ''https://gateway:8080'', js ''secret'')"
  using pairing_copy_reads_back [of clip_start 0 gateway_button "js ''https://gateway:8080''" "js ''secret''" True]
  by (simp add: gateway_button_def js_defs) blast

theorem diagnostics_outcome_witness:
  "el_text (toast (diagnostics_finish (\<lambda>_. []) (Inl NetworkError) clip_start)) \<noteq> []"
  using diagnostics_outcome [of clip_start "Inl NetworkError" "\<lambda>_. []"] by (simp add: saved_file_def)

end
