(* ===== verification/Page.thy ===== *)
theory Page
  imports Clipboard
begin

text \<open>
  The whole page (\<open>app/webui/app.js\<close>): the handlers of \<open>htmx:beforeSwap\<close> and \<open>htmx:afterSwap\<close> as
  they run one after the other on every swap, with the details panel of the operations they keep
  open, the two synchronisations they start without waiting for them, and the end of the script,
  which starts the page.
\<close>

section \<open>State\<close>

text \<open>A synchronisation that has been started without \<open>await\<close> and has not been answered.\<close>

datatype sync_call = LanguagesCall | CleanupCall

text \<open>\<open>activity_details\<close> is the \<open>open\<close> of the details panel in \<open>#operations\<close>, \<open>None\<close> when there is
  none.\<close>

record app_page = clip_page +
  activity_details :: "bool option"
  performanceDetailsOpen :: bool
  sync_calls :: "sync_call list"

section \<open>Synchronising the test panel\<close>

definition sync_panel :: "'a app_page_scheme \<Rightarrow> 'a app_page_scheme" where
  "sync_panel p =
     (case syncTestLanguages_start p of
        (asked, p1) \<Rightarrow>
          let p2 = (if asked then p1\<lparr>sync_calls := sync_calls p1 @ [LanguagesCall]\<rparr> else p1)
          in case syncTestCleanup_start p2 of
               (asked2, p3) \<Rightarrow>
                 if asked2 then p3\<lparr>sync_calls := sync_calls p3 @ [CleanupCall]\<rparr> else p3)"

definition sync_reply :: "nat \<Rightarrow> reply result \<Rightarrow> 'a app_page_scheme \<Rightarrow> 'a app_page_scheme" where
  "sync_reply k outcome p =
     (if length (sync_calls p) \<le> k then p
      else
        let p1 = p\<lparr>sync_calls := take k (sync_calls p) @ drop (Suc k) (sync_calls p)\<rparr>
        in case sync_calls p ! k of
             LanguagesCall \<Rightarrow> syncTestLanguages_finish True outcome p1
           | CleanupCall \<Rightarrow> syncTestCleanup_finish True outcome p1)"

section \<open>Swaps\<close>

text \<open>The target of the event: its identity and its id.\<close>

type_synonym swap_target = "(nat \<times> jsstring) option"

definition target_is :: "string \<Rightarrow> swap_target \<Rightarrow> bool" where
  "target_is i t = (case t of None \<Rightarrow> False | Some (_, j) \<Rightarrow> j = js i)"

definition before_swap :: "swap_target \<Rightarrow> 'a app_page_scheme \<Rightarrow> 'a app_page_scheme" where
  "before_swap t p =
     (let p1 = (if target_is ''operations'' t then p\<lparr>performanceDetailsOpen := (activity_details p = Some True)\<rparr> else p)
      in if target_is ''models-list'' t then list_beforeSwap p1 else p1)"

definition restore_details :: "'a app_page_scheme \<Rightarrow> 'a app_page_scheme" where
  "restore_details p = p\<lparr>activity_details := map_option (\<lambda>_. performanceDetailsOpen p) (activity_details p)\<rparr>"

text \<open>The three listeners in the order of their registration: the exposure banner's, the large one, and
  the detail dialog's.\<close>

definition after_swap :: "swap_target \<Rightarrow> nat \<Rightarrow> 'a app_page_scheme \<Rightarrow> 'a app_page_scheme" where
  "after_swap t now p =
     (let p1 = exposure_afterSwap t now p;
          p2 = (if target_is ''operations'' t then restore_details p1 else p1);
          p3 = scheduleModelPoll 400 p2;
          p4 = (if get_el p3 (js ''test-language'') = None then p3 else sync_panel p3);
          p5 = (if target_is ''panel'' t \<or> target_is ''models-list'' t then initModelFilters p4 else p4);
          p6 = (if target_is ''models-list'' t then list_afterSwap p5 else p5)
      in detail_afterSwap (map_option snd t) p6)"

text \<open>What htmx puts into the page between the two events: a list with new families and cards, or
  operations with or without a details panel, which comes closed.\<close>

definition deliver_models :: "jsstring list \<Rightarrow> card list \<Rightarrow> 'a app_page_scheme \<Rightarrow> 'a app_page_scheme" where
  "deliver_models names cs p = deliver_list names (p\<lparr>cards := cs\<rparr>)"

definition deliver_operations :: "bool \<Rightarrow> 'a app_page_scheme \<Rightarrow> 'a app_page_scheme" where
  "deliver_operations with_details p = p\<lparr>activity_details := (if with_details then Some False else None)\<rparr>"

section \<open>Starting the page\<close>

definition start_page :: "bool \<Rightarrow> media_api \<Rightarrow> nat \<Rightarrow> jsstring \<Rightarrow> 'a app_page_scheme \<Rightarrow> 'a app_page_scheme" where
  "start_page dark api now hash p =
     start_tab hash (start_token (sync_panel (applyExposureBanner None now (initTheme dark api p))))"

section \<open>What the handlers leave alone\<close>

text \<open>The families with the grid, and what is saved of them over a swap.\<close>

definition grid_view :: "'a grid_page_scheme \<Rightarrow> _" where
  "grid_view p = (fams p, grid_kids p, grid_columns p, open_saved p, scroll_y p, scroll_saved p, frames p)"

lemma grid_view_upd_el [simp]: "grid_view (upd_el i f p) = grid_view p"
  by (simp add: grid_view_def upd_el_def)

lemma grid_view_send [simp]: "grid_view (send r p) = grid_view p"
  by (simp add: grid_view_def send_def)

lemma grid_view_store [simp]: "grid_view (set_item k v p) = grid_view p"
  by (simp add: grid_view_def set_item_def)

lemma grid_view_fields [simp]:
  "grid_view (p\<lparr>sync_calls := s\<rparr>) = grid_view p" "grid_view (x\<lparr>rail_label := l\<rparr>) = grid_view x"
  "grid_view (x\<lparr>listeners := n\<rparr>) = grid_view x" "grid_view (x\<lparr>resize_bound := b\<rparr>) = grid_view x"
  "grid_view (x\<lparr>views := v\<rparr>) = grid_view x" "grid_view (x\<lparr>filter_form := f\<rparr>) = grid_view x"
  by (simp_all add: grid_view_def)

lemma grid_view_sched [simp]: "grid_view (scheduleModelPoll d p) = grid_view p"
  by (simp add: scheduleModelPoll_def Let_def grid_view_def start_timer_def stop_timer_def split: option.split)

lemma grid_view_sync [simp]: "grid_view (sync_panel p) = grid_view p"
  by (simp add: sync_panel_def syncTestLanguages_start_def syncTestCleanup_start_def Let_def)

lemma grid_view_chrome [simp]: "grid_view (updateFilterChrome p) = grid_view p"
  by (simp add: updateFilterChrome_def Let_def)

lemma grid_view_toggle [simp]: "grid_view (syncFamiliesExpandToggle p) = grid_view p"
  by (simp add: syncFamiliesExpandToggle_def setExpandToggleState_def Let_def)

lemma grid_view_rail [simp]: "grid_view (setFilterRailCollapsed c p) = grid_view p"
  by (simp add: setFilterRailCollapsed_def Let_def store_rail_def)

lemma grid_view_bind [simp]: "grid_view (bind_once i a p) = grid_view p"
  by (simp add: bind_once_def split: option.split)

lemma grid_view_init [simp]: "grid_view (initModelFilters p) = grid_view p"
  by (simp add: initModelFilters_def Let_def syncModelViews_def upd_form_def)

text \<open>The timers, which only the scheduling changes.\<close>

lemma timers_filters:
  "timers (bind_once i a p) = timers p" "timers (setFilterRailCollapsed c p) = timers p"
  "timers (updateFilterChrome p) = timers p" "timers (syncFamiliesExpandToggle p) = timers p"
  "timers (syncModelViews p) = timers p" "timers (upd_form f p) = timers p"
  "timers (p\<lparr>resize_bound := b, listeners := n\<rparr>) = timers p"
  by (simp_all add: bind_once_def setFilterRailCollapsed_def Let_def store_rail_def updateFilterChrome_def
      syncFamiliesExpandToggle_def setExpandToggleState_def syncModelViews_def upd_form_def split: option.split)

lemma timers_init [simp]: "timers (initModelFilters p) = timers p"
  unfolding initModelFilters_def Let_def by (simp only: timers_filters if_distrib [of timers] if_cancel)

lemma timers_sync [simp]: "timers (sync_panel p) = timers p"
  by (simp add: sync_panel_def syncTestLanguages_start_def syncTestCleanup_start_def Let_def)

lemma timers_list_afterSwap [simp]: "timers (list_afterSwap p) = timers p"
proof -
  have "timers (restoreOpenFamilies ns x) = timers x" for ns and x :: "'a grid_page_scheme"
    using rest_open_loop [of "\<lambda>q i. fam_name (fams q ! i) \<in> set ns" True x "rev (familyTiles x)"]
    by (simp add: restoreOpenFamilies_def rest_eq_def)
  then show ?thesis by (simp add: list_afterSwap_def Let_def split: option.split)
qed

section \<open>Swaps of the list and of the operations\<close>

lemma target_is_other: "i \<noteq> j \<Longrightarrow> target_is i (Some (r, js j)) = False"
  by (auto simp: target_is_def js_eq_iff)

lemma sched_pending:
  assumes "slot_ok (timers p) is_poll (poll_timer p)"
  shows "(\<exists>h d. timers (scheduleModelPoll n p) h = Some (PollModels, d)) \<longleftrightarrow> downloading (cards p) \<noteq> [] \<and> visible p"
proof -
  have "\<forall>h d. timers (stop_timer (poll_timer p) p) h \<noteq> Some (PollModels, d)"
    using tm.slot_stop_empty [OF assms] by (auto simp: slot_ok_def is_poll_def)
  then show ?thesis by (auto simp: scheduleModelPoll_def Let_def start_timer_def stop_timer_def split: option.splits)
qed

lemma details_sched: "activity_details (scheduleModelPoll d p) = activity_details p"
  by (simp add: scheduleModelPoll_def Let_def start_timer_def stop_timer_def split: option.split)

lemma details_sync: "activity_details (sync_panel p) = activity_details p"
  by (simp add: sync_panel_def syncTestLanguages_start_def syncTestCleanup_start_def Let_def send_def)

text \<open>The list part of a swap sees the page through \<open>grid_view\<close> only.\<close>

lemma list_swap_view:
  assumes "grid_view x = grid_view (deliver_list names (list_beforeSwap p))"
  shows "laid_out (list_afterSwap x) \<and> length (fams (list_afterSwap x)) = length names \<and>
    (\<forall>j < length names. isFamilyOpen (list_afterSwap x) j \<longleftrightarrow> names ! j \<in> set (openFamilyNames p)) \<and>
    frames (list_afterSwap x) = frames p @ [RestoreScroll (scroll_y p) True]"
proof -
  let ?p = "x\<lparr>fams := fams p, grid_kids := grid_kids p\<rparr>"
  have o: "openFamilyNames ?p = openFamilyNames p"
    by (simp add: openFamilyNames_def familyTiles_def isFamilyOpen_def)
  have x: "fams x = map delivered_tile names" "grid_kids x = delivered_kids (length names)"
    "open_saved x = Some (openFamilyNames p)" "scroll_y x = scroll_y p" "scroll_saved x = Some (scroll_y p)"
    "frames x = frames p"
    using assms by (simp_all add: grid_view_def deliver_list_def list_beforeSwap_def)
  then have "x = deliver_list names (list_beforeSwap ?p)"
    using o by (simp add: deliver_list_def list_beforeSwap_def)
  then have "list_afterSwap x = grid_step ?p (ListSwap names)" by simp
  with list_swap_laid_out [of ?p names] show ?thesis by (simp add: o x)
qed

text \<open>A swap of the list, through all the handlers: what the list part starts from.\<close>

definition models_target :: "nat \<Rightarrow> swap_target" where
  "models_target r = Some (r, js ''models-list'')"

lemma models_swap_shape:
  fixes p :: "'a app_page_scheme" and names :: "jsstring list" and cs :: "card list" and r now :: nat
  defines "d \<equiv> deliver_models names cs (list_beforeSwap p)"
  obtains x where
    "after_swap (models_target r) now (deliver_models names cs (before_swap (models_target r) p)) = list_afterSwap x"
    and "grid_view x = grid_view (deliver_list names (list_beforeSwap p))"
    and "timers x = timers (scheduleModelPoll 400 d)"
proof -
  have t: "target_is i (models_target r) = (i = ''models-list'')" for i
    by (auto simp: models_target_def target_is_def js_eq_iff)
  define x where "x = initModelFilters (if get_el (scheduleModelPoll 400 d) (js ''test-language'') = None
    then scheduleModelPoll 400 d else sync_panel (scheduleModelPoll 400 d))"
  have "exposure_afterSwap (models_target r) now y = y" for y :: "'a app_page_scheme"
    by (simp add: exposure_afterSwap_def models_target_def js_eq_iff)
  moreover have "detail_afterSwap (map_option snd (models_target r)) y = y" for y :: "'a app_page_scheme"
    by (simp add: detail_afterSwap_def models_target_def js_eq_iff)
  ultimately have "after_swap (models_target r) now (deliver_models names cs (before_swap (models_target r) p)) =
      list_afterSwap x"
    by (simp add: after_swap_def before_swap_def t Let_def x_def d_def)
  moreover have "grid_view d = grid_view (deliver_list names (list_beforeSwap p))"
    by (simp add: d_def grid_view_def deliver_models_def deliver_list_def)
  then have "grid_view x = grid_view (deliver_list names (list_beforeSwap p))" by (simp add: x_def)
  moreover have "timers x = timers (scheduleModelPoll 400 d)" by (simp add: x_def)
  ultimately show thesis using that by blast
qed

lemma models_swap_laid_out:
  "laid_out (after_swap (models_target r) now (deliver_models names cs (before_swap (models_target r) p)))"
  using models_swap_shape list_swap_view by metis

text \<open>C36.  A refresh of the model list, through all the handlers that run on it, keeps what the operator
  sees: the families that were open are open again and laid out, the window will be scrolled back,
  and a poll is scheduled exactly if a delivered card is downloading on a visible page, however
  the earlier one stood.  A refresh of the operations keeps their details open or closed.\<close>

theorem swaps_keep_view:
  fixes p :: "'a app_page_scheme" and names :: "jsstring list" and cs :: "card list" and r now :: nat and d :: bool
  assumes "poll_inv p"
  defines "t \<equiv> Some (r, js ''models-list'')" and "o' \<equiv> Some (r, js ''operations'')"
  defines "q \<equiv> after_swap t now (deliver_models names cs (before_swap t p))"
    and "u \<equiv> after_swap o' now (deliver_operations d (before_swap o' p))"
  shows "(\<forall>j < length names. isFamilyOpen q j \<longleftrightarrow> names ! j \<in> set (openFamilyNames p)) \<and> laid_out q \<and>
    frames q = frames p @ [RestoreScroll (scroll_y p) True] \<and>
    ((\<exists>h d. timers q h = Some (PollModels, d)) \<longleftrightarrow> downloading cs \<noteq> [] \<and> visible p) \<and>
    activity_details u = (if d then Some (activity_details p = Some True) else None)"
proof -
  let ?d = "deliver_models names cs (list_beforeSwap p)"
  have t: "target_is i o' = (i = ''operations'')" for i by (auto simp: o'_def target_is_def js_eq_iff)
  obtain x where x: "q = list_afterSwap x" "grid_view x = grid_view (deliver_list names (list_beforeSwap p))"
    "timers x = timers (scheduleModelPoll 400 ?d)"
    unfolding q_def t_def models_target_def [symmetric] by (rule models_swap_shape)
  have v: "laid_out q" "length (fams q) = length names"
    "\<forall>j < length names. isFamilyOpen q j \<longleftrightarrow> names ! j \<in> set (openFamilyNames p)"
    "frames q = frames p @ [RestoreScroll (scroll_y p) True]"
    using list_swap_view [OF x(2)] by (simp_all add: x(1))
  have "timers q = timers (scheduleModelPoll 400 ?d)" by (simp add: x)
  moreover have "slot_ok (timers ?d) is_poll (poll_timer ?d)"
    using assms(1) by (simp add: poll_inv_def deliver_models_def deliver_list_def list_beforeSwap_def)
  ultimately have "(\<exists>h d. timers q h = Some (PollModels, d)) \<longleftrightarrow> downloading cs \<noteq> [] \<and> visible p"
    using sched_pending [of ?d 400] by (simp add: deliver_models_def deliver_list_def list_beforeSwap_def)
  moreover have "activity_details u = (if d then Some (activity_details p = Some True) else None)"
  proof -
    have "exposure_afterSwap o' now y = y" for y :: "'a app_page_scheme"
      by (simp add: exposure_afterSwap_def o'_def js_eq_iff)
    moreover have "detail_afterSwap (map_option snd o') y = y" for y :: "'a app_page_scheme"
      by (simp add: detail_afterSwap_def o'_def js_eq_iff)
    ultimately show ?thesis
      by (simp add: u_def after_swap_def before_swap_def t Let_def details_sched details_sync restore_details_def
          deliver_operations_def)
  qed
  ultimately show ?thesis using v by blast
qed

section \<open>The start of the page\<close>

text \<open>What startup decides is kept by the later parts of it.\<close>

lemma shows_theme_cong:
  assumes "doc_el q = doc_el p" "\<And>i. i \<notin> {js ''exposure-banner'', js ''panel''} \<Longrightarrow> get_el q i = get_el p i"
  shows "shows_theme dark pref q = shows_theme dark pref p"
  using assms by (simp add: shows_theme_def attr_is_def js_eq_iff)

lemma page_sync [simp]:
  "doc_el (sync_panel p) = doc_el p" "get_el (sync_panel p) i = get_el p i" "store (sync_panel p) = store p"
  "overlay (sync_panel p) = overlay p" "background (sync_panel p) = background p" "toast (sync_panel p) = toast p"
  "tab_els (sync_panel p) = tab_els p" "url_hash (sync_panel p) = url_hash p"
proof -
  have f: "get_el (x\<lparr>sync_calls := s\<rparr>) i = get_el x i" for x :: "'a app_page_scheme" and s
    by (simp add: get_el_def)
  show "doc_el (sync_panel p) = doc_el p" "get_el (sync_panel p) i = get_el p i" "store (sync_panel p) = store p"
    "overlay (sync_panel p) = overlay p" "background (sync_panel p) = background p" "toast (sync_panel p) = toast p"
    "tab_els (sync_panel p) = tab_els p" "url_hash (sync_panel p) = url_hash p"
    by (simp_all add: sync_panel_def syncTestLanguages_start_def syncTestCleanup_start_def Let_def f)
      (simp_all add: send_def)
qed

lemma page_banner [simp]:
  "doc_el (applyExposureBanner r now p) = doc_el p" "store (applyExposureBanner r now p) = store p"
  "overlay (applyExposureBanner r now p) = overlay p" "background (applyExposureBanner r now p) = background p"
  "toast (applyExposureBanner r now p) = toast p" "tab_els (applyExposureBanner r now p) = tab_els p"
  "url_hash (applyExposureBanner r now p) = url_hash p"
  "i \<noteq> js ''exposure-banner'' \<Longrightarrow> get_el (applyExposureBanner r now p) i = get_el p i"
  by (simp_all add: applyExposureBanner_def Let_def split: option.split prod.split)

lemma get_el_bound: "get_el (p\<lparr>toggle_bound := b\<rparr>) i = get_el p i" "get_el (p\<lparr>media_bound := b\<rparr>) i = get_el p i"
  by (simp_all add: get_el_def)

lemma page_theme [simp]:
  "store (initTheme dark api p) = store p" "overlay (initTheme dark api p) = overlay p"
  "background (initTheme dark api p) = background p" "toast (initTheme dark api p) = toast p"
  "tab_els (initTheme dark api p) = tab_els p" "url_hash (initTheme dark api p) = url_hash p"
  "get_el (initTheme dark api p) (js ''exposure-banner'') = get_el p (js ''exposure-banner'')"
proof -
  show "get_el (initTheme dark api p) (js ''exposure-banner'') = get_el p (js ''exposure-banner'')"
    by (cases api) (simp_all add: initTheme_def Let_def applyTheme_def setFavicon_def js_eq_iff get_el_bound)
  show "store (initTheme dark api p) = store p" "overlay (initTheme dark api p) = overlay p"
    "background (initTheme dark api p) = background p" "toast (initTheme dark api p) = toast p"
    "tab_els (initTheme dark api p) = tab_els p" "url_hash (initTheme dark api p) = url_hash p"
    by (cases api; simp add: initTheme_def Let_def applyTheme_def setFavicon_def upd_doc_def)+
qed

lemma page_token [simp]:
  "doc_el (start_token p) = doc_el p" "tab_els (start_token p) = tab_els p" "url_hash (start_token p) = url_hash p"
  "i \<noteq> js ''exposure-banner'' \<Longrightarrow> get_el (start_token p) i = get_el p i"
  "banner_hidden (start_token p) = banner_hidden p"
proof -
  show "doc_el (start_token p) = doc_el p" "tab_els (start_token p) = tab_els p" "url_hash (start_token p) = url_hash p"
    "i \<noteq> js ''exposure-banner'' \<Longrightarrow> get_el (start_token p) i = get_el p i"
    by (simp_all add: start_token_def showOverlay_def setBackgroundInert_def Let_def)
      (simp_all add: page_defs)
  show "banner_hidden (start_token p) = banner_hidden p"
    by (auto simp: start_token_def showOverlay_def setBackgroundInert_def banner_hidden_def page_defs option.map_comp comp_def
        split: option.split)
qed

lemma page_start_tab [simp]:
  "doc_el (start_tab hash p) = doc_el p" "overlay (start_tab hash p) = overlay p"
  "background (start_tab hash p) = background p" "toast (start_tab hash p) = toast p"
  "url_hash (start_tab hash p) = url_hash p"
  "i \<noteq> js ''panel'' \<Longrightarrow> get_el (start_tab hash p) i = get_el p i"
proof -
  have a: "doc_el (activateTab t False p) = doc_el p" "overlay (activateTab t False p) = overlay p"
    "background (activateTab t False p) = background p" "toast (activateTab t False p) = toast p"
    "url_hash (activateTab t False p) = url_hash p"
    "i \<noteq> js ''panel'' \<Longrightarrow> get_el (activateTab t False p) i = get_el p i" for t i
    by (simp_all add: activateTab_def Let_def get_el_def upd_el_def split: option.split)
  show "doc_el (start_tab hash p) = doc_el p" "overlay (start_tab hash p) = overlay p"
    "background (start_tab hash p) = background p" "toast (start_tab hash p) = toast p"
    "url_hash (start_tab hash p) = url_hash p"
    "i \<noteq> js ''panel'' \<Longrightarrow> get_el (start_tab hash p) i = get_el p i"
    by (simp_all add: start_tab_def Let_def a split: option.split)
qed

text \<open>The element with id \<open>exposure-banner\<close> of \<open>index.html\<close>: a placeholder until the gateway's banner
  arrives.\<close>

definition placeholder :: "elem \<Rightarrow> bool" where
  "placeholder b \<longleftrightarrow> el_attrs b (js ''data-empty'') = Some (js ''1'')"

lemma apply_placeholder:
  "get_el p (js ''exposure-banner'') = Some b \<Longrightarrow> placeholder b \<Longrightarrow> applyExposureBanner None now p = p"
  by (simp add: applyExposureBanner_def placeholder_def)

text \<open>C37.  The end of the script turns the page as it is delivered, with the placeholder for the exposure
  banner, into one that fits what the browser has stored: the stored theme is shown, resolved
  against the system; the token dialog is open exactly if there is no token, and the page behind it
  inert exactly then; one tab is active, and the address is not touched.  The placeholder is as it
  was delivered (the call of \<open>applyExposureBanner\<close> does nothing to it), whatever dismissal is stored.\<close>

theorem page_starts_ready:
  assumes "modal p" "\<not> overlay_open p"
    and "get_el p (js ''exposure-banner'') = Some b" "placeholder b" "\<exists>t \<in> set (tab_els p). tab_active t"
    and "q = start_page dark api now hash p"
  shows "shows_theme dark (readThemePreference p) q \<and>
    banner_hidden q = Some (el_hidden b) \<and>
    modal q \<and> (overlay_open q \<longleftrightarrow> getToken p = []) \<and>
    (\<exists>k. shows_tab k q) \<and> url_hash q = url_hash p"
proof -
  define p1 where "p1 = initTheme dark api p"
  define p2 where "p2 = applyExposureBanner None now p1"
  define p3 where "p3 = start_token (sync_panel p2)"
  have q: "q = start_tab hash p3" by (simp add: assms(6) start_page_def p1_def p2_def p3_def)
  have "shows_theme dark (readThemePreference p) p1"
    using shows_theme_applyTheme [of dark "readThemePreference p" p]
    by (cases api) (simp_all add: p1_def initTheme_def Let_def shows_theme_def attr_is_def get_el_bound)
  moreover have "shows_theme dark pref q = shows_theme dark pref p1" for pref
    by (rule shows_theme_cong) (simp_all add: q p3_def p2_def)
  ultimately have theme: "shows_theme dark (readThemePreference p) q" by simp
  have p2: "p2 = p1"
    unfolding p2_def using assms(3,4) by (intro apply_placeholder) (simp_all add: p1_def)
  have "banner_hidden q = banner_hidden p2"
    unfolding q p3_def banner_hidden_def
    using page_token(5) [of "sync_panel p2"] by (simp add: banner_hidden_def js_eq_iff)
  then have banner: "banner_hidden q = Some (el_hidden b)"
    using assms(3) by (simp add: banner_hidden_def p2 p1_def)
  have "getToken (sync_panel p2) = getToken p" by (simp add: getToken_def get_item_def p2_def p1_def)
  moreover have "overlay_open (sync_panel p2) = overlay_open p" by (simp add: overlay_open_def p2_def p1_def)
  moreover have "overlay_open q = overlay_open p3" by (simp add: q overlay_open_def)
  ultimately have token: "overlay_open q \<longleftrightarrow> getToken p = []"
    using assms(2) by (simp add: p3_def start_token_def)
  have "modal p1" using assms(1) by (simp add: modal_def overlay_open_def p1_def)
  then have "modal p2" by (simp add: p2)
  then have "modal (sync_panel p2)" by (simp add: modal_def overlay_open_def)
  then have "modal p3" by (simp add: p3_def start_token_def modal_showOverlay)
  then have "modal q" by (simp add: modal_def q overlay_open_def js_eq_iff)
  moreover have "some_tab_shown q"
    unfolding q by (rule start_tab_shown) (use assms(5) in \<open>simp add: p3_def p2_def p1_def\<close>)
  moreover have "url_hash q = url_hash p" by (simp add: q p3_def p2_def p1_def)
  ultimately show ?thesis using theme banner token by (simp add: some_tab_shown_def)
qed

section \<open>Examples\<close>

definition app_start :: app_page where
  "app_start = clip_page.extend clip_start
     \<lparr>activity_details = Some True, performanceDetailsOpen = False, sync_calls = []\<rparr>"

lemmas start_pages = app_start_def clip_page.defs clip_start_def rec_page.defs rec_start_def test_page.defs
  test_start_def poll_page.defs poll_start_def dialog_page.defs dialog_start_def filter_page.defs
  filter_start_def grid_page.defs grid_start_def view_page.defs view_start_def shell_page.defs

lemma app_start_simps [simp]:
  "activity_details app_start = Some True" "fams app_start = []" "frames app_start = []" "visible app_start"
  "tab_els app_start = index_tabs" "toast app_start = toast shell_start" "overlay app_start = overlay shell_start"
  "background app_start = background shell_start" "timers app_start = (\<lambda>_. None)"
  "get_el app_start (js ''exposure-banner'') = Some blank" "store app_start = (\<lambda>_. None)"
  by (simp_all add: start_pages get_el_def js_eq_iff shell_start_def tabs_page.defs tabs_start_def
      banner_page.defs banner_start_def)

theorem swaps_keep_view_witness:
  "activity_details (after_swap (Some (3, js ''operations'')) 0 (deliver_operations True
     (before_swap (Some (3, js ''operations'')) app_start))) = Some True"
proof -
  have "poll_inv app_start"
    using poll_inv_start by (simp add: poll_inv_def timers_ok_def slot_ok_def)
  from swaps_keep_view [OF this, of "[js ''A'']" 3 0 "[]" True] show ?thesis by simp
qed

definition delivered_page :: app_page where
  "delivered_page = upd_el (js ''exposure-banner'')
     (\<lambda>e. set_attr (js ''data-empty'') (js ''1'') (set_hidden True e)) app_start"

theorem page_starts_ready_witness:
  "overlay_open (start_page False AddEventListener 7 (js ''test'') delivered_page) \<and>
   banner_hidden (start_page False AddEventListener 7 (js ''test'') delivered_page) = Some True \<and>
   (\<exists>k. shows_tab k (start_page False AddEventListener 7 (js ''test'') delivered_page))"
proof -
  have same: "overlay delivered_page = overlay app_start" "background delivered_page = background app_start"
    "tab_els delivered_page = tab_els app_start" "store delivered_page = store app_start" "toast delivered_page = toast app_start"
    unfolding delivered_page_def upd_el_def by simp_all
  let ?b = "set_attr (js ''data-empty'') (js ''1'') (set_hidden True blank)"
  have b: "get_el delivered_page (js ''exposure-banner'') = Some ?b" "placeholder ?b" "el_hidden ?b"
    by (simp_all add: delivered_page_def placeholder_def set_attr_def set_hidden_def)
  have "overlay_open delivered_page = overlay_open app_start" by (simp only: overlay_open_def same)
  then have closed: "\<not> overlay_open delivered_page"
    by (simp add: overlay_open_def class_add_def set_attr_def has_class_def)
  moreover have "modal app_start"
    by (simp add: modal_def overlay_open_def class_add_def set_attr_def has_class_def js_bool_def blank_def)
  then have "modal delivered_page"
    unfolding modal_def same b(1) using \<open>overlay_open delivered_page = _\<close>
    by (simp add: set_attr_def set_hidden_def blank_def)
  moreover have "\<exists>t \<in> set (tab_els delivered_page). tab_active t" by (simp add: index_tabs_def page_tab_def same)
  moreover have "getToken delivered_page = []" by (simp add: getToken_def get_item_def same)
  ultimately show ?thesis
    using page_starts_ready [of delivered_page ?b _ False AddEventListener 7 "js ''test''", OF _ _ b(1,2) _ refl] b(3) by metis
qed

end
