(* ===== verification/Frames.thy ===== *)
theory Frames
  imports Page
begin

text \<open>
  What each operation of the page leaves alone.  The state that the invariants of the components
  speak of is cut into parts, one for each component; \<open>changes_only F p q\<close> says that nothing but
  the parts in \<open>F\<close> differs between two states, and \<open>touches C p q\<close> that of the timers only
  those were started or stopped whose callback is in \<open>C\<close>.  Both compose, so a handler's footprint
  follows from those of the functions it calls.
\<close>

section \<open>Parts of the page\<close>

datatype part = ThemeP | TabsP | ModalP | ToastP | GridP | DialogsP | PollP | HintsP | RecP | ResizeP | IntervalP | TimeP
  | BannerP

definition theme_ids :: "jsstring list" where
  "theme_ids = [js ''meta-theme-color'', js ''favicon'', js ''apple-touch-icon'', js ''theme-toggle'']"

definition theme_part :: "'a theme_page_scheme \<Rightarrow> _" where
  "theme_part p = (media_bound p, get_item p THEME_KEY, doc_el p, map (get_el p) theme_ids)"

definition modal_part :: "'a shell_page_scheme \<Rightarrow> _" where
  "modal_part p = (overlay p, background p, el_inert (toast p))"

definition toast_part :: "'a shell_page_scheme \<Rightarrow> _" where
  "toast_part p = (has_class (js ''hidden'') (toast p), toast_timer p)"

definition grid_part :: "'a grid_page_scheme \<Rightarrow> _" where
  "grid_part p = (fams p, grid_kids p, grid_columns p, frames p)"

definition poll_part :: "'a poll_page_scheme \<Rightarrow> _" where
  "poll_part p = (downloading (cards p) \<noteq> [], visible p, poll_timer p)"

definition rec_part :: "'a rec_page_scheme \<Rightarrow> _" where
  "rec_part p = (recorders p, next_recorder p, recorder p, starts p, orphan_streams p)"

fun kept :: "part \<Rightarrow> 'a app_page_scheme \<Rightarrow> 'a app_page_scheme \<Rightarrow> bool" where
  "kept ThemeP p q = (theme_part q = theme_part p)"
| "kept TabsP p q = (tab_els q = tab_els p)"
| "kept ModalP p q = (modal_part q = modal_part p)"
| "kept ToastP p q = (toast_part q = toast_part p)"
| "kept GridP p q = (grid_part q = grid_part p)"
| "kept DialogsP p q = (dialogs q = dialogs p)"
| "kept PollP p q = (poll_part q = poll_part p)"
| "kept HintsP p q = (pair_buttons q = pair_buttons p)"
| "kept RecP p q = (rec_part q = rec_part p)"
| "kept ResizeP p q = (resize_timer q = resize_timer p)"
| "kept IntervalP p q = (recordingTimer q = recordingTimer p)"
| "kept TimeP p q = (timers q = timers p \<and> next_timer q = next_timer p)"
| "kept BannerP p q = (banner_hidden q = banner_hidden p)"

definition changes_only :: "part set \<Rightarrow> 'a app_page_scheme \<Rightarrow> 'a app_page_scheme \<Rightarrow> bool" where
  "changes_only F p q \<longleftrightarrow> (\<forall>x. x \<notin> F \<longrightarrow> kept x p q)"

lemmas part_defs = theme_part_def modal_part_def toast_part_def grid_part_def poll_part_def rec_part_def
  banner_hidden_def

text \<open>The elements whose state belongs to a part.\<close>

definition part_ids :: "part \<Rightarrow> jsstring set" where
  "part_ids x = (if x = ThemeP then set theme_ids else if x = BannerP then {js ''exposure-banner''} else {})"

lemma kept_refl [simp]: "kept x p p"
  by (cases x) simp_all

lemma kept_trans: "kept x p q \<Longrightarrow> kept x q r \<Longrightarrow> kept x p r"
  by (cases x) simp_all

lemma changes_only_refl [simp]: "changes_only F p p"
  by (simp add: changes_only_def)

lemma changes_only_trans:
  "changes_only F p q \<Longrightarrow> changes_only F q r \<Longrightarrow> changes_only F p r"
  unfolding changes_only_def using kept_trans by blast

lemma changes_only_mono: "changes_only F p q \<Longrightarrow> F \<subseteq> G \<Longrightarrow> changes_only G p q"
  unfolding changes_only_def by blast

lemma changes_onlyI: "(\<And>x. x \<notin> F \<Longrightarrow> kept x p q) \<Longrightarrow> changes_only F p q"
  by (simp add: changes_only_def)

section \<open>Timers\<close>

text \<open>A variable whose handle, if it is still pending, is that of a callback in \<open>C\<close>.\<close>

definition holds :: "(callback \<Rightarrow> bool) \<Rightarrow> 'a page_scheme \<Rightarrow> nat option \<Rightarrow> bool" where
  "holds C p ho \<longleftrightarrow> (\<forall>h. ho = Some h \<longrightarrow> h < next_timer p \<and> (\<forall>c. timers p h = Some c \<longrightarrow> C (fst c)))"

definition touches :: "(callback \<Rightarrow> bool) \<Rightarrow> 'a page_scheme \<Rightarrow> 'a page_scheme \<Rightarrow> bool" where
  "touches C p q \<longleftrightarrow> timers_ok q \<and> next_timer p \<le> next_timer q \<and>
     (\<forall>h c d. \<not> C c \<longrightarrow> (timers q h = Some (c, d) \<longleftrightarrow> timers p h = Some (c, d))) \<and>
     (\<forall>h < next_timer p. \<forall>x. timers q h = Some x \<longrightarrow> timers p h = Some x)"

lemma owns_holds: "owns p f ho \<longleftrightarrow> holds (\<lambda>c. c = f) p ho"
  by (simp add: owns_def holds_def)

lemma touches_ok: "touches C p q \<Longrightarrow> timers_ok q"
  by (simp add: touches_def)

lemma touches_trans: "touches C p q \<Longrightarrow> touches C q r \<Longrightarrow> touches C p r"
  unfolding touches_def by (auto 0 3)

lemma touches_mono: "touches C p q \<Longrightarrow> (\<And>c. C c \<Longrightarrow> D c) \<Longrightarrow> touches D p q"
  unfolding touches_def by blast

lemma touches_same: "timers_ok p \<Longrightarrow> timers q = timers p \<Longrightarrow> next_timer q = next_timer p \<Longrightarrow> touches C p q"
  by (simp add: touches_def timers_ok_def)

lemma touches_start: "timers_ok p \<Longrightarrow> C (fst c) \<Longrightarrow> start_timer c p = (q, h) \<Longrightarrow> touches C p q"
  using timers_ok_fresh [of p] timers_ok_start [of p c q h]
  by (auto simp: touches_def start_timer_def split: if_splits)

lemma touches_stop: "timers_ok p \<Longrightarrow> holds C p ho \<Longrightarrow> touches C p (stop_timer ho p)"
  using timers_ok_stop [of p ho] by (fastforce simp: touches_def holds_def stop_timer_def split: option.split)

lemma touches_restart:
  assumes "timers_ok p" "holds C p ho" "C (fst c)" "restart_timer ho c p = (q, h)"
  shows "touches C p q" "holds C q (Some h)"
proof -
  have s: "touches C p (stop_timer ho p)" by (rule touches_stop [OF assms(1,2)])
  with assms(3,4) show "touches C p q"
    unfolding restart_timer_def by (blast intro: touches_trans touches_start touches_ok)
  show "holds C q (Some h)" using assms(3,4) by (auto simp: holds_def restart_timer_eq)
qed

lemma holds_touched: "touches D p q \<Longrightarrow> holds C p ho \<Longrightarrow> holds C q ho"
  by (fastforce simp: touches_def holds_def)

lemma slot_touched:
  assumes "touches D p q" "\<And>c. K c \<Longrightarrow> \<not> D (fst c)"
  shows "slot_ok (timers q) K ho = slot_ok (timers p) K ho"
proof -
  have "timers q h = Some c \<longleftrightarrow> timers p h = Some c" if "K c" for h c
    using assms(1) assms(2) [OF that] by (cases c) (auto simp: touches_def)
  then show ?thesis unfolding slot_ok_def by blast
qed

lemma pending_touched: "touches D p q \<Longrightarrow> \<not> D c \<Longrightarrow> timers q h = Some (c, d) \<longleftrightarrow> timers p h = Some (c, d)"
  by (simp add: touches_def)

section \<open>Footprints of the operations\<close>

lemma part_ids_js [simp]:
  "js s \<in> part_ids x \<longleftrightarrow> x = ThemeP \<and> s \<in> {''meta-theme-color'', ''favicon'', ''apple-touch-icon'', ''theme-toggle''} \<or>
     x = BannerP \<and> s = ''exposure-banner''"
  by (auto simp: part_ids_def theme_ids_def js_eq_iff)

lemma theme_keys [simp]:
  "TOKEN_KEY \<noteq> THEME_KEY" "EXPOSURE_DISMISS_KEY \<noteq> THEME_KEY" "FILTER_RAIL_KEY \<noteq> THEME_KEY"
  by (simp_all add: TOKEN_KEY_def THEME_KEY_def EXPOSURE_DISMISS_KEY_def FILTER_RAIL_KEY_def)

text \<open>Chains of operations: the rules of the collection \<open>foot\<close> peel one off.\<close>

named_theorems foot "footprints, as rules that peel off the last operation"

lemma foot_dom [foot]:
  "kept x p q \<Longrightarrow> i \<notin> part_ids x \<Longrightarrow> kept x p (upd_el i f q)"
  "kept x p q \<Longrightarrow> kept x p (send r q)" "kept x p q \<Longrightarrow> kept x p (set_focus fr q)"
  "kept x p q \<Longrightarrow> x = ThemeP \<longrightarrow> k \<noteq> THEME_KEY \<Longrightarrow> kept x p (set_item k v q)"
  "kept x p q \<Longrightarrow> x = ThemeP \<longrightarrow> k \<noteq> THEME_KEY \<Longrightarrow> kept x p (remove_item k q)"
  by (cases x; auto simp: part_defs part_ids_def get_item_def upd_el_def get_el_def send_def set_focus_def
    set_item_def remove_item_def fun_upd_def split: if_splits)+

lemma foot_if [foot]:
  "(b \<Longrightarrow> kept x p q) \<Longrightarrow> (\<not> b \<Longrightarrow> kept x p r) \<Longrightarrow> kept x p (if b then q else r)"
  by simp

lemma foot_fields [foot]:
  "kept x p q \<Longrightarrow> kept x p (q\<lparr>tokenInput := e\<rparr>)" "kept x p q \<Longrightarrow> kept x p (q\<lparr>tokenError := e\<rparr>)"
  "kept x p q \<Longrightarrow> kept x p (q\<lparr>url_hash := u\<rparr>)" "kept x p q \<Longrightarrow> kept x p (q\<lparr>kids := k\<rparr>)"
  "kept x p q \<Longrightarrow> kept x p (q\<lparr>open_saved := os\<rparr>)" "kept x p q \<Longrightarrow> kept x p (q\<lparr>scroll_saved := ss\<rparr>)"
  "kept x p q \<Longrightarrow> kept x p (q\<lparr>scroll_y := y\<rparr>)" "kept x p q \<Longrightarrow> kept x p (q\<lparr>filter_form := ff\<rparr>)"
  "kept x p q \<Longrightarrow> kept x p (q\<lparr>views := vs\<rparr>)" "kept x p q \<Longrightarrow> kept x p (q\<lparr>rail_label := l\<rparr>)"
  "kept x p q \<Longrightarrow> kept x p (q\<lparr>listeners := ls\<rparr>)" "kept x p q \<Longrightarrow> kept x p (q\<lparr>resize_bound := b\<rparr>)"
  "kept x p q \<Longrightarrow> kept x p (q\<lparr>detailOpener := o'\<rparr>)" "kept x p q \<Longrightarrow> kept x p (q\<lparr>zoom_figure := z\<rparr>)"
  "kept x p q \<Longrightarrow> kept x p (q\<lparr>polls := ps\<rparr>)" "kept x p q \<Longrightarrow> kept x p (q\<lparr>lang_options := ops\<rparr>)"
  "kept x p q \<Longrightarrow> kept x p (q\<lparr>cleanupCapability := c\<rparr>)" "kept x p q \<Longrightarrow> kept x p (q\<lparr>chunks := ch\<rparr>)"
  "kept x p q \<Longrightarrow> kept x p (q\<lparr>recordingStartedAt := t0\<rparr>)" "kept x p q \<Longrightarrow> kept x p (q\<lparr>benchmarks := bs\<rparr>)"
  "kept x p q \<Longrightarrow> kept x p (q\<lparr>clipboard := cb\<rparr>)" "kept x p q \<Longrightarrow> kept x p (q\<lparr>copies := cs\<rparr>)"
  "kept x p q \<Longrightarrow> kept x p (q\<lparr>diagnostics := n\<rparr>)" "kept x p q \<Longrightarrow> kept x p (q\<lparr>downloads := ds\<rparr>)"
  "kept x p q \<Longrightarrow> kept x p (q\<lparr>object_urls := ou\<rparr>)" "kept x p q \<Longrightarrow> kept x p (q\<lparr>activity_details := ad\<rparr>)"
  "kept x p q \<Longrightarrow> kept x p (q\<lparr>performanceDetailsOpen := pd\<rparr>)" "kept x p q \<Longrightarrow> kept x p (q\<lparr>sync_calls := sc\<rparr>)"
  "kept x p q \<Longrightarrow> kept x p (q\<lparr>banner_ref := br\<rparr>)"
  by (cases x; simp add: part_defs get_item_def get_el_def)+

text \<open>The parts themselves: an update is harmless outside its own part.\<close>

lemma foot_parts [foot]:
  "kept x p q \<Longrightarrow> x \<noteq> TabsP \<Longrightarrow> kept x p (q\<lparr>tab_els := ts\<rparr>)"
  "kept x p q \<Longrightarrow> x \<noteq> ModalP \<Longrightarrow> kept x p (q\<lparr>overlay := e\<rparr>)"
  "kept x p q \<Longrightarrow> x \<noteq> ModalP \<Longrightarrow> kept x p (q\<lparr>background := bg\<rparr>)"
  "kept x p q \<Longrightarrow> x \<noteq> ToastP \<Longrightarrow> kept x p (q\<lparr>toast_timer := th\<rparr>)"
  "kept x p q \<Longrightarrow> x \<noteq> GridP \<Longrightarrow> kept x p (q\<lparr>fams := fs\<rparr>)"
  "kept x p q \<Longrightarrow> x \<noteq> GridP \<Longrightarrow> kept x p (q\<lparr>grid_kids := ks\<rparr>)"
  "kept x p q \<Longrightarrow> x \<noteq> GridP \<Longrightarrow> kept x p (q\<lparr>grid_columns := gc\<rparr>)"
  "kept x p q \<Longrightarrow> x \<noteq> ResizeP \<Longrightarrow> kept x p (q\<lparr>resize_timer := rt\<rparr>)"
  "kept x p q \<Longrightarrow> x \<noteq> GridP \<Longrightarrow> kept x p (q\<lparr>frames := fr\<rparr>)"
  "kept x p q \<Longrightarrow> x \<noteq> DialogsP \<Longrightarrow> kept x p (q\<lparr>dialogs := dg\<rparr>)"
  "kept x p q \<Longrightarrow> x \<noteq> PollP \<Longrightarrow> kept x p (q\<lparr>cards := cs\<rparr>)"
  "kept x p q \<Longrightarrow> x \<noteq> PollP \<Longrightarrow> kept x p (q\<lparr>visible := v\<rparr>)"
  "kept x p q \<Longrightarrow> x \<noteq> PollP \<Longrightarrow> kept x p (q\<lparr>poll_timer := pt\<rparr>)"
  "kept x p q \<Longrightarrow> x \<noteq> HintsP \<Longrightarrow> kept x p (q\<lparr>pair_buttons := pb\<rparr>)"
  "kept x p q \<Longrightarrow> x \<noteq> RecP \<Longrightarrow> kept x p (q\<lparr>recorders := rs\<rparr>)"
  "kept x p q \<Longrightarrow> x \<noteq> RecP \<Longrightarrow> kept x p (q\<lparr>next_recorder := nr\<rparr>)"
  "kept x p q \<Longrightarrow> x \<noteq> RecP \<Longrightarrow> kept x p (q\<lparr>recorder := rc\<rparr>)"
  "kept x p q \<Longrightarrow> x \<noteq> IntervalP \<Longrightarrow> kept x p (q\<lparr>recordingTimer := rt'\<rparr>)"
  "kept x p q \<Longrightarrow> x \<noteq> RecP \<Longrightarrow> kept x p (q\<lparr>starts := st\<rparr>)"
  "kept x p q \<Longrightarrow> x \<noteq> RecP \<Longrightarrow> kept x p (q\<lparr>orphan_streams := os'\<rparr>)"
  by (cases x; simp add: part_defs get_item_def get_el_def)+

lemma foot_timers [foot]:
  "kept x p q \<Longrightarrow> x \<noteq> TimeP \<Longrightarrow> kept x p (q\<lparr>timers := tm\<rparr>)"
  "kept x p q \<Longrightarrow> x \<noteq> TimeP \<Longrightarrow> kept x p (q\<lparr>next_timer := n\<rparr>)"
  "kept x p q \<Longrightarrow> x \<noteq> TimeP \<Longrightarrow> kept x p (stop_timer ho q)"
  "kept x p q \<Longrightarrow> x = ModalP \<longrightarrow> el_inert t = el_inert (toast q) \<Longrightarrow>
     x = ToastP \<longrightarrow> has_class (js ''hidden'') t = has_class (js ''hidden'') (toast q) \<Longrightarrow> kept x p (q\<lparr>toast := t\<rparr>)"
  by (cases x; simp add: part_defs get_item_def get_el_def stop_timer_def split: option.split)+

lemma foot_theme [foot]: "kept x p q \<Longrightarrow> x \<noteq> ThemeP \<Longrightarrow> kept x p (upd_doc g q)"
  by (cases x) (simp_all add: part_defs get_item_def upd_doc_def get_el_def)

text \<open>Theme, banner, tabs.\<close>

lemma foot_applyTheme [foot]: "kept x p q \<Longrightarrow> x \<noteq> ThemeP \<Longrightarrow> kept x p (applyTheme dark pref q)"
  unfolding applyTheme_def setFavicon_def Let_def by (intro foot) simp_all

lemma kept_theme_step: "x \<noteq> ThemeP \<Longrightarrow> kept x p (snd (theme_step (dark, p) e))"
  by (cases e) (auto simp: toggleClick_def onSystemChange_def Let_def intro!: foot)

lemma foot_banner [foot]: "kept x p q \<Longrightarrow> x \<noteq> BannerP \<Longrightarrow> kept x p (applyExposureBanner r now q)"
  by (auto simp: applyExposureBanner_def Let_def split: option.split intro!: foot)

lemma foot_dismiss [foot]: "kept x p q \<Longrightarrow> x \<noteq> BannerP \<Longrightarrow> kept x p (dismissExposureBanner now q)"
  unfolding dismissExposureBanner_def by (auto intro!: foot)

lemma foot_activate [foot]: "kept x p q \<Longrightarrow> x \<noteq> TabsP \<Longrightarrow> kept x p (activateTab t u q)"
  unfolding activateTab_def Let_def
  by (auto split: option.split intro!: foot)

lemma foot_openTab [foot]: "kept x p q \<Longrightarrow> x \<noteq> TabsP \<Longrightarrow> kept x p (openTabByName n q)"
  unfolding openTabByName_def Let_def by (auto split: option.split intro!: foot)

lemma kept_tab_step: "x \<noteq> TabsP \<Longrightarrow> kept x p (tab_step p e)"
  by (cases e) (auto simp: tab_click_def tab_keydown_def panel_beforeRequest_def panel_afterRequest_def Let_def
    intro!: foot)

text \<open>Shell.\<close>

lemma foot_restart [foot]: "kept x p q \<Longrightarrow> x \<noteq> TimeP \<Longrightarrow> kept x p (fst (restart_timer ho c q))"
  unfolding restart_timer_eq fst_conv by (intro foot)

lemma foot_showToast [foot]: "kept x p q \<Longrightarrow> x \<notin> {ToastP, TimeP} \<Longrightarrow> kept x p (showToast m err q)"
  unfolding showToast_def Let_def restart_timer_eq prod.case
  by (intro foot) (simp_all add: class_toggle_def class_add_def class_remove_def set_text_def)

lemma foot_hideToast [foot]: "kept x p q \<Longrightarrow> x \<noteq> ToastP \<Longrightarrow> kept x p (hideToast q)"
  unfolding hideToast_def by (intro foot) (simp_all add: class_add_def)

lemma foot_inert_el: "kept x p q \<Longrightarrow> kept x p (upd_el (js ''exposure-banner'') (set_inert b) q)"
  by (cases x; cases "get_el q (js ''exposure-banner'')")
    (auto simp: part_defs theme_ids_def js_eq_iff set_inert_def get_item_def upd_el_def get_el_def)

lemma foot_inert [foot]: "kept x p q \<Longrightarrow> x \<noteq> ModalP \<Longrightarrow> kept x p (setBackgroundInert b q)"
  unfolding setBackgroundInert_def by (intro foot_inert_el foot) (simp_all add: set_inert_def has_class_def upd_el_def)

lemma foot_overlay [foot]:
  "kept x p q \<Longrightarrow> x \<noteq> ModalP \<Longrightarrow> kept x p (showOverlay m q)"
  "kept x p q \<Longrightarrow> x \<noteq> ModalP \<Longrightarrow> kept x p (hideOverlay q)"
  unfolding showOverlay_def hideOverlay_def Let_def by (auto intro!: foot)

lemma foot_saveToken [foot]: "kept x p q \<Longrightarrow> x \<notin> {ModalP, TabsP} \<Longrightarrow> kept x p (saveToken q)"
  unfolding saveToken_def Let_def by (auto intro!: foot)

lemma foot_responseError [foot]:
  "kept x p q \<Longrightarrow> x \<notin> {ModalP, ToastP, TimeP} \<Longrightarrow> kept x p (responseError st parsed q)"
  unfolding responseError_def Let_def by (auto intro!: foot)

lemma kept_shell_step: "x \<notin> {TabsP, ModalP, ToastP, TimeP} \<Longrightarrow> kept x p (shell_step p e)"
  by (cases e) (auto simp: tokenInput_keydown_def forgetToken_click_def split: option.split callback.split
    intro!: foot)

text \<open>The cleanup view and the test panel paint, and change no part.\<close>

lemma foot_render [foot]: "kept x p q \<Longrightarrow> kept x p (fst (renderCleanupComparison payload q))"
  unfolding renderCleanupComparison_def show_outcome_def Let_def set_kids_def
  by (auto split: prod.split sum.split intro!: foot simp del: kept.simps)

lemma foot_paintPreview [foot]: "kept x p q \<Longrightarrow> kept x p (fst (paintPreview payload q))"
  unfolding paintPreview_def Let_def set_kids_def
  by (auto split: prod.split sum.split intro!: foot simp del: kept.simps)

lemma foot_preview [foot]:
  "kept x p q \<Longrightarrow> kept x p (snd (preview_click t q))"
  "kept x p q \<Longrightarrow> kept x p (runCleanupPreview_finish msg outcome q)"
proof -
  assume a: "kept x p q"
  then have "kept x p (snd (runCleanupPreview_start q))"
    unfolding runCleanupPreview_start_def Let_def by (auto intro!: foot)
  with a show "kept x p (snd (preview_click t q))"
    unfolding preview_click_def Let_def by (auto split: prod.split intro!: foot)
  have "kept x p r" if "paintPreview payload q = (r, e)" for payload r e
    using foot_paintPreview [OF a, of payload] that by simp
  with a show "kept x p (runCleanupPreview_finish msg outcome q)"
    unfolding runCleanupPreview_finish_def Let_def preview_failure_def preview_success_def
    by (auto split: sum.split prod.split option.split intro!: foot)
qed

lemma foot_sync_starts [foot]:
  "kept x p q \<Longrightarrow> kept x p (snd (syncTestLanguages_start q))"
  "kept x p q \<Longrightarrow> kept x p (snd (syncTestCleanup_start q))"
  by (auto simp: syncTestLanguages_start_def syncTestCleanup_start_def intro!: foot)

lemma foot_warning [foot]: "kept x p q \<Longrightarrow> kept x p (syncTestCleanupWarning q)"
  by (auto simp: syncTestCleanupWarning_def intro!: foot)

lemma foot_sync_ends [foot]:
  "kept x p q \<Longrightarrow> kept x p (syncTestLanguages_finish a outcome q)"
  "kept x p q \<Longrightarrow> kept x p (syncTestCleanup_finish a outcome q)"
  unfolding syncTestLanguages_finish_def syncTestCleanup_finish_def apply_languages_def apply_capabilities_def Let_def
  by (auto split: sum.split option.split intro!: foot)

lemma foot_test_change [foot]: "kept x p q \<Longrightarrow> kept x p (test_change t q)"
  by (auto simp: test_change_def intro!: foot)

lemma foot_sync_panel [foot]: "kept x p q \<Longrightarrow> kept x p (sync_panel q)"
proof -
  assume a: "kept x p q"
  obtain b1 q1 where 1: "syncTestLanguages_start q = (b1, q1)" by force
  have k: "kept x p q1" using foot_sync_starts(1) [OF a] 1 by simp
  then have "kept x p (q1\<lparr>sync_calls := sync_calls q1 @ [LanguagesCall]\<rparr>)" by (intro foot)
  from foot_sync_starts(2) [OF this] foot_sync_starts(2) [OF k] show ?thesis
    by (auto simp: sync_panel_def 1 Let_def split: prod.split intro!: foot)
qed

lemma foot_sync_reply [foot]: "kept x p q \<Longrightarrow> kept x p (sync_reply k outcome q)"
  by (auto simp: sync_reply_def Let_def split: sync_call.split intro!: foot)

text \<open>The family grid and the filters.\<close>

lemma foot_toggle [foot]:
  "kept x p q \<Longrightarrow> kept x p (setExpandToggleState b q)" "kept x p q \<Longrightarrow> kept x p (syncFamiliesExpandToggle q)"
  by (auto simp: setExpandToggleState_def syncFamiliesExpandToggle_def Let_def intro!: foot)

lemma foot_place [foot]:
  "kept x p q \<Longrightarrow> x \<noteq> GridP \<Longrightarrow> kept x p (placeModelsAfterRow i q)"
  "kept x p q \<Longrightarrow> x \<noteq> GridP \<Longrightarrow> kept x p (restoreModelsAfterTile i q)"
  "kept x p q \<Longrightarrow> x \<noteq> GridP \<Longrightarrow> kept x p (upd_fam i f q)"
  by (auto simp: placeModelsAfterRow_def restoreModelsAfterTile_def upd_fam_def Let_def split: option.split intro!: foot)

lemma foot_setFamilyOpen [foot]: "kept x p q \<Longrightarrow> x \<noteq> GridP \<Longrightarrow> kept x p (setFamilyOpen i b q)"
  unfolding setFamilyOpen_def Let_def by (auto intro!: foot)

lemma foot_foldl:
  "kept x p q \<Longrightarrow> (\<And>q i. kept x p q \<Longrightarrow> kept x p (f q i)) \<Longrightarrow> kept x p (foldl f q is)"
  by (induction "is" arbitrary: q) simp_all

lemma foot_grid_loops [foot]:
  "kept x p q \<Longrightarrow> x \<noteq> GridP \<Longrightarrow> kept x p (relayoutOpenFamilyPanels q)"
  "kept x p q \<Longrightarrow> x \<noteq> GridP \<Longrightarrow> kept x p (restoreOpenFamilies ns q)"
  "kept x p q \<Longrightarrow> x \<noteq> GridP \<Longrightarrow> kept x p (setFamiliesExpanded b q)"
  unfolding relayoutOpenFamilyPanels_def restoreOpenFamilies_def setFamiliesExpanded_def Let_def
  by (auto intro!: foot foot_foldl)

lemma kept_grid_step: "x \<notin> {GridP, ResizeP, TimeP} \<Longrightarrow> kept x p (grid_step p e)"
  by (cases e) (auto simp: family_click_def expand_click_def window_resize_def restart_timer_eq list_afterSwap_def
    deliver_list_def list_beforeSwap_def Let_def split: option.split callback.split intro!: foot)

lemma foot_run_frame [foot]: "kept x p q \<Longrightarrow> x \<noteq> GridP \<Longrightarrow> kept x p (run_frame q)"
  by (auto simp: run_frame_def split: list.split frame.split intro!: foot)

lemma foot_rail [foot]:
  "kept x p q \<Longrightarrow> kept x p (updateFilterChrome q)" "kept x p q \<Longrightarrow> kept x p (setFilterRailCollapsed c q)"
  "kept x p q \<Longrightarrow> x \<noteq> GridP \<Longrightarrow> kept x p (request_relayout q)"
  by (auto simp: updateFilterChrome_def setFilterRailCollapsed_def store_rail_def request_relayout_def Let_def intro!: foot)

lemma foot_rail_clicks [foot]:
  "kept x p q \<Longrightarrow> x \<noteq> GridP \<Longrightarrow> kept x p (rail_toggle_click q)"
  "kept x p q \<Longrightarrow> x \<noteq> GridP \<Longrightarrow> kept x p (side_collapse_click q)"
  by (auto simp: rail_toggle_click_def side_collapse_click_def split: option.split intro!: foot)

lemma foot_filters [foot]:
  "kept x p q \<Longrightarrow> kept x p (syncModelViews q)" "kept x p q \<Longrightarrow> kept x p (model_view_click v q)"
  "kept x p q \<Longrightarrow> kept x p (filter_clear_click q)" "kept x p q \<Longrightarrow> kept x p (search_input lower k q)"
  by (auto simp: syncModelViews_def model_view_click_def filter_clear_click_def search_input_def upd_form_def Let_def
    split: option.split intro!: foot)

lemma foot_bind [foot]:
  "kept x p q \<Longrightarrow> i \<notin> part_ids x \<Longrightarrow> kept x p (bind_once i a q)"
  "kept x p q \<Longrightarrow> kept x p (upd_form g q)"
  by (auto simp: bind_once_def upd_form_def split: option.split intro!: foot)

lemma foot_init [foot]: "kept x p q \<Longrightarrow> kept x p (initModelFilters q)"
  unfolding initModelFilters_def Let_def by (intro foot) simp_all

text \<open>Dialogs.\<close>

lemma foot_dialogs [foot]:
  "kept x p q \<Longrightarrow> x \<noteq> DialogsP \<Longrightarrow> kept x p (upd_dialog d f q)"
  "kept x p q \<Longrightarrow> kept x p (focus_opt r q)"
  by (auto simp: upd_dialog_def focus_opt_def split: option.split intro!: foot)

lemma foot_open_close [foot]:
  "kept x p q \<Longrightarrow> x \<noteq> DialogsP \<Longrightarrow> kept x p (closeDialog d q)"
  "kept x p q \<Longrightarrow> x \<noteq> DialogsP \<Longrightarrow> kept x p (openDialog d r q)"
  by (auto simp: closeDialog_def openDialog_def native_close_def showModal_def Let_def split: option.split intro!: foot)

lemma foot_closes: "kept x p q \<Longrightarrow> x \<noteq> DialogsP \<Longrightarrow> kept x p ((closeDialog d ^^ n) q)"
  by (induction n) (auto intro!: foot)

lemma foot_detail_afterSwap [foot]: "kept x p q \<Longrightarrow> x \<noteq> DialogsP \<Longrightarrow> kept x p (detail_afterSwap t q)"
  by (auto simp: detail_afterSwap_def intro!: foot)

lemma kept_dialog_step: "x \<noteq> DialogsP \<Longrightarrow> kept x p (dialog_step p e)"
  by (cases e) (auto simp: detail_click_def request_closes_def backdrop_click_def escape_key_def enlarge_click_def
    split: option.split intro!: foot foot_closes)

text \<open>Polling.\<close>

lemma foot_schedule [foot]: "kept x p q \<Longrightarrow> x \<notin> {PollP, TimeP} \<Longrightarrow> kept x p (scheduleModelPoll d q)"
  by (auto simp: scheduleModelPoll_def start_timer_def Let_def intro!: foot)

lemma kept_poll_step: "x \<notin> {PollP, ModalP, TimeP} \<Longrightarrow> kept x p (poll_step p e)"
  by (cases e) (auto simp: visibilitychange_def pollModelProgress_start_def pollModelProgress_finish_def Let_def
    split: option.split callback.split sum.split intro!: foot)

text \<open>Recorder.\<close>

lemma foot_rec [foot]:
  "kept x p q \<Longrightarrow> x \<noteq> RecP \<Longrightarrow> kept x p (upd_rec n f q)"
  "kept x p q \<Longrightarrow> x \<noteq> RecP \<Longrightarrow> kept x p (stop_recorder q)"
  "kept x p q \<Longrightarrow> x \<noteq> RecP \<Longrightarrow> kept x p (recorder_ended n q)"
  "kept x p q \<Longrightarrow> x \<noteq> RecP \<Longrightarrow> kept x p (constructor_throws q)"
  "kept x p q \<Longrightarrow> x \<noteq> RecP \<Longrightarrow> kept x p (start_throws mime mx q)"
  "kept x p q \<Longrightarrow> x \<notin> {IntervalP, TimeP} \<Longrightarrow> kept x p (stopRecordingTimer q)"
  "kept x p q \<Longrightarrow> x \<noteq> RecP \<Longrightarrow> kept x p (drop_start k q)"
  "kept x p q \<Longrightarrow> x \<noteq> RecP \<Longrightarrow> kept x p (set_phase k ph q)"
  "kept x p q \<Longrightarrow> kept x p (updateRecordingTimer now q)"
  "kept x p q \<Longrightarrow> kept x p (record_error m q)"
  by (auto simp: upd_rec_def stop_recorder_def stopRecordingTimer_def drop_start_def set_phase_def
    updateRecordingTimer_def record_error_def recorder_ended_def constructor_throws_def start_throws_def Let_def split: option.split intro!: foot)

lemma foot_begin [foot]: "kept x p q \<Longrightarrow> x \<notin> {RecP, IntervalP, TimeP} \<Longrightarrow> kept x p (begin_recording mime m now q)"
  unfolding begin_recording_def Let_def start_timer_def prod.case by (intro foot) simp_all

lemma foot_tiles [foot]: "kept x p q \<Longrightarrow> set (map fst ts) \<inter> part_ids x = {} \<Longrightarrow> kept x p (fst (paint_tiles ts q))"
  by (induction ts q rule: paint_tiles.induct) (auto split: sum.split intro!: foot)

lemma tiles_no_part: "set (map fst (tiles ps)) \<inter> part_ids x = {}"
  by (simp add: tiles_def Let_def)

lemma foot_paint [foot]: "kept x p q \<Longrightarrow> kept x p (fst (paint_benchmark bm q))"
proof -
  assume a: "kept x p q"
  let ?v = "last (bm_payloads bm)"
  define q1 where "q1 = set_kids (js ''test-transcript'') (plain (content_of (own ?v (js ''transcript'')))) q"
  obtain r y where r: "renderCleanupComparison ?v q1 = (r, y)" by fastforce
  have "kept x p q1" unfolding q1_def set_kids_def using a by (intro foot)
  then have "kept x p r" using foot_render [of x p q1 ?v] r by simp
  then have "kept x p (fst (paint_tiles ((js ''test-meta'', m) # tiles (bm_payloads bm)) r))" for m
    using tiles_no_part [of "bm_payloads bm" x] by (intro foot) simp_all
  with a \<open>kept x p r\<close> show ?thesis
    by (auto simp: paint_benchmark_def Let_def r simp flip: q1_def simp del: kept.simps paint_tiles.simps split: option.split)
qed

lemma foot_failed [foot]: "kept x p q \<Longrightarrow> kept x p (benchmark_failed m q)"
  by (auto simp: benchmark_failed_def intro!: foot)

lemma foot_done [foot]: "kept x p q \<Longrightarrow> kept x p (benchmark_done msg bm q)"
proof -
  assume a: "kept x p q"
  obtain r eo where r: "paint_benchmark bm q = (r, eo)" by force
  then have "kept x p r" using foot_paint [OF a, of bm] by simp
  then show ?thesis by (auto simp: benchmark_done_def r split: option.split intro!: foot)
qed

lemma foot_next_run [foot]: "kept x p q \<Longrightarrow> kept x p (next_run msg bm q)"
  by (auto simp: next_run_def Let_def intro!: foot)

lemma kept_resume: "x \<notin> {RecP, IntervalP, TimeP} \<Longrightarrow> kept x p (resume_start k res p)"
proof -
  assume x: "x \<notin> {RecP, IntervalP, TimeP}"
  have r: "kept x p r" if "syncTestCleanup_start q = (b, r)" "kept x p q" for q r b
    using foot_sync_starts(2) [OF that(2)] that(1) by simp
  show ?thesis using x
    by (auto simp: resume_start_def Let_def split: phase.split resumption.split option.split prod.split
      intro!: foot intro: r)
qed

lemma kept_rec_step: "x \<notin> {RecP, IntervalP, TimeP} \<Longrightarrow> kept x p (rec_step msg p e)"
proof (cases e)
  case RecordClick
  assume x: "x \<notin> {RecP, IntervalP, TimeP}"
  have "kept x p (r\<lparr>starts := st\<rparr>)" if "syncTestLanguages_start p = (b, r)" for r b st
    using foot_sync_starts(1) [OF kept_refl, of x p] that x by (auto intro!: foot)
  with x RecordClick show ?thesis by (auto simp: record_click_def split: option.split prod.split intro!: foot)
next
  case (Stopped n chunk)
  then show "x \<notin> {RecP, IntervalP, TimeP} \<Longrightarrow> ?thesis"
    by (auto simp: recorder_stopped_def Let_def split: option.split intro!: foot)
next
  case (RunReply k outcome)
  then show "x \<notin> {RecP, IntervalP, TimeP} \<Longrightarrow> ?thesis"
    by (auto simp: run_replied_def Let_def split: sum.split intro!: foot)
qed (auto simp: kept_resume record_tick_def Let_def split: option.split callback.split intro!: foot)

text \<open>Clipboard.\<close>

lemma foot_button [foot]: "kept x p q \<Longrightarrow> x \<noteq> HintsP \<Longrightarrow> kept x p (upd_button b f q)"
  by (auto simp: upd_button_def intro!: foot)

lemma foot_flash [foot]: "kept x p q \<Longrightarrow> x \<notin> {HintsP, TimeP} \<Longrightarrow> kept x p (flash_hint b t c q)"
  by (auto simp: flash_hint_def restart_timer_eq split: option.split intro!: foot)

lemma foot_diagnostics [foot]:
  "kept x p q \<Longrightarrow> x \<notin> {ToastP, TimeP} \<Longrightarrow> kept x p (diagnostics_failed msg e q)"
  "kept x p q \<Longrightarrow> x \<notin> {ToastP, TimeP} \<Longrightarrow> kept x p (save_diagnostics msg payload q)"
  by (auto simp: diagnostics_failed_def save_diagnostics_def split: sum.split intro!: foot)

lemma kept_clip_step: "x \<notin> {HintsP, ToastP, ModalP, TimeP} \<Longrightarrow> kept x p (clip_step msg p e)"
  by (cases e) (auto simp: diagnostics_click_def diagnostics_finish_def copy_token_click_def copy_transcript_click_def
    copy_pairing_click_def copy_finish_def Let_def
    split: option.split callback.split sum.split copying.split intro!: foot)

text \<open>Swaps.\<close>

lemma foot_list_swap [foot]:
  "kept x p q \<Longrightarrow> kept x p (list_beforeSwap q)"
  "kept x p q \<Longrightarrow> x \<noteq> GridP \<Longrightarrow> kept x p (list_afterSwap q)"
  "kept x p q \<Longrightarrow> x \<noteq> GridP \<Longrightarrow> kept x p (deliver_list names q)"
  by (auto simp: list_beforeSwap_def list_afterSwap_def deliver_list_def Let_def split: option.split intro!: foot)

lemma foot_exposure_afterSwap [foot]: "kept x p q \<Longrightarrow> x \<noteq> BannerP \<Longrightarrow> kept x p (exposure_afterSwap t now q)"
  by (auto simp: exposure_afterSwap_def split: option.split intro!: foot)

lemma foot_before_swap [foot]: "kept x p q \<Longrightarrow> kept x p (before_swap t q)"
  unfolding before_swap_def Let_def by (auto intro!: foot)

lemma foot_after_swap [foot]:
  "kept x p q \<Longrightarrow> x \<notin> {GridP, PollP, DialogsP, TimeP, BannerP} \<Longrightarrow> kept x p (after_swap t now q)"
  unfolding after_swap_def Let_def restore_details_def by (auto intro!: foot)

text \<open>The handlers of a swap reach the exposure banner only if it is the target.\<close>

lemma banner_after_swap:
  assumes "\<not> target_is ''exposure-banner'' t"
  shows "kept BannerP p (after_swap t now p)"
proof -
  have "exposure_afterSwap t now p = p"
    using assms by (auto simp: exposure_afterSwap_def target_is_def split: option.split prod.split)
  then show ?thesis
    unfolding after_swap_def Let_def restore_details_def by (simp only: if_False, intro foot kept_refl) auto
qed

section \<open>Which timers the operations touch\<close>

text \<open>The variables that hold the handle of a timer, and the callbacks they are for.\<close>

fun is_tick :: "callback \<Rightarrow> bool" where
  "is_tick (RecordTick n) = True"
| "is_tick _ = False"

fun is_reset :: "callback \<Rightarrow> bool" where
  "is_reset (ResetCopyHint b) = True"
| "is_reset _ = False"

lemma kept_time: "kept TimeP p q \<Longrightarrow> timers_ok p \<Longrightarrow> touches C p q"
  by (simp add: touches_same)

lemma touches_kept: "touches C p q \<Longrightarrow> kept TimeP q r \<Longrightarrow> touches C p r"
  using kept_time touches_ok touches_trans by blast

lemma touches_from:
  "timers p' = timers p \<Longrightarrow> next_timer p' = next_timer p \<Longrightarrow> touches C p' q \<Longrightarrow> touches C p q"
  by (simp add: touches_def)

lemma touches_refl: "timers_ok p \<Longrightarrow> touches C p p"
  by (rule touches_same) simp_all

lemma holds_kept: "kept TimeP p q \<Longrightarrow> holds C q ho = holds C p ho"
  by (simp add: holds_def)

text \<open>\<open>clear; start; store\<close>, as every variable but the recorder's is used.\<close>

lemma touches_toast:
  fixes p :: "'a app_page_scheme"
  assumes "timers_ok p" "holds (\<lambda>c. c = HideToast) p (toast_timer p)"
  shows "touches (\<lambda>c. c = HideToast) p (showToast m err p)"
    "holds (\<lambda>c. c = HideToast) (showToast m err p) (toast_timer (showToast m err p))"
proof -
  obtain q h where q: "restart_timer (toast_timer p) (HideToast, 5000) p = (q, h)" by force
  have t: "timers (showToast m err p) = timers q" "next_timer (showToast m err p) = next_timer q"
    "toast_timer (showToast m err p) = Some h"
    using q by (auto simp: showToast_eq restart_timer_eq)
  note r = touches_restart [OF assms _ q, simplified]
  show "touches (\<lambda>c. c = HideToast) p (showToast m err p)" using r(1) by (simp add: touches_def timers_ok_def t)
  show "holds (\<lambda>c. c = HideToast) (showToast m err p) (toast_timer (showToast m err p))"
    using r(2) by (simp add: holds_def t)
qed

lemma touches_fired:
  assumes "timers_ok p" "timers p h = Some (c, d)" "C c"
  shows "touches C p (stop_timer (Some h) p)"
  by (rule touches_stop) (use assms in \<open>auto simp: holds_def timers_ok_def\<close>)

lemma kept_time_hide: "kept TimeP p (hideToast p)"
  by (rule foot_hideToast) simp_all

lemma touches_shell_step:
  fixes p :: "'a app_page_scheme"
  assumes "timers_ok p" "holds (\<lambda>c. c = HideToast) p (toast_timer p)"
  shows "touches (\<lambda>c. c = HideToast) p (shell_step p e)"
proof (cases e)
  case (ToastTimer h)
  then show ?thesis using assms
    by (auto simp: touches_refl split: option.split callback.split
      intro!: touches_kept [OF _ kept_time_hide] touches_fired)
next
  case (ResponseError st parsed)
  then show ?thesis using assms touches_toast(1) [OF assms]
    by (cases "st = 401") (simp_all add: responseError_def Let_def, auto intro!: kept_time foot)
qed (use assms in \<open>auto simp: tokenInput_keydown_def forgetToken_click_def intro!: kept_time foot\<close>)

lemma touches_resize:
  fixes p :: "'a app_page_scheme"
  assumes "timers_ok p" "holds (\<lambda>c. c = RelayoutPanels) p (resize_timer p)"
  shows "touches (\<lambda>c. c = RelayoutPanels) p (window_resize p)"
    "holds (\<lambda>c. c = RelayoutPanels) (window_resize p) (resize_timer (window_resize p))"
proof -
  obtain q h where q: "restart_timer (resize_timer p) (RelayoutPanels, 100) p = (q, h)" by force
  then have eq: "window_resize p = q\<lparr>resize_timer := Some h\<rparr>" by (simp add: window_resize_def)
  note r = touches_restart [OF assms _ q, simplified]
  show "touches (\<lambda>c. c = RelayoutPanels) p (window_resize p)" using r(1) by (simp add: eq touches_def timers_ok_def)
  show "holds (\<lambda>c. c = RelayoutPanels) (window_resize p) (resize_timer (window_resize p))"
    using r(2) by (simp add: eq holds_def)
qed

lemma kept_time_relayout: "kept TimeP p (relayoutOpenFamilyPanels p)"
  by (rule foot_grid_loops) simp_all

lemma touches_grid_step:
  fixes p :: "'a app_page_scheme"
  assumes "timers_ok p" "holds (\<lambda>c. c = RelayoutPanels) p (resize_timer p)"
  shows "touches (\<lambda>c. c = RelayoutPanels) p (grid_step p e)"
proof (cases e)
  case (WidthChange raw)
  have "timers_ok (p\<lparr>grid_columns := raw\<rparr>)" "holds (\<lambda>c. c = RelayoutPanels) (p\<lparr>grid_columns := raw\<rparr>) (resize_timer p)"
    using assms by (simp_all add: timers_ok_def holds_def)
  then show ?thesis using touches_resize(1) [of "p\<lparr>grid_columns := raw\<rparr>"] WidthChange by (simp add: touches_def)
next
  case (TimerFires h)
  then show ?thesis using assms
    by (auto simp: touches_refl split: option.split callback.split
      intro!: touches_kept [OF _ kept_time_relayout] touches_fired)
qed (use assms in \<open>auto simp: family_click_def expand_click_def split: option.split intro!: kept_time foot\<close>)

lemma touches_schedule:
  fixes p :: "'a app_page_scheme"
  assumes "timers_ok p" "holds (\<lambda>c. c = PollModels) p (poll_timer p)"
  shows "touches (\<lambda>c. c = PollModels) p (scheduleModelPoll d p)"
    "holds (\<lambda>c. c = PollModels) (scheduleModelPoll d p) (poll_timer (scheduleModelPoll d p))"
proof -
  let ?p1 = "(stop_timer (poll_timer p) p)\<lparr>poll_timer := None\<rparr>"
  have 1: "touches (\<lambda>c. c = PollModels) p ?p1" using touches_stop [OF assms] by (simp add: touches_def timers_ok_def)
  obtain q h where q: "start_timer (PollModels, d) ?p1 = (q, h)" by force
  have 2: "touches (\<lambda>c. c = PollModels) ?p1 q" by (rule touches_start [OF touches_ok [OF 1] _ q]) simp
  have 3: "touches (\<lambda>c. c = PollModels) p (q\<lparr>poll_timer := Some h\<rparr>)"
    using touches_trans [OF 1 2] by (simp add: touches_def timers_ok_def)
  have s: "scheduleModelPoll d p = (if downloading (cards ?p1) = [] \<or> \<not> visible ?p1 then ?p1 else q\<lparr>poll_timer := Some h\<rparr>)"
    using q by (simp add: scheduleModelPoll_def Let_def)
  show "touches (\<lambda>c. c = PollModels) p (scheduleModelPoll d p)" using 1 3 by (simp add: s)
  have "holds (\<lambda>c. c = PollModels) q (Some h)" using q by (auto simp: holds_def start_timer_def)
  then show "holds (\<lambda>c. c = PollModels) (scheduleModelPoll d p) (poll_timer (scheduleModelPoll d p))"
    by (simp add: s holds_def)
qed

lemma touches_poll_finish:
  fixes p :: "'a app_page_scheme"
  assumes "timers_ok p" "holds (\<lambda>c. c = PollModels) p (poll_timer p)"
  shows "touches (\<lambda>c. c = PollModels) p (pollModelProgress_finish asked outcome p)"
    "holds (\<lambda>c. c = PollModels) (pollModelProgress_finish asked outcome p)
       (poll_timer (pollModelProgress_finish asked outcome p))"
proof -
  have c: "touches (\<lambda>c. c = PollModels) p (scheduleModelPoll d (p\<lparr>cards := cs\<rparr>)) \<and>
      holds (\<lambda>c. c = PollModels) (scheduleModelPoll d (p\<lparr>cards := cs\<rparr>)) (poll_timer (scheduleModelPoll d (p\<lparr>cards := cs\<rparr>)))"
    for d cs
  proof -
    have k: "timers_ok (p\<lparr>cards := cs\<rparr>)" "holds (\<lambda>c. c = PollModels) (p\<lparr>cards := cs\<rparr>) (poll_timer (p\<lparr>cards := cs\<rparr>))"
      using assms by (simp_all add: timers_ok_def holds_def)
    show ?thesis using touches_schedule [OF k] touches_from [of "p\<lparr>cards := cs\<rparr>" p] by simp
  qed
  have o: "poll_timer (showOverlay m x) = poll_timer x" "poll_timer (remove_item k x) = poll_timer x"
    "poll_timer (send r x) = poll_timer x" for m k r and x :: "'a app_page_scheme"
    by (simp_all add: showOverlay_def setBackgroundInert_def page_defs)
  have s: "holds C (send r x) ho = holds C x ho" "holds C (showOverlay m x) ho = holds C x ho"
    "holds C (remove_item k x) ho = holds C x ho" "holds C (x\<lparr>cards := cs\<rparr>) ho = holds C x ho"
    for r m k C ho cs and x :: "'a app_page_scheme"
    by (rule holds_kept; intro foot kept_refl; simp)+
  show "touches (\<lambda>c. c = PollModels) p (pollModelProgress_finish asked outcome p)"
    using assms c touches_schedule(1) [OF assms]
    by (auto simp: pollModelProgress_finish_def Let_def split: sum.split intro!: kept_time foot)
  show "holds (\<lambda>c. c = PollModels) (pollModelProgress_finish asked outcome p)
       (poll_timer (pollModelProgress_finish asked outcome p))"
    using assms c touches_schedule(2) [OF assms]
    by (auto simp: pollModelProgress_finish_def Let_def o s split: sum.split)
qed

lemma touches_poll_step:
  fixes p :: "'a app_page_scheme"
  assumes "timers_ok p" "holds (\<lambda>c. c = PollModels) p (poll_timer p)"
  shows "touches (\<lambda>c. c = PollModels) p (poll_step p e)"
    "holds (\<lambda>c. c = PollModels) (poll_step p e) (poll_timer (poll_step p e))"
proof -
  have f: "timers_ok (p\<lparr>cards := cs\<rparr>)" "holds C (p\<lparr>cards := cs\<rparr>) ho = holds C p ho"
    "timers_ok (p\<lparr>visible := v\<rparr>)" "holds C (p\<lparr>visible := v\<rparr>) ho = holds C p ho"
    "timers_ok (p\<lparr>polls := ps\<rparr>)" "holds C (p\<lparr>polls := ps\<rparr>) ho = holds C p ho" for cs v ps C ho
    using assms(1) by (simp_all add: timers_ok_def holds_def)
  have st: "kept TimeP x (pollModelProgress_start x)" "poll_timer (pollModelProgress_start x) = poll_timer x"
    for x :: "'a app_page_scheme"
    by (auto simp: pollModelProgress_start_def Let_def send_def)
  have fired: "touches (\<lambda>c. c = PollModels) p (stop_timer (Some h) p)" if "timers p h = Some (PollModels, d)" for h d
    by (rule touches_fired [OF assms(1) that]) simp
  have tq: "poll_timer (stop_timer ho p) = poll_timer p" for ho by (simp add: stop_timer_def split: option.split)
  have sch: "touches (\<lambda>c. c = PollModels) p (scheduleModelPoll d (p\<lparr>cards := cs\<rparr>))"
    "touches (\<lambda>c. c = PollModels) p (scheduleModelPoll d (p\<lparr>visible := v\<rparr>))"
    "holds (\<lambda>c. c = PollModels) (scheduleModelPoll d (p\<lparr>cards := cs\<rparr>)) (poll_timer (scheduleModelPoll d (p\<lparr>cards := cs\<rparr>)))"
    "holds (\<lambda>c. c = PollModels) (scheduleModelPoll d (p\<lparr>visible := v\<rparr>)) (poll_timer (scheduleModelPoll d (p\<lparr>visible := v\<rparr>)))"
    for d cs v
    using touches_schedule [of "p\<lparr>cards := cs\<rparr>" d] touches_schedule [of "p\<lparr>visible := v\<rparr>" d]
      touches_from [of "p\<lparr>cards := cs\<rparr>" p] touches_from [of "p\<lparr>visible := v\<rparr>" p] assms f by simp_all
  have fin: "touches (\<lambda>c. c = PollModels) p (pollModelProgress_finish asked outcome (p\<lparr>polls := ps\<rparr>))"
    "holds (\<lambda>c. c = PollModels) (pollModelProgress_finish asked outcome (p\<lparr>polls := ps\<rparr>))
      (poll_timer (pollModelProgress_finish asked outcome (p\<lparr>polls := ps\<rparr>)))" for asked outcome ps
    using touches_poll_finish [of "p\<lparr>polls := ps\<rparr>" asked outcome] touches_from [of "p\<lparr>polls := ps\<rparr>" p] assms f by simp_all
  show "touches (\<lambda>c. c = PollModels) p (poll_step p e)"
    using assms touches_refl sch(1,2) fin(1) fired
    by (cases e) (auto simp: visibilitychange_def split: option.split callback.split intro!: touches_kept [OF _ st(1)])
  show "holds (\<lambda>c. c = PollModels) (poll_step p e) (poll_timer (poll_step p e))"
    using assms sch(3,4) fin(2) holds_touched [OF fired assms(2)]
    by (cases e) (auto simp: visibilitychange_def st holds_kept [OF st(1)] tq split: option.split callback.split)
qed

lemma holds_resize:
  fixes p :: "'a app_page_scheme"
  assumes "timers_ok p" "holds (\<lambda>c. c = RelayoutPanels) p (resize_timer p)"
  shows "holds (\<lambda>c. c = RelayoutPanels) (grid_step p e) (resize_timer (grid_step p e))"
proof (cases "\<exists>raw. e = WidthChange raw")
  case True
  then obtain raw where e: "e = WidthChange raw" by blast
  have "timers_ok (p\<lparr>grid_columns := raw\<rparr>)"
    "holds (\<lambda>c. c = RelayoutPanels) (p\<lparr>grid_columns := raw\<rparr>) (resize_timer (p\<lparr>grid_columns := raw\<rparr>))"
    using assms by (simp_all add: timers_ok_def holds_def)
  from touches_resize(2) [OF this] show ?thesis by (simp add: e)
next
  case False
  have "kept ResizeP p (grid_step p e)"
    using False by (cases e) (auto simp: family_click_def expand_click_def list_afterSwap_def deliver_list_def
      list_beforeSwap_def Let_def split: option.split callback.split intro!: foot simp del: kept.simps)
  then show ?thesis using holds_touched [OF touches_grid_step [OF assms] assms(2)] by simp
qed

text \<open>The recorder starts its interval without clearing the variable first, and clears it when a recorder
  stops.\<close>

lemma touches_stop_recording:
  fixes p :: "'a app_page_scheme"
  assumes "timers_ok p" "holds is_tick p (recordingTimer p)"
  shows "touches is_tick p (stopRecordingTimer p)" "recordingTimer (stopRecordingTimer p) = None"
  using touches_stop [OF assms] by (simp_all add: stopRecordingTimer_def touches_def timers_ok_def)

lemma touches_begin:
  fixes p :: "'a app_page_scheme"
  assumes "timers_ok p"
  shows "touches is_tick p (begin_recording mime m now p) \<and>
    holds is_tick (begin_recording mime m now p) (recordingTimer (begin_recording mime m now p))"
proof -
  have "timers (begin_recording mime m now p) = (timers p)(next_timer p \<mapsto> (RecordTick (next_recorder p), 250))"
    "next_timer (begin_recording mime m now p) = Suc (next_timer p)"
    "recordingTimer (begin_recording mime m now p) = Some (next_timer p)"
    by (simp_all add: begin_recording_def Let_def start_timer_def) (simp_all add: upd_el_def)
  then show ?thesis using assms timers_ok_fresh [OF assms]
    by (auto simp: touches_def holds_def timers_ok_def less_Suc_eq split: if_splits)
qed

lemma touches_resume:
  fixes p :: "'a app_page_scheme"
  assumes "timers_ok p" "holds is_tick p (recordingTimer p)"
  shows "touches is_tick p (resume_start k res p) \<and>
    holds is_tick (resume_start k res p) (recordingTimer (resume_start k res p))"
proof (cases "\<exists>mime now. k < length (starts p) \<and> snd (starts p ! k) = AwaitMedia mime \<and> res = MediaDone True now")
  case True
  then obtain mime now where m: "k < length (starts p)" "snd (starts p ! k) = AwaitMedia mime" "res = MediaDone True now"
    by blast
  have "timers_ok (drop_start k p)" using assms(1) by (simp add: drop_start_def timers_ok_def)
  from touches_begin [OF this] show ?thesis
    using m touches_from [of "drop_start k p" p] by (simp add: resume_start_def drop_start_def)
next
  case False
  have r: "kept x p r" if "syncTestCleanup_start q = (b, r)" "kept x p q" for q r b x
    using foot_sync_starts(2) [OF that(2)] that(1) by simp
  have "kept x p (resume_start k res p)" if "x \<in> {IntervalP, TimeP}" for x
    using that False
    by (auto simp: resume_start_def Let_def split: phase.split resumption.split option.split prod.split
      intro!: foot intro: r simp del: kept.simps)
  then have "kept IntervalP p (resume_start k res p)" "kept TimeP p (resume_start k res p)" by blast+
  then show ?thesis using assms kept_time [of p "resume_start k res p"] by (simp add: holds_def)
qed

lemma touches_stopped:
  fixes p :: "'a app_page_scheme"
  assumes "timers_ok p" "holds is_tick p (recordingTimer p)"
  shows "touches is_tick p (recorder_stopped msg n chunk p) \<and>
    holds is_tick (recorder_stopped msg n chunk p) (recordingTimer (recorder_stopped msg n chunk p))"
proof -
  let ?s = "stopRecordingTimer (p\<lparr>chunks := chunks p @ [chunk]\<rparr>)"
  have "timers_ok (p\<lparr>chunks := chunks p @ [chunk]\<rparr>)"
    "holds is_tick (p\<lparr>chunks := chunks p @ [chunk]\<rparr>) (recordingTimer (p\<lparr>chunks := chunks p @ [chunk]\<rparr>))"
    using assms by (simp_all add: timers_ok_def holds_def)
  from touches_stop_recording [OF this] have s: "touches is_tick p ?s" "recordingTimer ?s = None"
    using touches_from [of "p\<lparr>chunks := chunks p @ [chunk]\<rparr>" p] by simp_all
  have "recorder_stopped msg n chunk p = p \<or>
    kept IntervalP ?s (recorder_stopped msg n chunk p) \<and> kept TimeP ?s (recorder_stopped msg n chunk p)"
    by (auto simp: recorder_stopped_def Let_def split: option.split intro!: foot kept_refl simp del: kept.simps)
  then show ?thesis
  proof
    assume "kept IntervalP ?s (recorder_stopped msg n chunk p) \<and> kept TimeP ?s (recorder_stopped msg n chunk p)"
    then show ?thesis using touches_kept [OF s(1)] s(2) by (simp add: holds_def)
  qed (use assms in \<open>simp add: touches_refl\<close>)
qed

lemma touches_rec_step:
  fixes p :: "'a app_page_scheme"
  assumes "timers_ok p" "holds is_tick p (recordingTimer p)"
  shows "touches is_tick p (rec_step msg p e) \<and>
    holds is_tick (rec_step msg p e) (recordingTimer (rec_step msg p e))"
proof -
  have same: "touches is_tick p q \<and> holds is_tick q (recordingTimer q)"
    if "\<And>x. x \<in> {IntervalP, TimeP} \<Longrightarrow> kept x p q" for q
    using that [of IntervalP] that [of TimeP] kept_time [of p q] assms by (simp add: holds_def)
  show ?thesis
  proof (cases e)
    case RecordClick
    have "kept x p (r\<lparr>starts := st\<rparr>)" if "syncTestLanguages_start p = (b, r)" "x \<in> {IntervalP, TimeP}" for x r b st
      using foot_sync_starts(1) [OF kept_refl, of x p] that by (auto intro!: foot simp del: kept.simps)
    then show ?thesis using RecordClick
      by (intro same) (auto simp: record_click_def split: option.split prod.split intro!: foot kept_refl simp del: kept.simps)
  next
    case (Tick h now)
    then show ?thesis
      by (intro same) (auto simp: record_tick_def Let_def split: option.split callback.split intro!: foot kept_refl
        simp del: kept.simps)
  next
    case (RunReply k outcome)
    then show ?thesis
      by (intro same) (auto simp: run_replied_def Let_def split: sum.split intro!: foot kept_refl simp del: kept.simps)
  qed (simp_all only: rec_step.simps touches_resume [OF assms] touches_stopped [OF assms])
qed

text \<open>The clipboard's operations start and stop the toast's timer and the hints' timers.\<close>

definition clip_callback :: "callback \<Rightarrow> bool" where
  "clip_callback c \<longleftrightarrow> c = HideToast \<or> is_reset c"

lemma touches_clip_toast:
  fixes p :: "'a app_page_scheme"
  assumes "hint_inv p"
  shows "touches clip_callback p (showToast m err p)"
proof -
  have "touches (\<lambda>c. c = HideToast) p (showToast m err p)"
    using assms by (intro touches_toast) (simp_all add: hint_inv_def owns_holds)
  then show ?thesis by (rule touches_mono) (simp add: clip_callback_def)
qed

lemma touches_hint:
  fixes p :: "'a app_page_scheme"
  assumes "hint_inv p"
  shows "touches is_reset p (flash_hint b t copied p)"
proof (cases "get_button p b")
  case None
  then show ?thesis using assms by (simp add: flash_hint_def touches_refl hint_inv_def)
next
  case (Some x)
  let ?p = "upd_button b (setHint t copied) p"
  have "button_ok p b x" "timers_ok p" using assms Some by (simp_all add: hint_inv_def)
  then have p: "timers_ok ?p" "holds is_reset ?p (pb_timer x)"
    by (auto simp: timers_ok_def upd_button_def button_ok_def owns_def holds_def)
  obtain q h where q: "restart_timer (pb_timer x) (ResetCopyHint b, 1600) ?p = (q, h)" by force
  have "touches is_reset ?p q" by (rule touches_restart(1) [OF p _ q]) simp
  then have "touches is_reset p q" by (rule touches_from [rotated 2]) (simp_all add: upd_button_def)
  then have "touches is_reset p (upd_button b g q)" for g
    by (rule touches_kept) (intro foot kept_refl, simp)
  then show ?thesis using q Some by (simp add: flash_hint_def)
qed

lemma touches_flash:
  fixes p :: "'a app_page_scheme"
  assumes "hint_inv p"
  shows "touches clip_callback p (flash_hint b t copied p)"
  using touches_hint [OF assms] by (rule touches_mono) (simp add: clip_callback_def)

lemma touches_clip_step:
  fixes p :: "'a app_page_scheme"
  assumes "hint_inv p"
  shows "touches clip_callback p (clip_step msg p e)"
proof -
  have ok: "timers_ok p" using assms by (simp add: hint_inv_def)
  have same: "touches clip_callback p q" if "kept TimeP p q" for q by (rule kept_time [OF that ok])
  have via: "touches clip_callback p q" if "touches clip_callback x q" "kept TimeP p x" for x q
    using that touches_from [of x p clip_callback q] by simp
  have failed: "touches clip_callback p (diagnostics_failed msg x q)" if "hint_inv q" "kept TimeP p q" for x q
    using via [OF touches_clip_toast [OF that(1)] that(2)] by (simp add: diagnostics_failed_def)
  have toast: "touches clip_callback p (showToast m err q)" if "hint_inv q" "kept TimeP p q" for m err q
    using via [OF touches_clip_toast [OF that(1)] that(2)] .
  have flash: "touches clip_callback p (flash_hint b t c q)" if "hint_inv q" "kept TimeP p q" for b t c q
    using via [OF touches_flash [OF that(1)] that(2)] .
  show ?thesis
  proof (cases e)
    case (DiagnosticsReply outcome)
    then show ?thesis using assms
      by (auto simp: diagnostics_finish_def save_diagnostics_def Let_def split: sum.split
        intro!: failed toast foot kept_refl intro: same simp del: kept.simps) 
  next
    case (CopyDone k d)
    then show ?thesis using assms
      by (auto simp: copy_finish_def Let_def split: copying.split
        intro!: flash toast foot kept_refl intro: same simp del: kept.simps)
  next
    case (ClipTimer h)
    have st: "touches clip_callback p (stop_timer (Some h) p)" if "timers p h = Some (c, d)" "clip_callback c" for c d
      using touches_fired [OF ok that(1), of clip_callback] that(2) by blast
    have "kept TimeP (stop_timer (Some h) p) (upd_button b g (stop_timer (Some h) p))" for b g
      by (intro foot kept_refl) simp
    then have "touches clip_callback p (upd_button b g (stop_timer (Some h) p))"
      if "timers p h = Some (ResetCopyHint b, d)" for b g d
      using touches_kept [OF st [OF that]] by (simp add: clip_callback_def)
    moreover have "touches clip_callback p (hideToast (stop_timer (Some h) p))" if "timers p h = Some (HideToast, d)" for d
      using touches_kept [OF st [OF that] kept_time_hide] by (simp add: clip_callback_def)
    ultimately show ?thesis using ClipTimer ok
      by (auto simp: touches_refl split: option.split callback.split)
  qed (use assms in \<open>auto simp: diagnostics_click_def copy_token_click_def copy_transcript_click_def
      copy_pairing_click_def Let_def split: option.split intro!: flash toast foot kept_refl intro: same simp del: kept.simps\<close>)
qed

end
