(* ===== verification/Together.thy ===== *)
theory Together
  imports Frames
begin

text \<open>
  All components on one page.  A run is any sequence of the events of all components, with replies,
  timers and swaps arriving in any order; the invariants of the components hold together in it, because
  each handler changes only its own parts of the page (\<open>Frames\<close>) and no handler stops or takes over
  another's timer.
\<close>

section \<open>Events\<close>

text \<open>The controls of the filters: the two of the rail (with the columns the grid has afterwards), a quick
  view, clearing, a change in the form, and a search field.\<close>

datatype filter_event =
    RailToggle jsstring
  | SideCollapse jsstring
  | ViewClick jsstring
  | ClearClick
  | FormChange filter_data
  | SearchInput nat

fun filter_step :: "(jsstring \<Rightarrow> jsstring) \<Rightarrow> 'a filter_page_scheme \<Rightarrow> filter_event \<Rightarrow> 'a filter_page_scheme" where
  "filter_step lower p (RailToggle raw) =
     (if get_el p (js ''models-layout'') = None then p else rail_toggle_click (p\<lparr>grid_columns := raw\<rparr>))"
| "filter_step lower p (SideCollapse raw) = side_collapse_click (p\<lparr>grid_columns := raw\<rparr>)"
| "filter_step lower p (ViewClick view) = model_view_click view p"
| "filter_step lower p ClearClick = filter_clear_click p"
| "filter_step lower p (FormChange f) =
     (if 0 < listeners p (js ''models-filter-form'') then updateFilterChrome (p\<lparr>filter_form := Some f\<rparr>)
      else p\<lparr>filter_form := Some f\<rparr>)"
| "filter_step lower p (SearchInput k) = search_input lower k p"

text \<open>The swaps, each with what htmx puts in between the two handlers: a refreshed list, refreshed operations,
  a new banner, or the body of the detail dialog.\<close>

datatype swap_event =
    ModelsSwap nat "jsstring list" "card list"
  | OperationsSwap nat bool
  | BannerSwap elem nat
  | DetailBody nat

fun swap_step :: "nat \<Rightarrow> 'a app_page_scheme \<Rightarrow> swap_event \<Rightarrow> 'a app_page_scheme" where
  "swap_step now p (ModelsSwap r names cs) =
     after_swap (models_target r) now (deliver_models names cs (before_swap (models_target r) p))"
| "swap_step now p (OperationsSwap r d) =
     (let t = Some (r, js ''operations'') in after_swap t now (deliver_operations d (before_swap t p)))"
| "swap_step now p (BannerSwap new fresh) =
     (let t = Some (banner_ref p, js ''exposure-banner'') in after_swap t now (swap_banner new fresh (before_swap t p)))"
| "swap_step now p (DetailBody r) =
     (let t = Some (r, js ''model-detail-body'') in after_swap t now (before_swap t p))"

datatype app_event =
    OnTheme theme_event
  | OnDismiss nat
  | OnTab tab_event
  | OnShell shell_event
  | OnPreviewClick jsstring
  | OnPreviewReply "reply result"
  | OnGrid grid_event
  | OnFrame
  | OnFilter filter_event
  | OnDialog dialog_event
  | OnPoll poll_event
  | OnTestChange jsstring
  | OnSyncReply nat "reply result"
  | OnRecorder rec_event
  | OnMediaEnded nat
  | OnClip clip_event
  | OnSwap swap_event nat

text \<open>\<open>OnMediaEnded n\<close> is a recorder that stops by itself.

  The state: whether the system is dark, and the page.  \<open>msg\<close> gives the engine's messages for its
  exceptions, \<open>lower\<close> is \<open>toLowerCase\<close>.\<close>

fun app_step ::
    "(exn \<Rightarrow> jsstring) \<Rightarrow> (jsstring \<Rightarrow> jsstring) \<Rightarrow> bool \<times> 'a app_page_scheme \<Rightarrow> app_event \<Rightarrow> bool \<times> 'a app_page_scheme"
    where
  "app_step msg lower (dark, p) (OnTheme e) = theme_step (dark, p) e"
| "app_step msg lower (dark, p) (OnDismiss now) = (dark, dismissExposureBanner now p)"
| "app_step msg lower (dark, p) (OnTab e) = (dark, tab_step p e)"
| "app_step msg lower (dark, p) (OnShell e) = (dark, shell_step p e)"
| "app_step msg lower (dark, p) (OnPreviewClick t) = (dark, snd (preview_click t p))"
| "app_step msg lower (dark, p) (OnPreviewReply outcome) = (dark, runCleanupPreview_finish msg outcome p)"
| "app_step msg lower (dark, p) (OnGrid e) = (dark, grid_step p e)"
| "app_step msg lower (dark, p) OnFrame = (dark, run_frame p)"
| "app_step msg lower (dark, p) (OnFilter e) = (dark, filter_step lower p e)"
| "app_step msg lower (dark, p) (OnDialog e) = (dark, dialog_step p e)"
| "app_step msg lower (dark, p) (OnPoll e) = (dark, poll_step p e)"
| "app_step msg lower (dark, p) (OnTestChange t) = (dark, test_change t p)"
| "app_step msg lower (dark, p) (OnSyncReply k outcome) = (dark, sync_reply k outcome p)"
| "app_step msg lower (dark, p) (OnRecorder e) = (dark, rec_step msg p e)"
| "app_step msg lower (dark, p) (OnMediaEnded n) = (dark, recorder_ended n p)"
| "app_step msg lower (dark, p) (OnClip e) = (dark, clip_step msg p e)"
| "app_step msg lower (dark, p) (OnSwap e now) = (dark, swap_step now p e)"

section \<open>The invariants together\<close>

text \<open>The token dialog and what is behind it; the exposure banner is left out, since a swap replaces it
  (see \<open>new_banner_escapes_dialog\<close>).\<close>

definition modal_rest :: "'a shell_page_scheme \<Rightarrow> bool" where
  "modal_rest p \<longleftrightarrow>
     el_attrs (overlay p) (js ''aria-hidden'') = Some (js_bool (\<not> overlay_open p)) \<and>
     (\<forall>b \<in> set (background p). b = overlay_open p) \<and> el_inert (toast p) = overlay_open p"

definition settling :: "'a grid_page_scheme \<Rightarrow> bool" where
  "settling p \<longleftrightarrow> grid_ok p \<and> (placed p \<or> relayout_pending p \<or> RelayoutFrame \<in> set (frames p))"

definition resize_ok :: "'a grid_page_scheme \<Rightarrow> bool" where
  "resize_ok p \<longleftrightarrow> holds (\<lambda>c. c = RelayoutPanels) p (resize_timer p) \<and>
     slot_ok (timers p) (\<lambda>c. fst c = RelayoutPanels) (resize_timer p)"

definition poll_ok :: "'a poll_page_scheme \<Rightarrow> bool" where
  "poll_ok p \<longleftrightarrow> poll_inv p \<and> holds (\<lambda>c. c = PollModels) p (poll_timer p)"

definition tick_ok :: "'a rec_page_scheme \<Rightarrow> bool" where
  "tick_ok p \<longleftrightarrow> holds is_tick p (recordingTimer p)"

definition page_ok :: "bool \<times> 'a app_page_scheme \<Rightarrow> bool" where
  "page_ok s \<longleftrightarrow> (case s of (dark, p) \<Rightarrow>
     theme_inv (dark, p) \<and> some_tab_shown p \<and> modal_rest p \<and> toast_inv p \<and> hint_inv p \<and>
     settling p \<and> resize_ok p \<and> dialogs_ok p \<and> poll_ok p \<and> tick_ok p)"

lemma theme_kept: "kept ThemeP p q \<Longrightarrow> theme_inv (d, p) \<Longrightarrow> theme_inv (d, q)"
  by (simp add: theme_inv_def part_defs theme_ids_def readThemePreference_def shows_theme_def attr_is_def)

lemma tabs_kept: "kept TabsP p q \<Longrightarrow> some_tab_shown p \<Longrightarrow> some_tab_shown q"
  by (simp add: some_tab_shown_def shows_tab_def)

lemma modal_kept: "kept ModalP p q \<Longrightarrow> modal_rest p \<Longrightarrow> modal_rest q"
  by (simp add: modal_rest_def part_defs overlay_open_def)

lemma dialogs_kept: "kept DialogsP p q \<Longrightarrow> dialogs_ok p \<Longrightarrow> dialogs_ok q"
  by (simp add: dialogs_ok_def get_dialog_def)

lemma toast_kept:
  assumes "kept ToastP p q" "touches C p q" "\<not> C HideToast" "toast_inv p"
  shows "toast_inv q"
proof -
  have "slot_ok (timers q) is_hide_toast ho = slot_ok (timers p) is_hide_toast ho" for ho
    by (rule slot_touched [OF assms(2)]) (use assms(3) in \<open>auto simp: is_hide_toast_def\<close>)
  then show ?thesis
    using assms(1,4) touches_ok [OF assms(2)] pending_touched [OF assms(2,3)]
    by (simp add: toast_inv_def part_defs)
qed

lemma poll_kept:
  assumes "kept PollP p q" "touches C p q" "\<not> C PollModels" "poll_ok p"
  shows "poll_ok q"
proof -
  have "slot_ok (timers q) is_poll ho = slot_ok (timers p) is_poll ho" for ho
    by (rule slot_touched [OF assms(2)]) (use assms(3) in \<open>auto simp: is_poll_def\<close>)
  then show ?thesis
    using assms(1,4) touches_ok [OF assms(2)] pending_touched [OF assms(2,3)] holds_touched [OF assms(2)]
    by (auto simp: poll_ok_def poll_inv_def part_defs)
qed

lemma hints_kept:
  assumes "kept HintsP p q" "kept ToastP p q" "touches C p q" "\<And>b. \<not> C (ResetCopyHint b)" "hint_inv p"
  shows "hint_inv q"
proof -
  have "slot_ok (timers q) (\<lambda>c. fst c = ResetCopyHint b) ho = slot_ok (timers p) (\<lambda>c. fst c = ResetCopyHint b) ho" for b ho
    by (rule slot_touched [OF assms(3)]) (use assms(4) in auto)
  then have "button_ok q b x" if "button_ok p b x" for b x
    using that pending_touched [OF assms(3,4)] holds_touched [OF assms(3)] by (auto simp: button_ok_def owns_holds)
  then show ?thesis
    using assms(1,2,5) touches_ok [OF assms(3)] holds_touched [OF assms(3)]
    by (auto simp: hint_inv_def owns_holds get_button_def part_defs)
qed

lemma grid_kept:
  assumes "kept GridP p q" "touches C p q" "\<not> C RelayoutPanels" "settling p"
  shows "settling q"
proof -
  have "fams q = fams p" "grid_kids q = grid_kids p" "grid_columns q = grid_columns p" "frames q = frames p"
    using assms(1) by (simp_all add: part_defs)
  then have "grid_ok q = grid_ok p" "placed q = placed p" "frames q = frames p" using grid_cong [of q p] by blast+
  moreover have "relayout_pending q = relayout_pending p"
    using pending_touched [OF assms(2,3)] by (simp add: relayout_pending_def)
  ultimately show ?thesis using assms(4) by (simp add: settling_def)
qed

lemma resize_kept:
  assumes "kept ResizeP p q" "touches C p q" "\<not> C RelayoutPanels" "resize_ok p"
  shows "resize_ok q"
proof -
  have "slot_ok (timers q) (\<lambda>c. fst c = RelayoutPanels) ho = slot_ok (timers p) (\<lambda>c. fst c = RelayoutPanels) ho" for ho
    by (rule slot_touched [OF assms(2)]) (use assms(3) in auto)
  then show ?thesis using assms(1,4) holds_touched [OF assms(2)] by (simp add: resize_ok_def)
qed

lemma tick_kept: "kept IntervalP p q \<Longrightarrow> touches C p q \<Longrightarrow> tick_ok p \<Longrightarrow> tick_ok q"
  using holds_touched by (fastforce simp: tick_ok_def)

text \<open>A step with footprint \<open>F\<close> that touches the callbacks \<open>C\<close> has to care for its own invariants only.\<close>

lemma page_ok_frame:
  assumes ok: "page_ok (d, p)" and F: "changes_only F p q" and C: "touches C p q"
    and "ThemeP \<notin> F \<and> d' = d \<or> theme_inv (d', q)"
    and "TabsP \<notin> F \<or> some_tab_shown q" and "ModalP \<notin> F \<or> modal_rest q"
    and "ToastP \<notin> F \<and> \<not> C HideToast \<or> toast_inv q"
    and "HintsP \<notin> F \<and> ToastP \<notin> F \<and> (\<forall>b. \<not> C (ResetCopyHint b)) \<or> hint_inv q"
    and "GridP \<notin> F \<and> \<not> C RelayoutPanels \<or> settling q"
    and "ResizeP \<notin> F \<and> \<not> C RelayoutPanels \<or> resize_ok q"
    and "DialogsP \<notin> F \<or> dialogs_ok q"
    and "PollP \<notin> F \<and> \<not> C PollModels \<or> poll_ok q"
    and "IntervalP \<notin> F \<or> tick_ok q"
  shows "page_ok (d', q)"
proof -
  note F = F [unfolded changes_only_def, rule_format]
  have p: "theme_inv (d, p)" "some_tab_shown p" "modal_rest p" "toast_inv p" "hint_inv p" "settling p" "resize_ok p"
    "dialogs_ok p" "poll_ok p" "tick_ok p" using ok by (simp_all add: page_ok_def)
  have "theme_inv (d', q)" using assms(4) theme_kept [OF F p(1)] by blast
  moreover have "some_tab_shown q" using assms(5) tabs_kept [OF F p(2)] by blast
  moreover have "modal_rest q" using assms(6) modal_kept [OF F p(3)] by blast
  moreover have "toast_inv q" using assms(7) toast_kept [OF F C _ p(4)] by blast
  moreover have "hint_inv q" using assms(8) hints_kept [OF F F C _ p(5)] by blast
  moreover have "settling q" using assms(9) grid_kept [OF F C _ p(6)] by blast
  moreover have "resize_ok q" using assms(10) resize_kept [OF F C _ p(7)] by blast
  moreover have "dialogs_ok q" using assms(11) dialogs_kept [OF F p(8)] by blast
  moreover have "poll_ok q" using assms(12) poll_kept [OF F C _ p(9)] by blast
  moreover have "tick_ok q" using assms(13) tick_kept [OF F C p(10)] by blast
  ultimately show ?thesis by (simp add: page_ok_def)
qed

section \<open>Each component's step\<close>

lemma untimed: "changes_only F p q \<Longrightarrow> TimeP \<notin> F \<Longrightarrow> timers_ok p \<Longrightarrow> touches C p q"
  unfolding changes_only_def by (blast intro: kept_time)

lemma page_ok_timers: "page_ok (d, p) \<Longrightarrow> timers_ok p"
  by (simp add: page_ok_def toast_inv_def)

lemma page_ok_quiet: "page_ok (d, p) \<Longrightarrow> (\<And>x. x \<noteq> BannerP \<Longrightarrow> kept x p q) \<Longrightarrow> page_ok (d, q)"
  by (rule page_ok_frame [where F = "{BannerP}" and C = "\<lambda>_. False"])
    (auto simp: page_ok_def toast_inv_def changes_only_def intro!: kept_time)

lemma page_ok_theme_step: "page_ok (d, p) \<Longrightarrow> page_ok (theme_step (d, p) e)"
proof -
  assume ok: "page_ok (d, p)"
  have eq: "theme_step (d, p) e = (fst (theme_step (d, p) e), snd (theme_step (d, p) e))" by simp
  have k: "changes_only {ThemeP} p (snd (theme_step (d, p) e))" by (rule changes_onlyI, rule kept_theme_step) simp
  have t: "touches (\<lambda>_. False) p (snd (theme_step (d, p) e))"
    by (rule untimed [OF k _ page_ok_timers [OF ok]]) simp
  have "theme_inv (theme_step (d, p) e)" by (rule theme_step_inv) (use ok in \<open>simp add: page_ok_def\<close>)
  then show ?thesis by (subst eq, intro page_ok_frame [OF ok k t]) simp_all
qed

lemma page_ok_tab_step: "page_ok (d, p) \<Longrightarrow> page_ok (d, tab_step p e)"
proof -
  assume ok: "page_ok (d, p)"
  have k: "changes_only {TabsP} p (tab_step p e)" by (rule changes_onlyI, rule kept_tab_step) simp
  have t: "touches (\<lambda>_. False) p (tab_step p e)"
    by (rule untimed [OF k _ page_ok_timers [OF ok]]) simp
  have "some_tab_shown (tab_step p e)" by (rule tab_step_shown) (use ok in \<open>simp add: page_ok_def\<close>)
  then show ?thesis by (intro page_ok_frame [OF ok k t]) simp_all
qed

lemma page_ok_dialog_step: "page_ok (d, p) \<Longrightarrow> page_ok (d, dialog_step p e)"
proof -
  assume ok: "page_ok (d, p)"
  have k: "changes_only {DialogsP} p (dialog_step p e)" by (rule changes_onlyI, rule kept_dialog_step) simp
  have t: "touches (\<lambda>_. False) p (dialog_step p e)"
    by (rule untimed [OF k _ page_ok_timers [OF ok]]) simp
  have "dialogs_ok (dialog_step p e)" by (rule dialog_step_ok) (use ok in \<open>simp add: page_ok_def\<close>)
  then show ?thesis by (intro page_ok_frame [OF ok k t]) simp_all
qed

text \<open>Shell.\<close>

lemma modal_rest_modal: "modal p \<Longrightarrow> modal_rest p"
  by (simp add: modal_def modal_rest_def)

lemma modal_rest_ops [simp]:
  "modal_rest (showOverlay m p)" "modal_rest (saveToken p)" "modal_rest (showToast m err p) = modal_rest p"
  "modal_rest (hideToast p) = modal_rest p" "modal_rest (stop_timer h p) = modal_rest p"
  by (simp_all add: modal_rest_modal modal_showOverlay modal_saveToken)
    (simp_all add: modal_rest_def overlay_open_def showToast_eq hideToast_def page_defs split: option.split)

lemma modal_rest_step: "modal_rest p \<Longrightarrow> modal_rest (shell_step p e)"
  by (cases e) (simp_all add: tokenInput_keydown_def forgetToken_click_def responseError_def Let_def
    split: option.split callback.split prod.split, simp add: modal_rest_def overlay_open_def)

lemma tabs_shell_step: "some_tab_shown p \<Longrightarrow> some_tab_shown (shell_step p e)"
proof -
  assume s: "some_tab_shown p"
  have o: "tab_els (showOverlay m q) = tab_els q" "tab_els (hideOverlay q) = tab_els q"
    "tab_els (showToast m err q) = tab_els q" "tab_els (hideToast q) = tab_els q" "tab_els (stop_timer h q) = tab_els q"
    "tab_els (set_item i v q) = tab_els q" "tab_els (remove_item i q) = tab_els q" "tab_els (send r q) = tab_els q"
    for m err h i v r and q :: "'a shell_page_scheme"
    by (simp_all add: showOverlay_def hideOverlay_def setBackgroundInert_def showToast_eq hideToast_def page_defs
      split: option.split)
  note c = some_tab_shown_def shows_tab_def
  have "some_tab_shown (send r q) = some_tab_shown q" "some_tab_shown (hideOverlay q) = some_tab_shown q"
    "some_tab_shown (set_item i v q) = some_tab_shown q" "some_tab_shown (showOverlay m q) = some_tab_shown q"
    "some_tab_shown (showToast m err q) = some_tab_shown q" "some_tab_shown (hideToast q) = some_tab_shown q"
    "some_tab_shown (stop_timer h q) = some_tab_shown q" "some_tab_shown (remove_item i q) = some_tab_shown q"
    "some_tab_shown (q\<lparr>tokenInput := e'\<rparr>) = some_tab_shown q"
    for r i v m err h e' and q :: "'a shell_page_scheme" by (simp_all add: c o)
  note same = this
  have "some_tab_shown (openTabByName n q)" if "some_tab_shown q" for n and q :: "'a shell_page_scheme"
    using tab_step_shown [OF that, of "OpenTab n"] by simp
  then have "some_tab_shown (saveToken p)" using s by (simp add: saveToken_def Let_def same)
  then show ?thesis using s
    by (cases e) (simp_all add: tokenInput_keydown_def forgetToken_click_def responseError_def Let_def same
      split: option.split callback.split prod.split)
qed

lemma hint_inv_shell_step:
  fixes p :: "'a app_page_scheme"
  assumes "hint_inv p"
  shows "hint_inv (shell_step p e)"
proof -
  have ok: "timers_ok p" using assms by (simp add: hint_inv_def)
  have same: "hint_inv q" if "\<And>x. x \<in> {HintsP, ToastP, TimeP} \<Longrightarrow> kept x p q" for q
    by (rule hints_kept [OF that that kept_time [OF that ok, of "\<lambda>_. False"] _ assms]) simp_all
  show ?thesis
  proof (cases e)
    case (ResponseError st parsed)
    then show ?thesis using assms by (simp add: responseError_def Let_def hint_inv_showToast)
  next
    case (ToastTimer h)
    then show ?thesis using assms by (auto simp: hint_inv_stop split: option.split callback.split)
  qed (auto simp: tokenInput_keydown_def forgetToken_click_def intro!: same foot kept_refl simp del: kept.simps)
qed

lemma page_ok_shell_step: "page_ok (d, p) \<Longrightarrow> page_ok (d, shell_step p e)"
proof -
  assume ok: "page_ok (d, p)"
  then have p: "some_tab_shown p" "modal_rest p" "toast_inv p" "hint_inv p" by (simp_all add: page_ok_def)
  have k: "changes_only {TabsP, ModalP, ToastP, TimeP} p (shell_step p e)"
    by (rule changes_onlyI, rule kept_shell_step) simp
  have t: "touches (\<lambda>c. c = HideToast) p (shell_step p e)"
    by (rule touches_shell_step [OF page_ok_timers [OF ok]]) (use p(4) in \<open>simp add: hint_inv_def owns_holds\<close>)
  show ?thesis
    by (rule page_ok_frame [OF ok k t])
      (simp_all add: tabs_shell_step p modal_rest_step toast_inv_step hint_inv_shell_step)
qed

text \<open>Grid.  A frame or a timer that relays the panels out repairs the grid; everything else keeps it in
  order or leaves the relayout pending.\<close>

lemma settling_laid_out: "laid_out p \<Longrightarrow> settling p"
  by (simp add: settling_def laid_out_def)

lemma settling_inv: "grid_inv p \<Longrightarrow> settling p"
  by (auto simp: settling_def grid_inv_def)

lemma grid_ok_step: "grid_ok p \<Longrightarrow> grid_ok (grid_step p e)"
proof (cases e)
  case (FamilyClick i)
  then show "grid_ok p \<Longrightarrow> ?thesis" using grid_ok_open_loop [of p "[i]"] by (simp add: family_click_def)
next
  case ExpandClick
  have "grid_ok (setExpandToggleState b q) = grid_ok q" for b and q :: "'a grid_page_scheme"
    by (rule grid_cong) simp_all
  with ExpandClick show "grid_ok p \<Longrightarrow> ?thesis"
    by (auto simp: expand_click_def setFamiliesExpanded_def Let_def grid_ok_tiles intro!: grid_ok_open_loop split: option.split)
next
  case (WidthChange raw)
  then show "grid_ok p \<Longrightarrow> ?thesis" by (simp add: grid_ok_def window_resize_grid)
next
  case (TimerFires h)
  assume ok: "grid_ok p"
  have "grid_ok (stop_timer (Some h) p)" using ok by (simp add: stop_timer_def grid_ok_def)
  then have "grid_ok (relayoutOpenFamilyPanels (stop_timer (Some h) p))"
    using relayout_laid_out [of "stop_timer (Some h) p"] by (simp add: laid_out_def)
  with ok TimerFires show ?thesis by (auto split: option.split callback.split)
next
  case (ListSwap names)
  then show ?thesis using list_swap_laid_out [of p names] by (simp add: laid_out_def)
qed

lemma frames_step: "set (frames p) \<subseteq> set (frames (grid_step p e))"
proof (cases e)
  case (FamilyClick i)
  then show ?thesis using rest_setFamilyOpen [of i _ p] by (simp add: family_click_def rest_eq_def)
next
  case ExpandClick
  have l: "frames (foldl (\<lambda>q i. setFamilyOpen i b q) p is) = frames p" for b "is"
    using rest_open_loop [of "\<lambda>_ _. True" b p "is"] by (simp add: rest_eq_def)
  have "frames (setExpandToggleState b q) = frames q" for b and q :: "'a grid_page_scheme"
    by (simp add: setExpandToggleState_def Let_def upd_el_def)
  with ExpandClick show ?thesis
    by (auto simp: expand_click_def setFamiliesExpanded_def Let_def l split: option.split)
next
  case (WidthChange raw)
  then show ?thesis by (simp add: window_resize_def restart_timer_eq)
next
  case (TimerFires h)
  have "frames (placeModelsAfterRow i q) = frames q" for i and q :: "'a grid_page_scheme"
    by (simp add: placeModelsAfterRow_def Let_def split: option.split)
  then have "frames (foldl (\<lambda>q i. placeModelsAfterRow i q) q is) = frames q" for "is" and q :: "'a grid_page_scheme"
    by (induction "is" arbitrary: q) simp_all
  with TimerFires show ?thesis
    by (auto simp: relayoutOpenFamilyPanels_def stop_timer_def split: option.split callback.split)
next
  case (ListSwap names)
  then show ?thesis using list_swap_laid_out [of p names] by auto
qed

lemma settling_step: "settling p \<Longrightarrow> settling (grid_step p e)"
proof (cases "grid_inv p")
  case True
  then show ?thesis by (intro settling_inv grid_step_inv)
next
  case False
  assume "settling p"
  with False have "grid_ok p" "RelayoutFrame \<in> set (frames p)" by (auto simp: settling_def grid_inv_def)
  then show ?thesis using grid_ok_step [of p e] frames_step [of p e] by (auto simp: settling_def)
qed

lemma resize_ok_step:
  fixes p :: "'a app_page_scheme"
  assumes "timers_ok p" "resize_ok p"
  shows "resize_ok (grid_step p e)"
proof -
  let ?R = "\<lambda>c. fst c = RelayoutPanels"
  have h: "holds (\<lambda>c. c = RelayoutPanels) (grid_step p e) (resize_timer (grid_step p e))"
    using assms by (intro holds_resize) (simp_all add: resize_ok_def)
  have "slot_ok (timers (grid_step p e)) ?R (resize_timer (grid_step p e))"
  proof (cases "e \<in> range WidthChange \<union> range TimerFires")
    case False
    then have "kept x p (grid_step p e)" if "x \<in> {ResizeP, TimeP}" for x using that
      by (cases e) (auto simp: family_click_def expand_click_def split: option.split intro!: foot kept_refl simp del: kept.simps)
    then have "kept ResizeP p (grid_step p e)" "kept TimeP p (grid_step p e)" by blast+
    then show ?thesis using assms(2) by (simp add: resize_ok_def)
  next
    case True
    then consider (WidthChange) raw where "e = WidthChange raw" | (TimerFires) k where "e = TimerFires k" by blast
    then show ?thesis
    proof cases
    case (WidthChange raw)
    obtain q k where q: "restart_timer (resize_timer p) (RelayoutPanels, 100) (p\<lparr>grid_columns := raw\<rparr>) = (q, k)" by force
    then have "slot_ok (timers q) ?R (Some k)"
      using restart_slot [OF _ q, of ?R] assms(2) by (simp add: resize_ok_def)
    then show ?thesis using WidthChange q by (simp add: window_resize_def)
  next
    case (TimerFires k)
    have r: "kept ResizeP (stop_timer (Some k) p) (relayoutOpenFamilyPanels (stop_timer (Some k) p))"
      by (intro foot kept_refl) simp
    have "slot_ok (timers (stop_timer (Some k) p)) ?R (resize_timer p)"
      by (rule tm.slot_stop_other) (use assms(2) in \<open>simp add: resize_ok_def\<close>)
    moreover have "resize_timer (stop_timer (Some k) p) = resize_timer p" by (simp add: stop_timer_def)
    ultimately have "slot_ok (timers (relayoutOpenFamilyPanels (stop_timer (Some k) p))) ?R
        (resize_timer (relayoutOpenFamilyPanels (stop_timer (Some k) p)))"
      using r kept_time_relayout [of "stop_timer (Some k) p"] by simp
    then show ?thesis using assms(2) TimerFires by (auto simp: resize_ok_def split: option.split callback.split)
  qed
  qed
  with h show ?thesis by (simp add: resize_ok_def)
qed

lemma page_ok_grid_step: "page_ok (d, p) \<Longrightarrow> page_ok (d, grid_step p e)"
proof -
  assume ok: "page_ok (d, p)"
  then have p: "settling p" "resize_ok p" by (simp_all add: page_ok_def)
  have k: "changes_only {GridP, ResizeP, TimeP} p (grid_step p e)"
    by (rule changes_onlyI, rule kept_grid_step) simp
  have t: "touches (\<lambda>c. c = RelayoutPanels) p (grid_step p e)"
    by (rule touches_grid_step [OF page_ok_timers [OF ok]]) (use p(2) in \<open>simp add: resize_ok_def\<close>)
  show ?thesis
    by (rule page_ok_frame [OF ok k t]) (simp_all add: settling_step [OF p(1)] resize_ok_step [OF page_ok_timers [OF ok] p(2)])
qed

lemma settling_cong:
  assumes "fams q = fams p" "grid_kids q = grid_kids p" "grid_columns q = grid_columns p"
    and "timers q = timers p"
    and "RelayoutFrame \<in> set (frames p) \<Longrightarrow> RelayoutFrame \<in> set (frames q)"
  shows "settling p \<Longrightarrow> settling q"
  using grid_cong(1,2) [OF assms(1-3)] assms(4,5) by (auto simp: settling_def relayout_pending_def)

lemma settling_frame: "settling p \<Longrightarrow> settling (run_frame p)"
proof (cases "frames p")
  case (Cons f fs)
  assume s: "settling p"
  show ?thesis
  proof (cases f)
    case RelayoutFrame
    have "grid_ok (p\<lparr>frames := fs\<rparr>)" using s by (simp add: settling_def grid_ok_def)
    from relayout_rest [OF this] show ?thesis using Cons RelayoutFrame
      by (simp add: run_frame_def settling_laid_out)
  next
    case (RestoreScroll y again)
    then show ?thesis using Cons by (intro settling_cong [OF _ _ _ _ _ s]) (auto simp: run_frame_def)
  qed
qed (simp add: run_frame_def)

lemma page_ok_grid_only:
  assumes "page_ok (d, p)" "\<And>x. x \<noteq> GridP \<Longrightarrow> kept x p q" "settling q"
  shows "page_ok (d, q)"
proof -
  have k: "changes_only {GridP} p q" by (rule changes_onlyI) (simp add: assms(2))
  have t: "touches (\<lambda>_. False) p q" by (rule untimed [OF k _ page_ok_timers [OF assms(1)]]) simp
  show ?thesis by (rule page_ok_frame [OF assms(1) k t]) (simp_all add: assms(3))
qed

lemma page_ok_frame_step: "page_ok (d, p) \<Longrightarrow> page_ok (d, run_frame p)"
  by (rule page_ok_grid_only) (auto simp: settling_frame page_ok_def intro!: foot kept_refl simp del: kept.simps)

lemma settling_relayout: "grid_ok p \<Longrightarrow> RelayoutFrame \<in> set (frames p) \<Longrightarrow> settling p"
  by (simp add: settling_def)

lemma rail_grid [simp]:
  "fams (setFilterRailCollapsed c p) = fams p" "grid_kids (setFilterRailCollapsed c p) = grid_kids p"
  by (simp_all add: setFilterRailCollapsed_def store_rail_def Let_def upd_el_def set_item_def)

lemma page_ok_filter_step: "page_ok (d, p) \<Longrightarrow> page_ok (d, filter_step lower p e)"
proof -
  assume ok: "page_ok (d, p)"
  then have g: "grid_ok p" by (simp add: page_ok_def settling_def)
  have rail: "settling (request_relayout (setFilterRailCollapsed c (p\<lparr>grid_columns := raw\<rparr>)))" for c raw
    by (rule settling_relayout) (use g in \<open>simp_all add: request_relayout_def grid_ok_def\<close>)
  show ?thesis
  proof (cases e)
    case (RailToggle raw)
    then show ?thesis using ok
      by (auto intro!: page_ok_grid_only [OF ok] foot kept_refl simp: rail rail_toggle_click_def get_el_def
        simp del: kept.simps split: option.split)
  next
    case (SideCollapse raw)
    then show ?thesis
      by (auto intro!: page_ok_grid_only [OF ok] foot kept_refl simp: rail side_collapse_click_def simp del: kept.simps)
  qed (auto intro!: page_ok_quiet [OF ok] foot kept_refl simp del: kept.simps)
qed

lemma page_ok_poll_step: "page_ok (d, p) \<Longrightarrow> page_ok (d, poll_step p e)"
proof -
  assume ok: "page_ok (d, p)"
  then have p: "poll_inv p" "holds (\<lambda>c. c = PollModels) p (poll_timer p)" "modal_rest p"
    by (simp_all add: page_ok_def poll_ok_def)
  have k: "changes_only {PollP, ModalP, TimeP} p (poll_step p e)"
    by (rule changes_onlyI, rule kept_poll_step) simp
  note t = touches_poll_step [OF page_ok_timers [OF ok] p(2), of e]
  have "modal_rest (scheduleModelPoll n q) = modal_rest q" "modal_rest (remove_item i q) = modal_rest q"
    "modal_rest (pollModelProgress_start q) = modal_rest q" "modal_rest (send r q) = modal_rest q"
    "modal_rest (q\<lparr>cards := cs\<rparr>) = modal_rest q" "modal_rest (q\<lparr>visible := v\<rparr>) = modal_rest q"
    "modal_rest (q\<lparr>polls := ps\<rparr>) = modal_rest q"
    for n r i cs v ps and q :: "'a app_page_scheme"
    by (simp_all add: modal_rest_def overlay_open_def scheduleModelPoll_def pollModelProgress_start_def Let_def
      start_timer_def page_defs split: option.split)
  then have "modal_rest (poll_step p e)" using p(3)
    by (cases e) (auto simp: visibilitychange_def pollModelProgress_finish_def Let_def
      split: option.split callback.split sum.split)
  then show ?thesis
    by (intro page_ok_frame [OF ok k t(1)]) (simp_all add: poll_ok_def poll_step_inv [OF p(1)] t(2))
qed

lemma page_ok_rec_step: "page_ok (d, p) \<Longrightarrow> page_ok (d, rec_step msg p e)"
proof -
  assume ok: "page_ok (d, p)"
  then have p: "holds is_tick p (recordingTimer p)" by (simp add: page_ok_def tick_ok_def)
  have k: "changes_only {RecP, IntervalP, TimeP} p (rec_step msg p e)"
    by (rule changes_onlyI, rule kept_rec_step) simp
  note t = touches_rec_step [OF page_ok_timers [OF ok] p, of msg e]
  show ?thesis by (rule page_ok_frame [OF ok k conjunct1 [OF t]]) (simp_all add: tick_ok_def t)
qed

lemma page_ok_media_ended: "page_ok (d, p) \<Longrightarrow> page_ok (d, recorder_ended n p)"
proof -
  assume ok: "page_ok (d, p)"
  have k: "changes_only {RecP} p (recorder_ended n p)" by (rule changes_onlyI) (intro foot kept_refl, simp)
  have t: "touches (\<lambda>_. False) p (recorder_ended n p)"
    by (rule untimed [OF k _ page_ok_timers [OF ok]]) simp
  show ?thesis by (rule page_ok_frame [OF ok k t]) simp_all
qed

text \<open>Clipboard: its toasts keep the toast's invariant, and its hints leave the toast alone.\<close>

lemma toast_inv_quiet:
  fixes p :: "'a app_page_scheme"
  shows "toast_inv p \<Longrightarrow> kept ToastP p q \<Longrightarrow> kept TimeP p q \<Longrightarrow> toast_inv q"
  using toast_kept [of p q "\<lambda>_. False"] kept_time [of p q] by (simp add: toast_inv_def)

lemma toast_inv_clip_step:
  fixes p :: "'a app_page_scheme"
  assumes "toast_inv p" "hint_inv p"
  shows "toast_inv (clip_step msg p e)"
proof -
  have ok: "timers_ok p" using assms by (simp add: hint_inv_def)
  have same: "toast_inv q" if "\<And>x. x \<in> {ToastP, TimeP} \<Longrightarrow> kept x p q" for q
    by (rule toast_inv_quiet [OF assms(1) that that]) simp_all
  have toast: "toast_inv (showToast m err q)" if "\<And>x. x \<in> {ToastP, TimeP} \<Longrightarrow> kept x p q" for m err q
    using same [OF that] by (rule toast_inv_showToast)
  have flash: "toast_inv (flash_hint b t c q)"
    if "\<And>x. x \<in> {ToastP, TimeP} \<Longrightarrow> kept x p q" "hint_inv q" for b t c q
  proof (rule toast_kept [OF _ touches_hint [OF that(2)] _ same [OF that(1)]])
    show "kept ToastP q (flash_hint b t c q)" by (intro foot kept_refl) simp
  qed simp_all
  show ?thesis
  proof (cases e)
    case (DiagnosticsReply outcome)
    then show ?thesis using assms(1)
      by (auto simp: diagnostics_finish_def save_diagnostics_def diagnostics_failed_def Let_def split: sum.split
        intro!: toast foot kept_refl intro: same simp del: kept.simps)
  next
    case (CopyDone k d)
    then show ?thesis using assms
      by (auto simp: copy_finish_def Let_def split: copying.split
        intro!: flash toast foot kept_refl intro: same simp del: kept.simps)
  next
    case (ClipTimer h)
    have st: "touches is_reset p (stop_timer (Some h) p)" if "timers p h = Some (ResetCopyHint b, d)" for b d
      using touches_fired [OF ok that, of is_reset] by simp
    have "kept TimeP (stop_timer (Some h) p) (upd_button b g (stop_timer (Some h) p))"
      "kept ToastP p (upd_button b g (stop_timer (Some h) p))" for b g
      by (intro foot kept_refl; simp)+
    then have "toast_inv (upd_button b g (stop_timer (Some h) p))" if "timers p h = Some (ResetCopyHint b, d)" for b g d
      using toast_kept [OF _ touches_kept [OF st [OF that]] _ assms(1)] by simp
    then show ?thesis using ClipTimer assms(1) by (auto simp: toast_inv_hide split: option.split callback.split)
  qed (use assms in \<open>auto simp: diagnostics_click_def copy_token_click_def copy_transcript_click_def
      copy_pairing_click_def Let_def split: option.split intro!: flash toast foot kept_refl intro: same simp del: kept.simps\<close>)
qed

lemma modal_rest_clip_step:
  fixes p :: "'a app_page_scheme"
  assumes "modal_rest p"
  shows "modal_rest (clip_step msg p e)"
proof (cases "\<exists>outcome. e = DiagnosticsReply outcome")
  case True
  have "modal_rest (p\<lparr>diagnostics := n\<rparr>) = modal_rest p" "modal_rest (p\<lparr>diagnostics := n, object_urls := u\<rparr>) = modal_rest p"
    "modal_rest (p\<lparr>diagnostics := n, downloads := ds\<rparr>) = modal_rest p" for n u ds
    by (simp_all add: modal_rest_def overlay_open_def)
  with True assms show ?thesis
    by (auto simp: diagnostics_finish_def save_diagnostics_def diagnostics_failed_def Let_def split: sum.split)
next
  case False
  then have "kept ModalP p (clip_step msg p e)"
    by (cases e) (auto simp: diagnostics_click_def copy_token_click_def copy_transcript_click_def
      copy_pairing_click_def copy_finish_def Let_def
      split: option.split callback.split copying.split intro!: foot kept_refl simp del: kept.simps)
  then show ?thesis using modal_kept assms by blast
qed

lemma page_ok_clip_step: "page_ok (d, p) \<Longrightarrow> page_ok (d, clip_step msg p e)"
proof -
  assume ok: "page_ok (d, p)"
  then have p: "toast_inv p" "hint_inv p" "modal_rest p" by (simp_all add: page_ok_def)
  have k: "changes_only {HintsP, ToastP, ModalP, TimeP} p (clip_step msg p e)"
    by (rule changes_onlyI, rule kept_clip_step) simp
  show ?thesis
    by (rule page_ok_frame [OF ok k touches_clip_step [OF p(2)]])
      (simp_all add: clip_callback_def toast_inv_clip_step [OF p(1,2)] hint_inv_step [OF p(2)] modal_rest_clip_step [OF p(3)])
qed

text \<open>Swaps.  The handlers reschedule the poll; only the list's swap changes the grid, and only the detail
  body's opens a dialog.\<close>

lemma after_swap_poll:
  fixes p :: "'a app_page_scheme"
  assumes "timers_ok p" "slot_ok (timers p) is_poll (poll_timer p)" "holds (\<lambda>c. c = PollModels) p (poll_timer p)"
  shows "poll_ok (after_swap t now p) \<and> touches (\<lambda>c. c = PollModels) p (after_swap t now p)"
proof -
  define a where "a = (if target_is ''operations'' t then restore_details (exposure_afterSwap t now p) else exposure_afterSwap t now p)"
  define b where "b = scheduleModelPoll 400 a"
  have a: "kept x p a" if "x \<noteq> BannerP" for x using that unfolding a_def restore_details_def by (intro foot kept_refl)
  have "timers_ok a" "slot_ok (timers a) is_poll (poll_timer a)" "holds (\<lambda>c. c = PollModels) a (poll_timer a)"
    using a [of TimeP] a [of PollP] assms by (simp_all add: timers_ok_def holds_def part_defs)
  then have b: "poll_inv b" "touches (\<lambda>c. c = PollModels) a b" "holds (\<lambda>c. c = PollModels) b (poll_timer b)"
    unfolding b_def by (simp_all add: poll_inv_schedule touches_schedule)
  have k: "kept x b (after_swap t now p)" if "x \<in> {PollP, TimeP}" for x
    unfolding after_swap_def Let_def a_def [symmetric] b_def [symmetric]
    using that by (intro foot kept_refl) auto
  have "touches (\<lambda>c. c = PollModels) b (after_swap t now p)"
    by (rule kept_time [OF k touches_ok [OF b(2)]]) simp
  then have 1: "poll_ok (after_swap t now p)"
    using b(1,3) k [of PollP] k [of TimeP] touches_ok holds_touched
    by (fastforce simp: poll_ok_def poll_inv_def part_defs)
  have "touches (\<lambda>c. c = PollModels) p b" using b(2) a [of TimeP] touches_from [of a p] by simp
  then have "touches (\<lambda>c. c = PollModels) p (after_swap t now p)" by (rule touches_kept) (rule k, simp)
  with 1 show ?thesis by blast
qed

lemma after_swap_dialogs:
  fixes p :: "'a app_page_scheme"
  assumes "dialogs_ok p"
  shows "dialogs_ok (after_swap t now p)"
proof -
  define r where "r = (let p1 = exposure_afterSwap t now p;
      p2 = (if target_is ''operations'' t then restore_details p1 else p1); p3 = scheduleModelPoll 400 p2;
      p4 = (if get_el p3 (js ''test-language'') = None then p3 else sync_panel p3);
      p5 = (if target_is ''panel'' t \<or> target_is ''models-list'' t then initModelFilters p4 else p4)
    in if target_is ''models-list'' t then list_afterSwap p5 else p5)"
  have "kept DialogsP p r" unfolding r_def Let_def restore_details_def by (intro foot kept_refl) auto
  then have "dialogs_ok r" using dialogs_kept assms by blast
  moreover have "after_swap t now p = detail_afterSwap (map_option snd t) r"
    by (simp add: after_swap_def r_def Let_def)
  ultimately show ?thesis using dialog_step_ok [of r "DetailSwap (map_option snd t)"] by simp
qed

lemma after_swap_grid: "\<not> target_is ''models-list'' t \<Longrightarrow> kept GridP p (after_swap t now p)"
  unfolding after_swap_def Let_def restore_details_def by (simp only: if_False, intro foot kept_refl) auto

text \<open>A swap in general: what htmx delivers may change the grid and the cards, and the grid is in order
  afterwards.\<close>

lemma page_ok_swap:
  fixes p :: "'a app_page_scheme"
  assumes ok: "page_ok (d, p)" and r: "\<And>x. x \<notin> {GridP, PollP, BannerP} \<Longrightarrow> kept x p r"
    and pt: "poll_timer r = poll_timer p"
    and g: "settling (after_swap t now r) \<or> kept GridP p r \<and> \<not> target_is ''models-list'' t"
  shows "page_ok (d, after_swap t now r)"
proof -
  let ?q = "after_swap t now r"
  have p: "timers_ok p" "slot_ok (timers p) is_poll (poll_timer p)" "holds (\<lambda>c. c = PollModels) p (poll_timer p)"
    "dialogs_ok p" "settling p"
    using ok page_ok_timers [OF ok] by (simp_all add: page_ok_def poll_ok_def poll_inv_def)
  have tm: "timers r = timers p" "next_timer r = next_timer p" using r [of TimeP] by simp_all
  then have "timers_ok r" "slot_ok (timers r) is_poll (poll_timer r)" "holds (\<lambda>c. c = PollModels) r (poll_timer r)"
    using p(1-3) pt by (simp_all add: timers_ok_def holds_def)
  note s = after_swap_poll [OF this, of t now]
  have t: "touches (\<lambda>c. c = PollModels) p ?q" using s touches_from [OF tm] by blast
  have k: "changes_only {GridP, PollP, DialogsP, TimeP, BannerP} p ?q"
  proof (rule changes_onlyI)
    fix x assume "x \<notin> {GridP, PollP, DialogsP, TimeP, BannerP}"
    then show "kept x p ?q" by (intro foot r) auto
  qed
  have "dialogs_ok ?q" by (rule after_swap_dialogs, rule dialogs_kept [OF _ p(4)], rule r) simp
  moreover have "settling ?q"
  proof (cases "settling ?q")
    case False
    with g have "kept GridP p ?q" using kept_trans after_swap_grid by blast
    then show ?thesis using grid_kept [OF _ t _ p(5)] by simp
  qed
  ultimately show ?thesis using s by (intro page_ok_frame [OF ok k t]) simp_all
qed

lemma page_ok_swap_step: "page_ok (d, p) \<Longrightarrow> page_ok (d, swap_step now p e)"
proof -
  assume ok: "page_ok (d, p)"
  have pt: "poll_timer (before_swap t q) = poll_timer q" for t and q :: "'a app_page_scheme"
    by (simp add: before_swap_def list_beforeSwap_def Let_def)
  show ?thesis
  proof (cases e)
    case (ModelsSwap r names cs)
    have "page_ok (d, after_swap (models_target r) now (deliver_models names cs (before_swap (models_target r) p)))"
    proof (rule page_ok_swap [OF ok])
      show "kept x p (deliver_models names cs (before_swap (models_target r) p))" if "x \<notin> {GridP, PollP, BannerP}" for x
        using that unfolding deliver_models_def by (intro foot kept_refl) auto
    next
      show "poll_timer (deliver_models names cs (before_swap (models_target r) p)) = poll_timer p"
        by (simp add: deliver_models_def deliver_list_def pt)
    qed (simp add: settling_laid_out models_swap_laid_out)
    with ModelsSwap show ?thesis by simp
  next
    case (OperationsSwap r b)
    let ?t = "Some (r, js ''operations'')"
    have "page_ok (d, after_swap ?t now (deliver_operations b (before_swap ?t p)))"
    proof (rule page_ok_swap [OF ok])
      show "kept x p (deliver_operations b (before_swap ?t p))" for x
        unfolding deliver_operations_def by (intro foot kept_refl)
      then show "settling (after_swap ?t now (deliver_operations b (before_swap ?t p))) \<or>
        kept GridP p (deliver_operations b (before_swap ?t p)) \<and> \<not> target_is ''models-list'' ?t"
        by (simp add: target_is_def js_eq_iff)
    qed (simp add: deliver_operations_def pt)
    with OperationsSwap show ?thesis by (simp add: Let_def)
  next
    case (BannerSwap new fresh)
    let ?t = "Some (banner_ref p, js ''exposure-banner'')"
    have b: "before_swap ?t p = p" by (simp add: before_swap_def target_is_def js_eq_iff)
    have sw: "kept x p (swap_banner new fresh p)" if "x \<noteq> BannerP" for x
      using that by (cases x) (simp_all add: swap_banner_def part_defs get_item_def get_el_def theme_ids_def js_eq_iff)
    have "page_ok (d, after_swap ?t now (swap_banner new fresh (before_swap ?t p)))"
      by (rule page_ok_swap [OF ok]) (simp_all add: b sw del: kept.simps, simp_all add: swap_banner_def target_is_def js_eq_iff)
    with BannerSwap show ?thesis by (simp add: Let_def)
  next
    case (DetailBody r)
    let ?t = "Some (r, js ''model-detail-body'')"
    have "before_swap ?t p = p" by (simp add: before_swap_def target_is_def js_eq_iff)
    then have "page_ok (d, after_swap ?t now (before_swap ?t p))"
      by (intro page_ok_swap [OF ok]) (simp_all add: target_is_def js_eq_iff)
    with DetailBody show ?thesis by (simp add: Let_def)
  qed
qed

section \<open>The page as a whole\<close>

lemma page_ok_step: "page_ok s \<Longrightarrow> page_ok (app_step msg lower s e)"
proof -
  assume "page_ok s"
  moreover obtain d p where s: "s = (d, p)" by force
  ultimately have ok: "page_ok (d, p)" by simp
  show ?thesis
    unfolding s
    by (cases e) (auto simp: page_ok_theme_step page_ok_tab_step page_ok_shell_step page_ok_grid_step page_ok_frame_step
      page_ok_filter_step page_ok_dialog_step page_ok_poll_step page_ok_rec_step page_ok_media_ended page_ok_clip_step page_ok_swap_step ok
      intro!: page_ok_quiet [OF ok] foot kept_refl simp del: kept.simps theme_step.simps)
qed

lemma page_ok_run: "page_ok s \<Longrightarrow> page_ok (foldl (app_step msg lower) s es)"
  by (induction es arbitrary: s) (simp_all add: page_ok_step)

text \<open>A page as it is delivered: some tab is marked active, the token dialog and the toast are hidden, all
  families and dialogs are closed, and the script's variables for timers are empty.\<close>

definition delivered :: "'a app_page_scheme \<Rightarrow> bool" where
  "delivered p \<longleftrightarrow> (\<exists>t \<in> set (tab_els p). tab_active t) \<and> modal_rest p \<and>
     has_class (js ''hidden'') (toast p) \<and> timers p = (\<lambda>_. None) \<and>
     toast_timer p = None \<and> resize_timer p = None \<and> poll_timer p = None \<and> recordingTimer p = None \<and>
     grid_ok p \<and> (\<forall>i < length (fams p). \<not> isFamilyOpen p i) \<and>
     (\<forall>d x. get_dialog p d = Some x \<longrightarrow> \<not> dl_open x \<and> \<not> dl_bound x \<and> dl_listeners x = 0 \<and> dl_opener x = None) \<and>
     (\<forall>b x. get_button p b = Some x \<longrightarrow> at_rest x \<and> pb_timer x = None)"

lemma delivered_parts:
  assumes "delivered p"
  shows "toast_inv p" "hint_inv p" "settling p" "resize_ok p" "dialogs_ok p" "poll_ok p" "tick_ok p"
proof -
  note d = assms [unfolded delivered_def]
  have t: "timers_ok p" using d by (simp add: timers_ok_def)
  show "toast_inv p" using d t by (simp add: toast_inv_def slot_ok_def)
  show "hint_inv p" using d t by (auto simp: hint_inv_def owns_def button_ok_def slot_ok_def)
  show "settling p" using d by (simp add: settling_def placed_def)
  show "resize_ok p" using d by (simp add: resize_ok_def holds_def slot_ok_def)
  show "dialogs_ok p" using d by (auto simp: dialogs_ok_def dialog_ok_def)
  show "poll_ok p" using d t by (simp add: poll_ok_def poll_inv_def holds_def slot_ok_def)
  show "tick_ok p" using d by (simp add: tick_ok_def holds_def)
qed

lemma foot_initTheme: "x \<noteq> ThemeP \<Longrightarrow> kept x p (initTheme dark api p)"
proof -
  assume x: "x \<noteq> ThemeP"
  have "kept x p (q\<lparr>toggle_bound := b\<rparr>)" "kept x p (q\<lparr>toggle_bound := b, media_bound := c\<rparr>)" if "kept x p q" for q b c
    using that x by (cases x; simp add: part_defs get_el_def)+
  moreover have "kept x p (applyTheme dark pref p)" for pref using x by (intro foot kept_refl)
  ultimately show ?thesis by (cases api) (auto simp: initTheme_def Let_def simp del: kept.simps)
qed

lemma foot_start [foot]:
  "kept x p q \<Longrightarrow> x \<noteq> ModalP \<Longrightarrow> kept x p (start_token q)"
  "kept x p q \<Longrightarrow> x \<noteq> TabsP \<Longrightarrow> kept x p (start_tab hash q)"
  by (auto simp: start_token_def start_tab_def Let_def split: option.split intro!: foot simp del: kept.simps)

lemma page_ok_start:
  assumes "delivered p" "api \<noteq> NoListenerApi"
  shows "page_ok (dark, start_page dark api now hash p)"
proof -
  define p1 where "p1 = initTheme dark api p"
  define p2 where "p2 = sync_panel (applyExposureBanner None now p1)"
  define q where "q = start_tab hash (start_token p2)"
  have 1: "kept x p1 p2" if "x \<noteq> BannerP" for x using that unfolding p2_def by (intro foot kept_refl)
  have 0: "kept x p p2" if "x \<notin> {ThemeP, BannerP}" for x
    using kept_trans [OF foot_initTheme 1 [unfolded p1_def]] that by simp
  have 2: "kept x p2 q" if "x \<notin> {ModalP, TabsP}" for x using that unfolding q_def by (intro foot kept_refl) auto
  have "theme_inv (dark, p1)" unfolding p1_def by (rule theme_inv_init [OF assms(2)])
  then have "theme_inv (dark, p2)" by (rule theme_kept [rotated]) (rule 1, simp)
  then have theme: "theme_inv (dark, q)" by (rule theme_kept [rotated]) (rule 2, simp)
  have "tab_els (start_token p2) = tab_els p"
    using 0 [of TabsP] foot_start(1) [OF kept_refl, of TabsP p2] by simp
  then have tabs: "some_tab_shown q"
    unfolding q_def by (intro start_tab_shown) (use assms(1) in \<open>simp add: delivered_def\<close>)
  have "modal_rest p2" using modal_kept [OF 0] assms(1) by (simp add: delivered_def)
  then have "modal_rest (start_token p2)" by (simp add: start_token_def)
  then have modal: "modal_rest q"
    unfolding q_def by (rule modal_kept [rotated]) (intro foot kept_refl, simp)
  have k: "kept x p q" if "x \<notin> {ThemeP, TabsP, ModalP, BannerP}" for x
    using kept_trans [OF 0 2] that by blast
  note d = delivered_parts [OF assms(1)]
  have t: "touches (\<lambda>_. False) p q" by (rule kept_time [OF k]) (use d(1) in \<open>simp_all add: toast_inv_def\<close>)
  have "page_ok (dark, q)"
    unfolding page_ok_def
    using theme tabs modal toast_kept [OF k t _ d(1)] hints_kept [OF k k t _ d(2)] grid_kept [OF k t _ d(3)]
      resize_kept [OF k t _ d(4)] dialogs_kept [OF k d(5)] poll_kept [OF k t _ d(6)] tick_kept [OF k t d(7)]
    by simp
  then show ?thesis by (simp add: q_def p2_def p1_def start_page_def)
qed

lemma page_ok_slots:
  fixes p :: "'a app_page_scheme"
  assumes "page_ok (dark, p)" "timers p h = Some (c, d)" "timers p h' = Some (c, d')"
    and "c \<in> {HideToast, PollModels, RelayoutPanels} \<or> (\<exists>b. c = ResetCopyHint b \<and> get_button p b \<noteq> None)"
  shows "h = h'"
proof -
  have "slot_ok (timers p) is_hide_toast (toast_timer p)" "slot_ok (timers p) is_poll (poll_timer p)"
    "slot_ok (timers p) (\<lambda>c. fst c = RelayoutPanels) (resize_timer p)"
    "\<forall>b x. get_button p b = Some x \<longrightarrow> slot_ok (timers p) (\<lambda>c. fst c = ResetCopyHint b) (pb_timer x)"
    using assms(1) by (simp_all add: page_ok_def toast_inv_def poll_ok_def poll_inv_def resize_ok_def hint_inv_def button_ok_def)
  then have "\<exists>K ho. slot_ok (timers p) K ho \<and> K (c, d) \<and> K (c, d')"
    using assms(4) by (fastforce simp: is_hide_toast_def is_poll_def)
  with assms(2,3) show ?thesis unfolding slot_ok_def by (metis option.inject)
qed

text \<open>C1.  The components do not disturb each other.  From startup on, in every run of events of all
  components, with timers, replies and swaps in any order and several requests in flight: the
  stored theme is shown, one tab is active, the page behind the token dialog is inert exactly
  while the dialog is open; a toast on screen will be hidden; no two timers of one kind are pending,
  be it the toast's, the poll's, the relayout's or that of one pairing button; a poll is scheduled
  only while there is something to poll for; every open family panel is behind its row or a relayout
  is scheduled; each dialog has its opener exactly while it is open and at most one Escape listener;
  and each pairing button rests or has its reset scheduled.\<close>

theorem components_run_together:
  fixes p0 :: "'a app_page_scheme" and es :: "app_event list" and dark :: bool
  assumes "delivered p0" "api \<noteq> NoListenerApi"
    and "(dark', q) = foldl (app_step msg lower) (dark, start_page dark api now hash p0) es"
  shows "shows_theme dark' (readThemePreference q) q \<and> (\<exists>k. shows_tab k q) \<and> modal_rest q \<and>
    (\<not> has_class (js ''hidden'') (toast q) \<longrightarrow> (\<exists>h. timers q h = Some (HideToast, 5000))) \<and>
    (\<forall>c h h' d d'. timers q h = Some (c, d) \<and> timers q h' = Some (c, d') \<and>
       (c \<in> {HideToast, PollModels, RelayoutPanels} \<or> (\<exists>b. c = ResetCopyHint b \<and> get_button q b \<noteq> None)) \<longrightarrow> h = h') \<and>
    (\<forall>h d. timers q h = Some (PollModels, d) \<longrightarrow> visible q \<and> downloading (cards q) \<noteq> []) \<and>
    grid_ok q \<and> (placed q \<or> relayout_pending q \<or> RelayoutFrame \<in> set (frames q)) \<and>
    (\<forall>d x. get_dialog q d = Some x \<longrightarrow> (dl_opener x \<noteq> None \<longleftrightarrow> dl_open x) \<and> dl_listeners x \<le> 1) \<and>
    (\<forall>b x. get_button q b = Some x \<longrightarrow> at_rest x \<or> (\<exists>h. timers q h = Some (ResetCopyHint b, 1600)))"
proof -
  have ok: "page_ok (dark', q)"
    unfolding assms(3) by (rule page_ok_run [OF page_ok_start [OF assms(1,2)]])
  then have "shows_theme dark' (readThemePreference q) q" "\<exists>k. shows_tab k q" "modal_rest q"
    "\<not> has_class (js ''hidden'') (toast q) \<longrightarrow> (\<exists>h. timers q h = Some (HideToast, 5000))"
    "\<forall>h d. timers q h = Some (PollModels, d) \<longrightarrow> visible q \<and> downloading (cards q) \<noteq> []"
    "grid_ok q \<and> (placed q \<or> relayout_pending q \<or> RelayoutFrame \<in> set (frames q))"
    by (auto simp: page_ok_def theme_inv_def some_tab_shown_def toast_inv_def poll_ok_def poll_inv_def settling_def)
  moreover have "\<forall>d x. get_dialog q d = Some x \<longrightarrow> (dl_opener x \<noteq> None \<longleftrightarrow> dl_open x) \<and> dl_listeners x \<le> 1"
    using ok by (simp add: page_ok_def dialogs_ok_def dialog_ok_def)
  moreover have "\<forall>b x. get_button q b = Some x \<longrightarrow> at_rest x \<or> (\<exists>h. timers q h = Some (ResetCopyHint b, 1600))"
    using ok unfolding page_ok_def hint_inv_def button_ok_def by blast
  moreover have "\<forall>c h h' d d'. timers q h = Some (c, d) \<and> timers q h' = Some (c, d') \<and>
       (c \<in> {HideToast, PollModels, RelayoutPanels} \<or> (\<exists>b. c = ResetCopyHint b \<and> get_button q b \<noteq> None)) \<longrightarrow> h = h'"
    using page_ok_slots [OF ok] by blast
  ultimately show ?thesis by blast
qed

section \<open>The microphone on the whole page\<close>



text \<open>Runs of the page in which the record button is pressed only while it does what it says (see
  \<open>calm_run\<close>) and no recorder fails to start; everything else is free, a recorder that stops by itself
  included.\<close>

inductive calm_page_run ::
    "(exn \<Rightarrow> jsstring) \<Rightarrow> (jsstring \<Rightarrow> jsstring) \<Rightarrow> bool \<times> 'a app_page_scheme \<Rightarrow> bool \<times> 'a app_page_scheme \<Rightarrow> bool"
  for msg lower s where
  calm_page_refl: "calm_page_run msg lower s s"
| calm_page_step: "calm_page_run msg lower s (d, p) \<Longrightarrow>
    (e = OnRecorder RecordClick \<Longrightarrow> is_recording p \<or> calm p) \<Longrightarrow>
    (\<And>x. e = OnRecorder x \<Longrightarrow> no_failure x) \<Longrightarrow>
    calm_page_run msg lower s (app_step msg lower (d, p) e)"

inductive_cases calm_page_runE: "calm_page_run msg lower s t"



section \<open>The dismissal of the banner\<close>

text \<open>No step but a dismissal and the swap of the banner itself touches the banner's \<open>hidden\<close>.\<close>

lemma step_keeps_banner:
  assumes "\<And>t. e \<noteq> OnDismiss t" "\<And>new fresh t. e \<noteq> OnSwap (BannerSwap new fresh) t"
  shows "banner_hidden (snd (app_step msg lower (d, p) e)) = banner_hidden p"
proof -
  have "kept BannerP p (snd (app_step msg lower (d, p) e))"
  proof (cases e)
    case (OnTheme x)
    then show ?thesis by (auto intro!: kept_theme_step simp del: kept.simps theme_step.simps)
  next
    case (OnFilter f)
    then show ?thesis by (cases f) (auto intro!: foot kept_refl simp del: kept.simps)
  next
    case (OnSwap x now)
    have t: "\<not> target_is ''exposure-banner'' (models_target r)"
      "\<not> target_is ''exposure-banner'' (Some (r, js ''operations''))"
      "\<not> target_is ''exposure-banner'' (Some (r, js ''model-detail-body''))" for r
      by (simp_all add: models_target_def target_is_def js_eq_iff)
    have "kept BannerP p (deliver_models names cs (before_swap u p))" "kept BannerP p (deliver_operations b (before_swap u p))"
      "kept BannerP p (before_swap u p)" for names cs u b
      unfolding deliver_models_def deliver_operations_def by (intro foot kept_refl; simp)+
    with OnSwap assms(2) t show ?thesis
      by (cases x) (auto simp: Let_def intro: kept_trans [OF _ banner_after_swap] simp del: kept.simps)
  qed (use assms(1) in \<open>auto intro!: foot kept_refl kept_tab_step kept_shell_step kept_grid_step kept_dialog_step
      kept_poll_step kept_rec_step kept_clip_step simp del: kept.simps tab_step.simps shell_step.simps grid_step.simps
      dialog_step.simps poll_step.simps rec_step.simps clip_step.simps\<close>)
  then show ?thesis by simp
qed

lemma banner_swap_hidden:
  assumes "fresh \<noteq> banner_ref p"
  shows "banner_hidden (swap_step t p (BannerSwap new fresh)) = Some (el_hidden new)"
proof -
  let ?t = "Some (banner_ref p, js ''exposure-banner'')"
  have n: "\<not> target_is ''operations'' ?t" "\<not> target_is ''panel'' ?t" "\<not> target_is ''models-list'' ?t"
    "before_swap ?t p = p"
    by (simp_all add: before_swap_def target_is_def js_eq_iff)
  have "kept BannerP (swap_banner new fresh p) (after_swap ?t t (swap_banner new fresh p))"
    unfolding after_swap_def Let_def swapped_banner_untouched [OF assms] by (simp only: n if_False, intro foot kept_refl) auto
  then show ?thesis by (simp add: Let_def n) (simp add: banner_hidden_def swap_banner_def get_el_def)
qed

text \<open>C8.  Dismissing a banner that is shown hides it, and it stays hidden in every run of the page, however
  long, until a swap replaces it: the 24 hours are stored (for times whose deadline is at most
  2 to the 53 milliseconds it is printed and parsed back without loss) but nothing on the page
  ends them, later dismissals included.  The first swap ends them early: the banner it brings, a
  new element, is shown or hidden as it was delivered, whatever the deadline.\<close>

theorem dismissed_until_replaced:
  fixes p :: "'a app_page_scheme" and es :: "app_event list"
  assumes "banner_shown_page p" "now + EXPOSURE_DISMISS_MS \<le> 2 ^ 53"
    and "\<forall>t. OnDismiss t \<in> set es \<longrightarrow> t + EXPOSURE_DISMISS_MS \<le> 2 ^ 53"
    and "\<forall>new fresh t. OnSwap (BannerSwap new fresh) t \<notin> set es"
    and "(d', q) = foldl (app_step msg lower) (d, dismissExposureBanner now p) es"
  shows "exposureDismissedUntil (dismissExposureBanner now p) = of_nat (now + 24 * 60 * 60 * 1000) \<and>
    banner_hidden q = Some True \<and>
    (\<forall>new fresh t. fresh \<noteq> banner_ref q \<longrightarrow>
       banner_hidden (snd (app_step msg lower (d', q) (OnSwap (BannerSwap new fresh) t))) = Some (el_hidden new))"
proof -
  have run: "banner_hidden (snd (foldl (app_step msg lower) (d, x) es)) = Some True"
    if "banner_hidden x = Some True" for x
    using that assms(3,4)
  proof (induction es arbitrary: d x)
    case (Cons e es)
    obtain d1 y where y: "app_step msg lower (d, x) e = (d1, y)" by force
    have "banner_hidden y = Some True"
    proof (cases "\<exists>t. e = OnDismiss t")
      case True
      with Cons.prems(1,2) y dismiss_hides show ?thesis by fastforce
    next
      case False
      then show ?thesis using step_keeps_banner [of e msg lower d x] Cons.prems(1,3) y by force
    qed
    with Cons.IH [of y d1] Cons.prems(2,3) y show ?case by simp
  qed simp
  have "banner_hidden (dismissExposureBanner now p) = Some True" by (rule dismiss_hides [OF assms(2)]) (simp add: assms(1))
  from run [OF this] have "banner_hidden q = Some True" by (simp flip: assms(5))
  moreover have "exposureDismissedUntil (dismissExposureBanner now p) = of_nat (now + 24 * 60 * 60 * 1000)"
    using dismissed_until_dismiss [OF assms(2)] by (simp add: EXPOSURE_DISMISS_MS_def)
  moreover have "banner_hidden (snd (app_step msg lower (d', q) (OnSwap (BannerSwap new fresh) t))) = Some (el_hidden new)"
    if "fresh \<noteq> banner_ref q" for new fresh t
    unfolding app_step.simps snd_conv by (rule banner_swap_hidden [OF that])
  ultimately show ?thesis by blast
qed

section \<open>A banner behind the dialog\<close>

lemma inert_applied:
  "map_option el_inert (get_el (applyExposureBanner r now p) (js ''exposure-banner'')) =
   map_option el_inert (get_el p (js ''exposure-banner''))"
  by (cases "get_el p (js ''exposure-banner'')")
    (auto simp: applyExposureBanner_def Let_def set_attr_def set_hidden_def split: option.split)

lemma schedule_els [simp]: "get_el (scheduleModelPoll d p) i = get_el p i" "overlay (scheduleModelPoll d p) = overlay p"
  by (simp_all add: scheduleModelPoll_def Let_def start_timer_def stop_timer_def get_el_def split: option.split)

text \<open>C16.  A banner that is swapped in while the token dialog is open can be reached behind it: the
  inertness is set when the dialog opens and closes, on the elements there are at that time, and the
  handlers of the swap do not set it on the new one.\<close>

theorem new_banner_escapes_dialog:
  fixes p :: "'a app_page_scheme" and new :: elem and fresh now :: nat
  assumes "overlay_open p" "\<not> el_inert new"
  defines "q \<equiv> swap_step now p (BannerSwap new fresh)"
  shows "overlay_open q \<and> (\<exists>e. get_el q (js ''exposure-banner'') = Some e \<and> \<not> el_inert e)"
proof -
  let ?t = "Some (banner_ref p, js ''exposure-banner'')"
  have n: "\<not> target_is ''operations'' ?t" "\<not> target_is ''panel'' ?t" "\<not> target_is ''models-list'' ?t"
    "before_swap ?t p = p" "exposure_afterSwap ?t now x = applyExposureBanner ?t now x"
    "detail_afterSwap (map_option snd ?t) y = y" for x y :: "'a app_page_scheme"
    by (simp_all add: before_swap_def target_is_def exposure_afterSwap_def detail_afterSwap_def js_eq_iff)
  define r where "r = applyExposureBanner ?t now (swap_banner new fresh p)"
  define s where "s = scheduleModelPoll 400 r"
  have q: "q = (if get_el s (js ''test-language'') = None then s else sync_panel s)"
    unfolding q_def swap_step.simps Let_def after_swap_def n r_def s_def by (simp only: n if_False simp_thms)
  have "overlay s = overlay p" "get_el s i = get_el r i" for i by (simp_all add: s_def r_def swap_banner_def)
  moreover have "overlay q = overlay s" "get_el q i = get_el s i" for i by (simp_all add: q)
  moreover have "map_option el_inert (get_el r (js ''exposure-banner'')) = Some (el_inert new)"
    unfolding r_def inert_applied by (simp add: swap_banner_def get_el_def)
  ultimately show ?thesis using assms(1,2) by (auto simp: overlay_open_def)
qed

section \<open>Examples\<close>

lemma delivered_start: "delivered app_start"
proof -
  have "dialogs app_start = [MODEL_DETAIL \<mapsto> closed_dialog, QR_ZOOM \<mapsto> closed_dialog]"
    "pair_buttons app_start = [0 \<mapsto> gateway_button]" "grid_kids app_start = []" "toast_timer app_start = None"
    "resize_timer app_start = None" "poll_timer app_start = None" "recordingTimer app_start = None"
    by (simp_all add: start_pages)
  then show ?thesis
    by (auto simp: delivered_def index_tabs_def page_tab_def modal_rest_def overlay_open_def grid_ok_def grid_wf_def
      closed_dialog_def gateway_button_def at_rest_def get_dialog_def get_button_def class_add_def set_attr_def
      has_class_def js_bool_def blank_def split: if_splits)
qed

theorem components_run_together_witness:
  "let s = foldl (app_step (\<lambda>_. []) (\<lambda>x. x)) (False, start_page False AddListener 0 (js ''models'') app_start)
       [OnSwap (ModelsSwap 5 [js ''A'', js ''B''] [card_start]) 9, OnGrid (FamilyClick 1), OnFilter (RailToggle (js ''900px'')),
        OnClip (CopyPairingClick 0 True), OnPoll (VisibilityChange True), OnClip (CopyDone 0 True), OnTheme ToggleClick,
        OnShell (ResponseError 500 (Inl SyntaxError))]
   in \<exists>h k. timers (snd s) h = Some (HideToast, 5000) \<and> shows_tab k (snd s) \<and> modal_rest (snd s)"
proof -
  let ?es = "[OnSwap (ModelsSwap 5 [js ''A'', js ''B''] [card_start]) 9, OnGrid (FamilyClick 1), OnFilter (RailToggle (js ''900px'')),
        OnClip (CopyPairingClick 0 True), OnPoll (VisibilityChange True), OnClip (CopyDone 0 True), OnTheme ToggleClick]"
  define s where "s = foldl (app_step (\<lambda>_. []) (\<lambda>x. x)) (False, start_page False AddListener 0 (js ''models'') app_start)
       (?es @ [OnShell (ResponseError 500 (Inl SyntaxError))])"
  obtain d p where p: "foldl (app_step (\<lambda>_. []) (\<lambda>x. x)) (False, start_page False AddListener 0 (js ''models'') app_start) ?es = (d, p)"
    by force
  obtain d' q where q: "s = (d', q)" by force
  have "app_step (\<lambda>_. []) (\<lambda>x. x) (d, p) (OnShell (ResponseError 500 (Inl SyntaxError))) = s"
    unfolding s_def foldl_append p by simp
  then have "q = responseError 500 (Inl SyntaxError) p" by (simp add: q)
  then have "\<not> has_class (js ''hidden'') (toast q)"
    by (simp add: responseError_def showToast_eq class_toggle_def class_add_def class_remove_def has_class_def)
  moreover note components_run_together [OF delivered_start _ q [unfolded s_def, symmetric]]
  ultimately have "\<exists>h k. timers (snd s) h = Some (HideToast, 5000) \<and> shows_tab k (snd s) \<and> modal_rest (snd s)"
    by (simp add: q)
  then show ?thesis unfolding s_def Let_def append.simps .
qed



theorem new_banner_escapes_dialog_witness:
  "overlay_open (swap_step 0 (showOverlay [] app_start) (BannerSwap blank 1)) \<and>
   (\<exists>e. get_el (swap_step 0 (showOverlay [] app_start) (BannerSwap blank 1)) (js ''exposure-banner'') = Some e \<and> \<not> el_inert e)"
  by (rule new_banner_escapes_dialog) (simp_all add: blank_def)

theorem dismissed_until_replaced_witness:
  "\<exists>d q. (d, q) = foldl (app_step (\<lambda>_. []) (\<lambda>x. x)) (False, dismissExposureBanner 1700000000000 app_start)
       [OnDismiss 1700100000000, OnTheme ToggleClick, OnSwap (OperationsSwap 3 True) 1700200000000] \<and>
     banner_hidden q = Some True"
proof -
  let ?s = "foldl (app_step (\<lambda>_. []) (\<lambda>x. x)) (False, dismissExposureBanner 1700000000000 app_start)
       [OnDismiss 1700100000000, OnTheme ToggleClick, OnSwap (OperationsSwap 3 True) 1700200000000]"
  obtain d q where s: "(d, q) = ?s" by (metis surj_pair)
  have "banner_shown_page app_start" by (simp add: banner_shown_page_def blank_def)
  from dismissed_until_replaced [OF this _ _ _ s] have "banner_hidden q = Some True"
    by (simp add: EXPOSURE_DISMISS_MS_def)
  with s show ?thesis by blast
qed

end
