(* ===== verification/Site.thy ===== *)
theory Site
  imports Dom
begin

text \<open>
  The public site's script (\<open>web/script.js\<close>): the navigation menu of small screens, the clock and the
  year, the elements that are revealed while scrolling, and the list of questions of which one is
  open at a time.  The elements are looked up once when the script runs, so they are fields of the
  state.  The \<open>toggle\<close> event of a \<open><details>\<close> is delivered later, so opening and closing are
  separated from the handler by a queue.
\<close>

section \<open>State\<close>

text \<open>A reveal node with whether the observer still watches it.\<close>

record reveal_node =
  rv_el :: elem
  rv_observed :: bool

text \<open>\<open>menuLabel\<close> is the label inside the toggle; \<open>faqItems\<close> are the \<open>open\<close> flags of the questions and
  \<open>toggles\<close> their \<open>toggle\<close> events that have not been delivered.\<close>

record site_page = page +
  menuToggle :: "elem option"
  menuLabel :: "elem option"
  navigation :: "elem option"
  timeNode :: "elem option"
  yearNodes :: "elem list"
  revealNodes :: "reveal_node list"
  faqItems :: "bool list"
  toggles :: "nat list"

section \<open>The menu\<close>

definition toggle_ref :: focus_ref where
  "toggle_ref = Nth (js ''[data-menu-toggle]'') 0"

text \<open>The listeners are attached only if the toggle and the navigation exist.\<close>

definition menu_bound :: "'a site_page_scheme \<Rightarrow> bool" where
  "menu_bound p \<longleftrightarrow> menuToggle p \<noteq> None \<and> navigation p \<noteq> None"

definition set_menu :: "bool \<Rightarrow> 'a site_page_scheme \<Rightarrow> 'a site_page_scheme" where
  "set_menu opened p =
     p\<lparr>menuToggle := map_option (set_attr (js ''aria-expanded'') (js_bool opened)) (menuToggle p),
       menuLabel := map_option (set_text (if opened then js ''Close navigation'' else js ''Open navigation'')) (menuLabel p),
       navigation := map_option (if opened then class_add (js ''is-open'') else class_remove (js ''is-open'')) (navigation p)\<rparr>"

definition closeNavigation :: "bool \<Rightarrow> 'a site_page_scheme \<Rightarrow> 'a site_page_scheme" where
  "closeNavigation returnFocus p =
     (let p1 = set_menu False p in if returnFocus then set_focus toggle_ref p1 else p1)"

definition menu_expanded :: "'a site_page_scheme \<Rightarrow> bool" where
  "menu_expanded p \<longleftrightarrow> (case menuToggle p of None \<Rightarrow> False
     | Some e \<Rightarrow> el_attrs e (js ''aria-expanded'') = Some (js ''true''))"

definition menu_click :: "'a site_page_scheme \<Rightarrow> 'a site_page_scheme" where
  "menu_click p =
     (if \<not> menu_bound p then p else if menu_expanded p then closeNavigation False p else set_menu True p)"

text \<open>A click inside the navigation: whether its target is a link.\<close>

definition navigation_click :: "bool \<Rightarrow> 'a site_page_scheme \<Rightarrow> 'a site_page_scheme" where
  "navigation_click on_link p = (if menu_bound p \<and> on_link then closeNavigation False p else p)"

definition menu_key :: "jsstring \<Rightarrow> 'a site_page_scheme \<Rightarrow> 'a site_page_scheme" where
  "menu_key key p =
     (if menu_bound p \<and> key = js ''Escape'' \<and> menu_expanded p then closeNavigation True p else p)"

definition menu_resize :: "nat \<Rightarrow> 'a site_page_scheme \<Rightarrow> 'a site_page_scheme" where
  "menu_resize innerWidth p =
     (if menu_bound p \<and> 920 < innerWidth \<and> menu_expanded p then closeNavigation False p else p)"

section \<open>The clock\<close>

text \<open>\<open>time_text\<close> is the locale's format of the hour and minute, and \<open>year\<close> the year of the time zone.\<close>

definition updateClock :: "jsstring \<Rightarrow> int \<Rightarrow> 'a site_page_scheme \<Rightarrow> 'a site_page_scheme" where
  "updateClock time_text year p =
     p\<lparr>timeNode := map_option (set_text time_text) (timeNode p),
       yearNodes := map (set_text ((if year < 0 then js ''-'' else []) @ js_nat (nat \<bar>year\<bar>))) (yearNodes p)\<rparr>"

section \<open>Revealing\<close>

definition reveal :: "reveal_node \<Rightarrow> reveal_node" where
  "reveal r = r\<lparr>rv_el := class_add (js ''is-visible'') (rv_el r)\<rparr>"

definition reveal_all :: "'a site_page_scheme \<Rightarrow> 'a site_page_scheme" where
  "reveal_all p = p\<lparr>revealNodes := map reveal (revealNodes p)\<rparr>"

text \<open>\<open>observe\<close> says that motion is not reduced and the browser has \<open>IntersectionObserver\<close>.\<close>

definition start_reveal :: "bool \<Rightarrow> 'a site_page_scheme \<Rightarrow> 'a site_page_scheme" where
  "start_reveal observe p =
     (if \<not> observe then reveal_all p
      else fst (start_timer (RevealAll, 900)
        (p\<lparr>revealNodes := map (\<lambda>r. r\<lparr>rv_observed := True\<rparr>) (revealNodes p)\<rparr>)))"

text \<open>The observer's callback, for the entries it is given: an index and \<open>isIntersecting\<close>.\<close>

definition observed :: "(nat \<times> bool) list \<Rightarrow> 'a site_page_scheme \<Rightarrow> 'a site_page_scheme" where
  "observed entries p =
     p\<lparr>revealNodes := map (\<lambda>(k, r). if (k, True) \<in> set entries \<and> rv_observed r
        then (reveal r)\<lparr>rv_observed := False\<rparr> else r) (enumerate 0 (revealNodes p))\<rparr>"

section \<open>Questions\<close>

text \<open>The browser's part: a change of \<open>open\<close> queues a \<open>toggle\<close> event and replaces one of the same
  element that is still queued.\<close>

definition set_item_open :: "nat \<Rightarrow> bool \<Rightarrow> 'a site_page_scheme \<Rightarrow> 'a site_page_scheme" where
  "set_item_open k b p =
     (if k < length (faqItems p) \<and> faqItems p ! k \<noteq> b
      then p\<lparr>faqItems := (faqItems p)[k := b], toggles := removeAll k (toggles p) @ [k]\<rparr> else p)"

definition summary_click :: "nat \<Rightarrow> 'a site_page_scheme \<Rightarrow> 'a site_page_scheme" where
  "summary_click k p = (if k < length (faqItems p) then set_item_open k (\<not> faqItems p ! k) p else p)"

text \<open>The listener of the item: an item that is open closes all others.\<close>

definition faq_toggle :: "nat \<Rightarrow> 'a site_page_scheme \<Rightarrow> 'a site_page_scheme" where
  "faq_toggle k p =
     (if \<not> (k < length (faqItems p) \<and> faqItems p ! k) then p
      else foldl (\<lambda>q j. if j \<noteq> k then set_item_open j False q else q) p [0..<length (faqItems p)])"

text \<open>The next \<open>toggle\<close> event is delivered.\<close>

definition deliver_toggle :: "'a site_page_scheme \<Rightarrow> 'a site_page_scheme" where
  "deliver_toggle p = (case toggles p of [] \<Rightarrow> p | k # ks \<Rightarrow> faq_toggle k (p\<lparr>toggles := ks\<rparr>))"

section \<open>Runs\<close>

datatype site_event =
    MenuClick
  | NavigationClick bool
  | MenuKey jsstring
  | MenuResize nat
  | ClockTick jsstring int
  | Observed "(nat \<times> bool) list"
  | SiteTimer nat
  | SummaryClick nat
  | ToggleEvent

fun site_step :: "'a site_page_scheme \<Rightarrow> site_event \<Rightarrow> 'a site_page_scheme" where
  "site_step p MenuClick = menu_click p"
| "site_step p (NavigationClick l) = navigation_click l p"
| "site_step p (MenuKey k) = menu_key k p"
| "site_step p (MenuResize w) = menu_resize w p"
| "site_step p (ClockTick t y) = updateClock t y p"
| "site_step p (Observed es) = observed es p"
| "site_step p (SiteTimer h) =
     (case timers p h of
        Some (RevealAll, d) \<Rightarrow> reveal_all (stop_timer (Some h) p)
      | _ \<Rightarrow> p)"
| "site_step p (SummaryClick k) = summary_click k p"
| "site_step p ToggleEvent = deliver_toggle p"

section \<open>The menu is consistent\<close>

definition menu_ok :: "'a site_page_scheme \<Rightarrow> bool" where
  "menu_ok p \<longleftrightarrow> menu_bound p \<and>
     (\<forall>e. menuToggle p = Some e \<longrightarrow> el_attrs e (js ''aria-expanded'') = Some (js_bool (menu_expanded p))) \<and>
     (\<forall>e. navigation p = Some e \<longrightarrow> has_class (js ''is-open'') e = menu_expanded p) \<and>
     (\<forall>e. menuLabel p = Some e \<longrightarrow>
        el_text e = (if menu_expanded p then js ''Close navigation'' else js ''Open navigation''))"

lemma menu_set [simp]:
  assumes "menu_bound p"
  shows "menu_ok (set_menu b p)" "menu_expanded (set_menu b p) = b"
proof -
  obtain t n where "menuToggle p = Some t" "navigation p = Some n" using assms by (auto simp: menu_bound_def)
  then show "menu_ok (set_menu b p)" "menu_expanded (set_menu b p) = b"
    by (auto simp: menu_ok_def menu_bound_def set_menu_def menu_expanded_def set_attr_def set_text_def
        class_add_def class_remove_def has_class_def js_bool_def js_eq_iff)
qed

lemma menu_close [simp]: "menu_bound p \<Longrightarrow> menu_ok (closeNavigation f p)" "menu_bound p \<Longrightarrow> \<not> menu_expanded (closeNavigation f p)"
proof -
  have f: "menu_ok (set_focus r q) = menu_ok q" "menu_expanded (set_focus r q) = menu_expanded q"
    for r and q :: "'a site_page_scheme"
    by (simp_all add: menu_ok_def menu_bound_def menu_expanded_def set_focus_def)
  show "menu_bound p \<Longrightarrow> menu_ok (closeNavigation f p)" "menu_bound p \<Longrightarrow> \<not> menu_expanded (closeNavigation f p)"
    by (simp_all add: closeNavigation_def Let_def f)
qed

lemma menu_ok_cong:
  "menuToggle q = menuToggle p \<Longrightarrow> menuLabel q = menuLabel p \<Longrightarrow> navigation q = navigation p \<Longrightarrow> menu_ok q = menu_ok p"
  by (simp add: menu_ok_def menu_bound_def menu_expanded_def)

lemma set_item_open_frame [simp]:
  "menuToggle (set_item_open k b p) = menuToggle p" "menuLabel (set_item_open k b p) = menuLabel p"
  "navigation (set_item_open k b p) = navigation p" "length (faqItems (set_item_open k b p)) = length (faqItems p)"
  by (simp_all add: set_item_open_def)

lemma close_loop_frame:
  fixes p :: "'a site_page_scheme" and k :: nat and "is" :: "nat list"
  defines "q \<equiv> foldl (\<lambda>q j. if j \<noteq> k then set_item_open j False q else q) p is"
  shows "menuToggle q = menuToggle p \<and> menuLabel q = menuLabel p \<and> navigation q = navigation p \<and>
    length (faqItems q) = length (faqItems p)"
  unfolding q_def by (induction "is" arbitrary: p) auto

text \<open>Each part of the page is changed by its own events only.\<close>

fun of_menu :: "site_event \<Rightarrow> bool" where
  "of_menu MenuClick = True"
| "of_menu (NavigationClick l) = True"
| "of_menu (MenuKey k) = True"
| "of_menu (MenuResize w) = True"
| "of_menu _ = False"

fun of_faq :: "site_event \<Rightarrow> bool" where
  "of_faq (SummaryClick k) = True"
| "of_faq ToggleEvent = True"
| "of_faq _ = False"

lemma step_keeps_menu:
  "\<not> of_menu e \<Longrightarrow> menuToggle (site_step p e) = menuToggle p \<and> menuLabel (site_step p e) = menuLabel p \<and>
     navigation (site_step p e) = navigation p"
  by (cases e)
    (auto simp: deliver_toggle_def faq_toggle_def close_loop_frame reveal_all_def stop_timer_def summary_click_def
      updateClock_def observed_def split: list.split option.split callback.split)

lemma step_keeps_faq:
  "\<not> of_faq e \<Longrightarrow> faqItems (site_step p e) = faqItems p \<and> toggles (site_step p e) = toggles p"
  by (cases e)
    (auto simp: menu_click_def navigation_click_def menu_key_def menu_resize_def closeNavigation_def set_menu_def
      set_focus_def reveal_all_def stop_timer_def updateClock_def observed_def split: option.split callback.split)

lemma menu_ok_step: "menu_ok p \<Longrightarrow> menu_ok (site_step p e)"
proof (cases "of_menu e")
  case True
  then show "menu_ok p \<Longrightarrow> ?thesis"
    by (cases e) (auto simp: menu_click_def navigation_click_def menu_key_def menu_resize_def menu_ok_def [of p])
next
  case False
  then show "menu_ok p \<Longrightarrow> ?thesis" using step_keeps_menu [OF False, of p] menu_ok_cong by metis
qed

text \<open>C39.  The menu of the site never contradicts itself: in every run of clicks, keys, resizes and all
  the other events of the page, the toggle's \<open>aria-expanded\<close>, the class of the navigation and the
  label say the same; Escape closes an open menu and puts the focus on its toggle, and a link, a
  wide window or a second click close it.\<close>

theorem menu_consistent:
  fixes p :: "'a site_page_scheme" and es :: "site_event list"
  assumes "menu_ok p"
  defines "q \<equiv> foldl site_step p es"
  shows "(\<exists>t n. menuToggle q = Some t \<and> navigation q = Some n \<and>
      el_attrs t (js ''aria-expanded'') = Some (js_bool (has_class (js ''is-open'') n)) \<and>
      (\<forall>l. menuLabel q = Some l \<longrightarrow>
        el_text l = (if has_class (js ''is-open'') n then js ''Close navigation'' else js ''Open navigation''))) \<and>
    menu_expanded (menu_click q) = (\<not> menu_expanded q) \<and>
    (menu_expanded q \<longrightarrow> \<not> menu_expanded (menu_key (js ''Escape'') q) \<and>
      focused (menu_key (js ''Escape'') q) = Some toggle_ref) \<and>
    \<not> menu_expanded (navigation_click True q) \<and> (920 < w \<longrightarrow> \<not> menu_expanded (menu_resize w q))"
proof -
  have ok: "menu_ok q" unfolding q_def using assms(1) by (induction es arbitrary: p) (simp_all add: menu_ok_step)
  then have b: "menu_bound q" by (simp add: menu_ok_def)
  then obtain t n where "menuToggle q = Some t" "navigation q = Some n" by (auto simp: menu_bound_def)
  with ok have "\<exists>t n. menuToggle q = Some t \<and> navigation q = Some n \<and>
      el_attrs t (js ''aria-expanded'') = Some (js_bool (has_class (js ''is-open'') n)) \<and>
      (\<forall>l. menuLabel q = Some l \<longrightarrow>
        el_text l = (if has_class (js ''is-open'') n then js ''Close navigation'' else js ''Open navigation''))"
    by (auto simp: menu_ok_def)
  moreover have "focused (menu_key (js ''Escape'') q) = Some toggle_ref" if "menu_expanded q"
    using that b by (simp add: menu_key_def closeNavigation_def Let_def)
  ultimately show ?thesis
    using b by (simp add: menu_click_def menu_key_def navigation_click_def menu_resize_def)
qed

section \<open>One question at a time\<close>

definition is_open :: "'a site_page_scheme \<Rightarrow> nat \<Rightarrow> bool" where
  "is_open p k \<longleftrightarrow> k < length (faqItems p) \<and> faqItems p ! k"

text \<open>Of two questions that are both open, one has an event to come; events come for items, one each.\<close>

definition faq_ok :: "'a site_page_scheme \<Rightarrow> bool" where
  "faq_ok p \<longleftrightarrow> (\<forall>i j. is_open p i \<and> is_open p j \<and> i \<noteq> j \<longrightarrow> i \<in> set (toggles p) \<or> j \<in> set (toggles p)) \<and>
     distinct (toggles p) \<and> set (toggles p) \<subseteq> {..<length (faqItems p)}"

lemma faq_ok_cong: "faqItems q = faqItems p \<Longrightarrow> toggles q = toggles p \<Longrightarrow> faq_ok q = faq_ok p"
  by (simp add: faq_ok_def is_open_def)

lemma set_item_open_items:
  "is_open (set_item_open k b p) i \<longleftrightarrow> (if i = k then k < length (faqItems p) \<and> b else is_open p i)"
  by (auto simp: set_item_open_def is_open_def nth_list_update)

lemma set_item_open_toggles:
  "set (toggles (set_item_open k b p)) =
     (if k < length (faqItems p) \<and> faqItems p ! k \<noteq> b then insert k (set (toggles p)) else set (toggles p))"
  by (auto simp: set_item_open_def)

lemma distinct_set_item_open: "distinct (toggles p) \<Longrightarrow> distinct (toggles (set_item_open k b p))"
  by (simp add: set_item_open_def distinct_removeAll)

lemma close_loop:
  fixes p :: "'a site_page_scheme" and k :: nat and "is" :: "nat list"
  assumes "distinct (toggles p)" "set (toggles p) \<subseteq> {..<length (faqItems p)}" "k \<notin> set (toggles p)"
  defines "q \<equiv> foldl (\<lambda>q j. if j \<noteq> k then set_item_open j False q else q) p is"
  shows "(\<forall>i. is_open q i \<longleftrightarrow> is_open p i \<and> (i = k \<or> i \<notin> set is)) \<and> distinct (toggles q) \<and>
    set (toggles q) \<subseteq> {..<length (faqItems q)} \<and> k \<notin> set (toggles q) \<and> length (faqItems q) = length (faqItems p)"
  using assms(1-3) unfolding q_def
proof (induction "is" arbitrary: p)
  case (Cons j "is")
  let ?p = "if j \<noteq> k then set_item_open j False p else p"
  have "distinct (toggles ?p)" "set (toggles ?p) \<subseteq> {..<length (faqItems ?p)}" "k \<notin> set (toggles ?p)"
    using Cons.prems by (auto simp: distinct_set_item_open set_item_open_toggles)
  from Cons.IH [OF this] show ?case
    by (auto simp: set_item_open_items split: if_splits)
qed simp

text \<open>After the event of an open item only that item is open, and it has no event to come.\<close>

lemma faq_toggle_open:
  assumes "faq_ok p" "toggles p = k # ks" "is_open p k"
  shows "(\<forall>i. is_open (deliver_toggle p) i \<longleftrightarrow> i = k) \<and> k \<notin> set (toggles (deliver_toggle p)) \<and>
    distinct (toggles (deliver_toggle p)) \<and> set (toggles (deliver_toggle p)) \<subseteq> {..<length (faqItems p)} \<and>
    length (faqItems (deliver_toggle p)) = length (faqItems p)"
proof -
  let ?p = "p\<lparr>toggles := ks\<rparr>"
  have f: "is_open ?p = is_open p" "length (faqItems ?p) = length (faqItems p)" by (simp_all add: is_open_def fun_eq_iff)
  have "deliver_toggle p = foldl (\<lambda>q j. if j \<noteq> k then set_item_open j False q else q) ?p [0..<length (faqItems p)]"
    using assms(2,3) by (simp add: deliver_toggle_def faq_toggle_def is_open_def)
  moreover have "distinct (toggles ?p)" "set (toggles ?p) \<subseteq> {..<length (faqItems ?p)}" "k \<notin> set (toggles ?p)"
    using assms(1,2) by (auto simp: faq_ok_def)
  ultimately show ?thesis
    using close_loop [of ?p k "[0..<length (faqItems p)]"] assms(3) by (auto simp: f) (auto simp: is_open_def)
qed

lemma faq_toggle_closed:
  "toggles p = k # ks \<Longrightarrow> \<not> is_open p k \<Longrightarrow> deliver_toggle p = p\<lparr>toggles := ks\<rparr>"
  by (simp add: deliver_toggle_def faq_toggle_def is_open_def)

lemma faq_ok_deliver: "faq_ok p \<Longrightarrow> faq_ok (deliver_toggle p)"
proof (cases "toggles p")
  case (Cons k ks)
  assume ok: "faq_ok p"
  show ?thesis
  proof (cases "is_open p k")
    case True
    from faq_toggle_open [OF ok Cons True] show ?thesis by (simp add: faq_ok_def)
  next
    case False
    with ok Cons show ?thesis
      unfolding faq_toggle_closed [OF Cons False] by (auto simp: faq_ok_def is_open_def)
  qed
qed (simp add: deliver_toggle_def)

lemma faq_ok_click: "faq_ok p \<Longrightarrow> faq_ok (summary_click k p)"
  unfolding faq_ok_def summary_click_def
  by (auto simp: set_item_open_items set_item_open_toggles distinct_set_item_open split: if_splits)

lemma faq_ok_step: "faq_ok p \<Longrightarrow> faq_ok (site_step p e)"
proof (cases "of_faq e")
  case True
  then show "faq_ok p \<Longrightarrow> ?thesis" by (cases e) (simp_all add: faq_ok_deliver faq_ok_click)
next
  case False
  then show "faq_ok p \<Longrightarrow> ?thesis" using step_keeps_faq [OF False, of p] faq_ok_cong by metis
qed

text \<open>Events of closed items only leave the queue.\<close>

lemma drain_closed:
  "\<forall>k \<in> set (toggles p). \<not> is_open p k \<Longrightarrow>
     toggles ((deliver_toggle ^^ length (toggles p)) p) = [] \<and>
     faqItems ((deliver_toggle ^^ length (toggles p)) p) = faqItems p"
proof (induction "toggles p" arbitrary: p)
  case (Cons k ks)
  note t = Cons.hyps(2) [symmetric]
  have "\<not> is_open p k" using Cons.prems unfolding t by simp
  then have d: "deliver_toggle p = p\<lparr>toggles := ks\<rparr>" by (rule faq_toggle_closed [OF t])
  have "\<forall>j \<in> set (toggles (deliver_toggle p)). \<not> is_open (deliver_toggle p) j"
    using Cons.prems unfolding t by (simp add: d is_open_def)
  then have "toggles ((deliver_toggle ^^ length ks) (deliver_toggle p)) = [] \<and>
      faqItems ((deliver_toggle ^^ length ks) (deliver_toggle p)) = faqItems p"
    using Cons.hyps(1) [of "deliver_toggle p"] by (simp add: d)
  then show ?case unfolding t by (simp add: funpow_swap1)
qed simp

lemma faq_settles_within:
  assumes "faq_ok p"
  shows "\<exists>m \<le> length (toggles p) + length (faqItems p). toggles ((deliver_toggle ^^ m) p) = [] \<and>
    (\<forall>i j. is_open ((deliver_toggle ^^ m) p) i \<and> is_open ((deliver_toggle ^^ m) p) j \<longrightarrow> i = j) \<and>
    ((\<exists>i. is_open p i) \<longrightarrow> (\<exists>i. is_open ((deliver_toggle ^^ m) p) i))"
  using assms
proof (induction "toggles p" arbitrary: p)
  case Nil
  then show ?case by (intro exI [of _ 0]) (auto simp: faq_ok_def)
next
  case (Cons k ks)
  note t = Cons.hyps(2) [symmetric]
  show ?case
  proof (cases "is_open p k")
    case True
    let ?q = "deliver_toggle p"
    note o = faq_toggle_open [OF Cons.prems t True]
    have "card (set (toggles ?q)) \<le> card {..<length (faqItems p)}" using o by (intro card_mono) auto
    then have len: "length (toggles ?q) \<le> length (faqItems p)" using o by (simp add: distinct_card)
    have "\<forall>j \<in> set (toggles ?q). \<not> is_open ?q j" using o by auto
    from drain_closed [OF this] have
      "toggles ((deliver_toggle ^^ Suc (length (toggles ?q))) p) = []"
      "is_open ((deliver_toggle ^^ Suc (length (toggles ?q))) p) = is_open ?q"
      by (simp_all add: funpow_swap1 is_open_def fun_eq_iff)
    with o len t show ?thesis by (intro exI [of _ "Suc (length (toggles ?q))"]) auto
  next
    case False
    let ?q = "p\<lparr>toggles := ks\<rparr>"
    have d: "deliver_toggle p = ?q" by (rule faq_toggle_closed [OF t False])
    have "faq_ok ?q" using faq_ok_deliver [OF Cons.prems] by (simp add: d)
    then obtain m where m: "m \<le> length ks + length (faqItems p)" "toggles ((deliver_toggle ^^ m) ?q) = []"
      "\<forall>i j. is_open ((deliver_toggle ^^ m) ?q) i \<and> is_open ((deliver_toggle ^^ m) ?q) j \<longrightarrow> i = j"
      "(\<exists>i. is_open ?q i) \<longrightarrow> (\<exists>i. is_open ((deliver_toggle ^^ m) ?q) i)"
      using Cons.hyps(1) [of ?q] by auto
    have "(deliver_toggle ^^ Suc m) p = (deliver_toggle ^^ m) ?q" by (simp add: funpow_swap1 d)
    moreover have "is_open ?q = is_open p" by (simp add: is_open_def fun_eq_iff)
    ultimately show ?thesis using m t by (intro exI [of _ "Suc m"]) auto
  qed
qed

text \<open>C40.  The list of questions settles: after any run, however fast the visitor opens and closes
  questions while \<open>toggle\<close> events are still to come, delivering the queued events ends after at most
  twice as many steps as there are questions, although the handlers queue new ones; then at most
  one question is open, and one is if any was.\<close>

theorem faq_settles:
  fixes p :: "'a site_page_scheme" and es :: "site_event list"
  assumes "faq_ok p"
  defines "q \<equiv> foldl site_step p es"
  shows "\<exists>m \<le> 2 * length (faqItems q). toggles ((deliver_toggle ^^ m) q) = [] \<and>
    (\<forall>i j. is_open ((deliver_toggle ^^ m) q) i \<and> is_open ((deliver_toggle ^^ m) q) j \<longrightarrow> i = j) \<and>
    ((\<exists>i. is_open q i) \<longrightarrow> (\<exists>i. is_open ((deliver_toggle ^^ m) q) i))"
proof -
  have ok: "faq_ok q" unfolding q_def using assms(1) by (induction es arbitrary: p) (simp_all add: faq_ok_step)
  then have "distinct (toggles q)" "set (toggles q) \<subseteq> {..<length (faqItems q)}" by (simp_all add: faq_ok_def)
  then have "length (toggles q) \<le> length (faqItems q)"
    using card_mono [of "{..<length (faqItems q)}" "set (toggles q)"] by (simp add: distinct_card)
  moreover obtain m where m: "m \<le> length (toggles q) + length (faqItems q)" "toggles ((deliver_toggle ^^ m) q) = []"
    "\<forall>i j. is_open ((deliver_toggle ^^ m) q) i \<and> is_open ((deliver_toggle ^^ m) q) j \<longrightarrow> i = j"
    "(\<exists>i. is_open q i) \<longrightarrow> (\<exists>i. is_open ((deliver_toggle ^^ m) q) i)"
    using faq_settles_within [OF ok] by blast
  ultimately have "m \<le> 2 * length (faqItems q)" by simp
  with m(2-4) show ?thesis by blast
qed

section \<open>Revealing\<close>

definition visible_node :: "reveal_node \<Rightarrow> bool" where
  "visible_node r \<longleftrightarrow> has_class (js ''is-visible'') (rv_el r)"

lemma visible_reveal [simp]:
  "visible_node (reveal r)" "visible_node (r\<lparr>rv_observed := b\<rparr>) = visible_node r"
  by (simp_all add: visible_node_def reveal_def has_class_def class_add_def)

definition shown_at :: "'a site_page_scheme \<Rightarrow> nat \<Rightarrow> bool" where
  "shown_at p k \<longleftrightarrow> k < length (revealNodes p) \<and> visible_node (revealNodes p ! k)"

lemma step_keeps_nodes:
  "\<not> (\<exists>es. e = Observed es) \<Longrightarrow> \<not> (\<exists>h. e = SiteTimer h) \<Longrightarrow> revealNodes (site_step p e) = revealNodes p"
proof -
  have s: "revealNodes (set_item_open k b x) = revealNodes x" for k b and x :: "'a site_page_scheme"
    by (simp add: set_item_open_def)
  then have "revealNodes (foldl (\<lambda>q j. if j \<noteq> k then set_item_open j False q else q) x is) = revealNodes x"
    for k "is" and x :: "'a site_page_scheme"
    by (induction "is" arbitrary: x) simp_all
  then show "\<not> (\<exists>es. e = Observed es) \<Longrightarrow> \<not> (\<exists>h. e = SiteTimer h) \<Longrightarrow> ?thesis"
    by (cases e)
      (auto simp: deliver_toggle_def faq_toggle_def summary_click_def s menu_click_def navigation_click_def
        menu_key_def menu_resize_def closeNavigation_def set_menu_def set_focus_def updateClock_def split: list.split)
qed

lemma shown_step: "shown_at p k \<Longrightarrow> shown_at (site_step p e) k"
proof (cases e)
  case (Observed es)
  then show "shown_at p k \<Longrightarrow> ?thesis"
    by (simp add: shown_at_def observed_def nth_enumerate_eq)
next
  case (SiteTimer h)
  then show "shown_at p k \<Longrightarrow> ?thesis"
    by (simp add: shown_at_def reveal_all_def stop_timer_def split: option.split callback.split)
qed (simp_all add: shown_at_def step_keeps_nodes del: site_step.simps)

text \<open>Nothing on the site stays hidden: without animation every node is visible at once, and with it
  a timer is pending after whose callback every node is visible, whatever the observer reported;
  in every run a node that is visible stays so.\<close>

theorem content_revealed:
  fixes p :: "'a site_page_scheme"
  shows "(\<forall>r \<in> set (revealNodes (start_reveal False p)). visible_node r) \<and>
    timers (start_reveal True p) (next_timer p) = Some (RevealAll, 900) \<and>
    (timers q h = Some (RevealAll, d) \<longrightarrow>
      (\<forall>r \<in> set (revealNodes (site_step q (SiteTimer h))). visible_node r)) \<and>
    (shown_at q k \<longrightarrow> shown_at (foldl site_step q es) k)"
proof -
  have "shown_at q k \<Longrightarrow> shown_at (foldl site_step q es) k"
    by (induction es arbitrary: q) (simp_all add: shown_step del: site_step.simps)
  then show ?thesis
    by (auto simp: start_reveal_def reveal_all_def start_timer_def stop_timer_def)
qed

section \<open>Examples\<close>

definition site_start :: site_page where
  "site_start = \<lparr>els = (\<lambda>_. Some blank), doc_el = blank, store = (\<lambda>_. None),
     store_blocked = False, focused = None, sent = [], timers = (\<lambda>_. None), next_timer = 0,
     menuToggle = Some (set_attr (js ''aria-expanded'') (js ''false'') blank),
     menuLabel = Some (set_text (js ''Open navigation'') blank), navigation = Some blank,
     timeNode = Some blank, yearNodes = [blank], revealNodes = [\<lparr>rv_el = blank, rv_observed = False\<rparr>],
     faqItems = [False, False, False], toggles = []\<rparr>"

theorem menu_consistent_witness:
  "menu_expanded (menu_click (foldl site_step site_start [MenuClick, MenuKey (js ''Escape'')])) =
     (\<not> menu_expanded (foldl site_step site_start [MenuClick, MenuKey (js ''Escape'')]))"
proof -
  have "menu_ok site_start"
    by (simp add: menu_ok_def menu_bound_def menu_expanded_def site_start_def set_attr_def set_text_def
        has_class_def blank_def js_bool_def js_eq_iff)
  from menu_consistent [OF this, of "[MenuClick, MenuKey (js ''Escape'')]"] show ?thesis by blast
qed

theorem faq_settles_witness:
  "\<exists>m \<le> 6. toggles ((deliver_toggle ^^ m) (foldl site_step site_start [SummaryClick 0, SummaryClick 2])) = []"
proof -
  have "faq_ok site_start" by (auto simp: faq_ok_def is_open_def site_start_def less_Suc_eq)
  moreover have "length (faqItems (foldl site_step site_start [SummaryClick 0, SummaryClick 2])) = 3"
    by (simp add: summary_click_def site_start_def set_item_open_def)
  ultimately show ?thesis using faq_settles [of site_start "[SummaryClick 0, SummaryClick 2]"] by auto
qed

theorem content_revealed_witness:
  "shown_at (foldl site_step (reveal_all site_start) [MenuClick, Observed [(0, True)]]) 0"
proof -
  have "shown_at (reveal_all site_start) 0" by (simp add: shown_at_def reveal_all_def site_start_def)
  then show ?thesis
    using content_revealed [of site_start "reveal_all site_start" 0 0 0 "[MenuClick, Observed [(0, True)]]"] by blast
qed

end
